(* ===== verification/Prelude.thy ===== *)
theory Prelude
  imports Main "HOL-Library.Word" "HOL-Library.Multiset" "HOL-Library.AList" "HOL-Library.Monad_Syntax"
begin

text \<open>
  The notions the components share: Go's integers, errors, strings and maps as the code of
  \<^verbatim>\<open>src/\<close> uses them, the collections of lemmas the component proofs rewrite with, and the
  one interface that belongs to the language itself: the order in which a \<^verbatim>\<open>range\<close> loop over a
  map visits its entries.
\<close>

named_theorems go_simps \<open>rewrite rules for the model of Go's errors, strings and maps\<close>

section \<open>Integers\<close>

text \<open>
  Go's \<open>int64\<close>, and \<open>int\<close> on the 64-bit targets the image is built for: two's complement
  with silent wrap-around. A signed comparison reads both operands with \<open>sint\<close>.
\<close>

type_synonym int64 = "64 word"

definition int64_ge :: "int64 \<Rightarrow> int64 \<Rightarrow> bool" where
  "int64_ge a b \<longleftrightarrow> sint b \<le> sint a"

lemma sint_of_int_64 [simp]:
  assumes "- (2 ^ 63) \<le> i" and "i < 2 ^ 63"
  shows "sint (word_of_int i :: int64) = i"
  using assms by (simp add: sint_sbintrunc' signed_take_bit_int_eq_self)

section \<open>Errors\<close>

text \<open>
  A Go \<open>error\<close> is an opaque value (\<open>errors.New\<close>, \<open>fmt.Errorf\<close> without \<open>%w\<close>, an error handed
  over by a library), one of the package-level error variables (\<open>var ErrX = errors.New(...)\<close>,
  compared by identity), a wrapper made by \<open>fmt.Errorf\<close> with \<open>%w\<close>, or the result of \<open>errors.Join\<close>.
  A nil error is \<open>None\<close>.
\<close>

datatype go_error =
    ErrorString string
  | SentinelError string
  | WrapError string go_error
  | JoinError "go_error list"

fun string_join :: "string \<Rightarrow> string list \<Rightarrow> string" where
  "string_join sep [] = []"
| "string_join sep [x] = x"
| "string_join sep (x # y # zs) = x @ sep @ string_join sep (y # zs)"

fun err_msg :: "go_error \<Rightarrow> string" where
  "err_msg (ErrorString s) = s"
| "err_msg (SentinelError s) = s"
| "err_msg (WrapError m e) = m"
| "err_msg (JoinError es) = string_join [CHR 0x0A] (map err_msg es)"

text \<open>\<open>fmt.Errorf("pre%wpost", e)\<close>.\<close>

definition errorf_w :: "string \<Rightarrow> go_error \<Rightarrow> string \<Rightarrow> go_error" where
  "errorf_w pre e post = WrapError (pre @ err_msg e @ post) e"

text \<open>\<open>errors.Wrapf(e, msg)\<close> of \<^verbatim>\<open>github.com/pkg/errors\<close>, whose text is \<open>msg: cause\<close>.\<close>

definition errors_Wrapf :: "go_error \<Rightarrow> string \<Rightarrow> go_error" where
  "errors_Wrapf e msg = WrapError (msg @ '': '' @ err_msg e) e"

text \<open>\<open>errors.Join\<close>: nil for no error.\<close>

definition errors_join :: "go_error list \<Rightarrow> go_error option" where
  "errors_join es = (if es = [] then None else Some (JoinError es))"

text \<open>\<open>errors.Is\<close>: the target occurs somewhere in the tree of wrapped errors.\<close>

fun err_is :: "go_error \<Rightarrow> go_error \<Rightarrow> bool" where
  "err_is (ErrorString s) t \<longleftrightarrow> False"
| "err_is (SentinelError s) t \<longleftrightarrow> t = SentinelError s"
| "err_is (WrapError m e) t \<longleftrightarrow> err_is e t"
| "err_is (JoinError es) t \<longleftrightarrow> (\<exists>e \<in> set es. err_is e t)"

lemma errors_join_None [simp, go_simps]: "errors_join es = None \<longleftrightarrow> es = []"
  by (simp add: errors_join_def)

lemma errors_join_Some [go_simps]: "errors_join es = Some e \<longleftrightarrow> es \<noteq> [] \<and> e = JoinError es"
  by (auto simp: errors_join_def)

lemma err_is_errorf_w [simp, go_simps]: "err_is (errorf_w pre e post) t \<longleftrightarrow> err_is e t"
  by (simp add: errorf_w_def)

lemma err_is_errors_Wrapf [simp, go_simps]: "err_is (errors_Wrapf e msg) t \<longleftrightarrow> err_is e t"
  by (simp add: errors_Wrapf_def)

lemma errors_join_is:
  "errors_join es = Some e \<Longrightarrow> (\<And>x. x \<in> set es \<Longrightarrow> err_is x t) \<Longrightarrow> err_is e t"
  by (cases es) (auto simp: errors_join_def)

lemma errors_join_Nil [simp, go_simps]: "errors_join [] = None"
  by simp

section \<open>Strings\<close>

text \<open>
  A Go string is a sequence of bytes. \<open>strings.ToLower\<close> is modelled on ASCII: the letters
  \<open>A\<close> to \<open>Z\<close> are lowered and every other byte is kept (upper case letters outside ASCII,
  which \<open>strings.ToLower\<close> also maps, do not occur in the names it is applied to).
\<close>

definition lower_char :: "char \<Rightarrow> char" where
  "lower_char c = (if 65 \<le> (of_char c :: nat) \<and> of_char c \<le> (90 :: nat) then char_of (of_char c + 32 :: nat) else c)"

definition ToLower :: "string \<Rightarrow> string" where
  "ToLower s = map lower_char s"

lemma lower_char_idem [simp]: "lower_char (lower_char c) = lower_char c"
  by (simp add: lower_char_def)

lemma ToLower_idem [simp, go_simps]: "ToLower (ToLower s) = ToLower s"
  by (simp add: ToLower_def)

lemma length_ToLower [simp, go_simps]: "length (ToLower s) = length s"
  by (simp add: ToLower_def)

text \<open>Decimal printing of an integer (\<open>%d\<close>), and of a boolean (\<open>strconv.FormatBool\<close>).\<close>

definition digit_char :: "nat \<Rightarrow> char" where
  "digit_char d = char_of (48 + d)"

fun show_nat :: "nat \<Rightarrow> string" where
  "show_nat n = (if n < 10 then [digit_char n] else show_nat (n div 10) @ [digit_char (n mod 10)])"

declare show_nat.simps [simp del]

definition show_int :: "int \<Rightarrow> string" where
  "show_int i = (if i < 0 then ''-'' @ show_nat (nat (- i)) else show_nat (nat i))"

definition FormatBool :: "bool \<Rightarrow> string" where
  "FormatBool b = (if b then ''true'' else ''false'')"

lemma FormatBool_inj [simp]: "FormatBool a = FormatBool b \<longleftrightarrow> a = b"
  by (cases a; cases b) (simp_all add: FormatBool_def)

definition digit_val :: "char \<Rightarrow> nat" where
  "digit_val c = of_char c - 48"

definition read_nat :: "string \<Rightarrow> nat" where
  "read_nat s = foldl (\<lambda>n c. 10 * n + digit_val c) 0 s"

lemma digit_val_char [simp]: "d < 10 \<Longrightarrow> digit_val (digit_char d) = d"
  by (simp add: digit_val_def digit_char_def)

lemma read_show_nat [simp]: "read_nat (show_nat n) = n"
proof (induction n rule: show_nat.induct)
  case (1 n)
  then show ?case
    by (cases "n < 10") (simp_all add: show_nat.simps [of n] read_nat_def)
qed

text \<open>Zeros on the left, up to a width.\<close>

definition pad_zeros :: "nat \<Rightarrow> string \<Rightarrow> string" where
  "pad_zeros n s = replicate (n - length s) (CHR ''0'') @ s"

lemma read_nat_zeros [simp]: "read_nat (replicate k (CHR ''0'') @ s) = read_nat s"
  by (induction k) (simp_all add: read_nat_def digit_val_def)

lemma read_pad_zeros [simp]: "read_nat (pad_zeros n (show_nat k)) = k"
  by (simp add: pad_zeros_def)

lemma length_show_nat: "k < 10 ^ n \<Longrightarrow> 0 < n \<Longrightarrow> length (show_nat k) \<le> n"
proof (induction n arbitrary: k)
  case (Suc n)
  show ?case
  proof (cases "k < 10")
    case False
    then have "k div 10 < 10 ^ n" "0 < n" using Suc.prems(1) by (auto intro: gr0I)
    from Suc.IH [OF this] show ?thesis using False by (simp add: show_nat.simps [of k])
  qed (simp add: show_nat.simps [of k])
qed simp

lemma length_pad_zeros: "k < 10 ^ n \<Longrightarrow> 0 < n \<Longrightarrow> length (pad_zeros n (show_nat k)) = n"
  using length_show_nat [of k n] by (simp add: pad_zeros_def)

lemma digit_char_range [simp]: "d < 10 \<Longrightarrow> (48 :: nat) \<le> of_char (digit_char d) \<and> of_char (digit_char d) \<le> (57 :: nat)"
  by (simp add: digit_char_def)

lemma show_nat_digits: "list_all (\<lambda>c. (48 :: nat) \<le> of_char c \<and> of_char c \<le> (57 :: nat)) (show_nat n) \<and> show_nat n \<noteq> []"
proof (induction n rule: show_nat.induct)
  case (1 n)
  then show ?case by (cases "n < 10") (simp_all add: show_nat.simps [of n])
qed

lemma show_nat_inj [simp]: "show_nat m = show_nat n \<longleftrightarrow> m = n"
  by (metis read_show_nat)

text \<open>\<open>fmt.Sprintf\<close> with the verb \<open>%s\<close> only: each one takes the next argument.\<close>

fun Sprintf_s :: "string \<Rightarrow> string list \<Rightarrow> string" where
  "Sprintf_s [] args = []"
| "Sprintf_s (c # cs) args =
     (if c = CHR ''%'' \<and> take 1 cs = ''s''
      then (case args of [] \<Rightarrow> ''%!s(MISSING)'' @ Sprintf_s (drop 1 cs) [] | a # as \<Rightarrow> a @ Sprintf_s (drop 1 cs) as)
      else c # Sprintf_s cs args)"

section \<open>Maps\<close>

text \<open>
  A Go map is the list of its entries, each key once. \<open>m[k]\<close> with the comma-ok form is \<open>map_of\<close>,
  an assignment is \<open>AList.update\<close>, \<open>len\<close> is \<open>length\<close>. The list order stands for nothing: a
  \<open>range\<close> loop visits the entries in an order the language leaves open, which the model takes as
  a parameter \<open>ord\<close>.
\<close>

type_synonym ('k, 'v) gomap = "('k \<times> 'v) list"

abbreviation gm_wf :: "('k, 'v) gomap \<Rightarrow> bool" where
  "gm_wf m \<equiv> distinct (map fst m)"

text \<open>The only promise of a \<open>range\<close> loop: every entry is visited exactly once.\<close>

locale go_range =
  fixes ord :: "('k, 'v) gomap \<Rightarrow> ('k, 'v) gomap"
  assumes mset_ord: "mset (ord m) = mset m"
begin

lemma set_ord: "set (ord m) = set m"
  by (metis mset_ord set_mset_mset)

lemma length_ord: "length (ord m) = length m"
  by (metis mset_ord size_mset)

lemma gm_wf_ord: "gm_wf (ord m) \<longleftrightarrow> gm_wf m"
  by (metis mset_ord mset_map mset_eq_imp_distinct_iff)

lemma map_of_ord: "gm_wf m \<Longrightarrow> map_of (ord m) = map_of m"
  by (intro map_of_eqI allI ballI) (auto simp: gm_wf_ord set_ord dest: map_of_SomeD)

end

interpretation range_id: go_range "\<lambda>m. m"
  by unfold_locales simp

interpretation range_rev: go_range rev
  by unfold_locales simp

lemma map_of_update_apply [go_simps]:
  "map_of (AList.update k v m) k' = (if k' = k then Some v else map_of m k')"
  by (simp add: update_conv')

lemma gm_wf_update [intro, go_simps]: "gm_wf m \<Longrightarrow> gm_wf (AList.update k v m)"
  by (rule distinct_update)

lemma foldl_keeps: "P st \<Longrightarrow> (\<And>st x. P st \<Longrightarrow> P (f st x)) \<Longrightarrow> P (foldl f st xs)"
  by (induction xs arbitrary: st) simp_all

text \<open>
  A loop that assigns under a different key in each round, or assigns nothing, builds the list of
  its assignments.
\<close>

definition assigned :: "('a \<Rightarrow> 'k) \<Rightarrow> ('a \<Rightarrow> 'v option) \<Rightarrow> 'a list \<Rightarrow> ('k, 'v) gomap" where
  "assigned k f xs = List.map_filter (\<lambda>x. map_option (Pair (k x)) (f x)) xs"

lemma assigned_simps [simp]:
  "assigned k f [] = []"
  "assigned k f (x # xs) = (case f x of None \<Rightarrow> assigned k f xs | Some v \<Rightarrow> (k x, v) # assigned k f xs)"
  by (auto simp: assigned_def split: option.split)

lemma assigned_Some: "assigned k (\<lambda>x. Some (f x)) xs = map (\<lambda>x. (k x, f x)) xs"
  by (induction xs) simp_all

lemma fst_assigned: "fst ` set (assigned k f xs) \<subseteq> k ` set xs"
  by (induction xs) (auto split: option.splits)

lemma gm_wf_assigned [intro]: "distinct (map k xs) \<Longrightarrow> gm_wf (assigned k f xs)"
  using fst_assigned [of k f] by (induction xs) (auto split: option.splits)

lemma map_of_assigned: "distinct (map k xs) \<Longrightarrow> x \<in> set xs \<Longrightarrow> map_of (assigned k f xs) (k x) = f x"
proof (induction xs)
  case (Cons y ys)
  show ?case
  proof (cases "x = y")
    case True
    have "k y \<notin> fst ` set (assigned k f ys)" using Cons.prems(1) fst_assigned [of k f ys] by auto
    then have "map_of (assigned k f ys) (k y) = None" by (simp add: map_of_eq_None_iff)
    then show ?thesis using True by (simp split: option.split)
  next
    case False
    then have "x \<in> set ys" "k x \<noteq> k y" using Cons.prems by (auto simp: image_iff)
    then show ?thesis using Cons by (simp split: option.split)
  qed
qed simp

lemma update_fresh: "k \<notin> fst ` set m \<Longrightarrow> AList.update k v m = m @ [(k, v)]"
  by (induction m) auto

lemma foldl_update_fresh:
  assumes "distinct (map k xs)" and "k ` set xs \<inter> fst ` set m = {}"
  shows "foldl (\<lambda>m x. case f x of None \<Rightarrow> m | Some v \<Rightarrow> AList.update (k x) v m) m xs = m @ assigned k f xs"
  using assms
proof (induction xs arbitrary: m)
  case (Cons x xs)
  show ?case
  proof (cases "f x")
    case None
    then show ?thesis using Cons.IH [of m] Cons.prems by auto
  next
    case (Some v)
    have "AList.update (k x) v m = m @ [(k x, v)]" using Cons.prems(2) by (intro update_fresh) auto
    then show ?thesis using Some Cons.IH [of "m @ [(k x, v)]"] Cons.prems by auto
  qed
qed simp

end
