(* ===== verification/Float64.thy ===== *)
theory Float64
  imports Prelude "HOL-Library.Log_Nat"
begin

text \<open>
  IEEE 754 binary64 arithmetic as Go's \<open>float64\<close> has it, on rational numbers: a finite value is
  the rational it denotes, every operation rounds its exact result to the nearest representable
  value, ties to even. The sign of zero is not represented, since nothing in the modelled code
  can observe it. The lemmas say when an operation is exact and that rounding is monotone; the
  storage and jitter computations of the components rest on them.
\<close>

section \<open>Rounding\<close>

text \<open>\<open>ilog2 x\<close> is the exponent of a positive rational: the integer part of its binary logarithm.\<close>

definition ilog2 :: "rat \<Rightarrow> int" where
  "ilog2 x = (let (a, b) = quotient_of x; e = bitlen a - bitlen b
              in if 2 powi e \<le> x then e else e - 1)"

text \<open>Round to the nearest integer, ties to even.\<close>

definition rne :: "rat \<Rightarrow> int" where
  "rne q = (let f = \<lfloor>q\<rfloor>; d = q - of_int f
            in if d < 1/2 then f else if 1/2 < d then f + 1 else if even f then f else f + 1)"

text \<open>
  The unit in the last place for a magnitude: 53 significant bits, not below the least
  subnormal.
\<close>

definition ulp_exp :: "rat \<Rightarrow> int" where
  "ulp_exp x = max (ilog2 x - 52) (- 1074)"

definition round_mag :: "rat \<Rightarrow> rat" where
  "round_mag x = (if x \<le> 0 then 0
                  else of_int (rne (x / 2 powi ulp_exp x)) * 2 powi ulp_exp x)"

section \<open>Values and operations\<close>

datatype float64 = Fin rat | PosInf | NegInf | NaN

text \<open>The least magnitude that rounds to an infinity instead of a finite value.\<close>

definition f64_limit :: rat where
  "f64_limit = 2 ^ 1024"

definition f64_round :: "rat \<Rightarrow> float64" where
  "f64_round x = (let v = round_mag \<bar>x\<bar>
                  in if f64_limit \<le> v then (if 0 < x then PosInf else NegInf) else Fin (sgn x * v))"

fun f64_add :: "float64 \<Rightarrow> float64 \<Rightarrow> float64" where
  "f64_add (Fin x) (Fin y) = f64_round (x + y)"
| "f64_add NaN _ = NaN"
| "f64_add _ NaN = NaN"
| "f64_add PosInf NegInf = NaN"
| "f64_add NegInf PosInf = NaN"
| "f64_add PosInf _ = PosInf"
| "f64_add NegInf _ = NegInf"
| "f64_add (Fin _) y = y"

text \<open>Multiplication and division by a finite constant that is not zero: the only uses.\<close>

fun f64_mul_const :: "float64 \<Rightarrow> rat \<Rightarrow> float64" where
  "f64_mul_const (Fin x) c = f64_round (x * c)"
| "f64_mul_const PosInf c = (if 0 < c then PosInf else NegInf)"
| "f64_mul_const NegInf c = (if 0 < c then NegInf else PosInf)"
| "f64_mul_const NaN c = NaN"

fun f64_div_const :: "float64 \<Rightarrow> rat \<Rightarrow> float64" where
  "f64_div_const (Fin x) c = f64_round (x / c)"
| "f64_div_const PosInf c = (if 0 < c then PosInf else NegInf)"
| "f64_div_const NegInf c = (if 0 < c then NegInf else PosInf)"
| "f64_div_const NaN c = NaN"

text \<open>\<open>math.Ceil\<close>: the ceiling of a finite value is representable.\<close>

fun f64_ceil :: "float64 \<Rightarrow> float64" where
  "f64_ceil (Fin x) = Fin (of_int \<lceil>x\<rceil>)"
| "f64_ceil y = y"

text \<open>The conversion \<open>float64(i)\<close> of an \<open>int64\<close>.\<close>

definition f64_of_int64 :: "int64 \<Rightarrow> float64" where
  "f64_of_int64 w = f64_round (of_int (sint w))"

text \<open>
  The conversion \<open>int64(f)\<close> truncates towards zero. Go leaves the result open for a value
  outside the range; the model has what the amd64 instruction gives, the least \<open>int64\<close>.
\<close>

definition truncate :: "rat \<Rightarrow> int" where
  "truncate x = (if 0 \<le> x then \<lfloor>x\<rfloor> else \<lceil>x\<rceil>)"

fun int64_of_f64 :: "float64 \<Rightarrow> int64" where
  "int64_of_f64 (Fin x) =
     (if - (2 ^ 63) \<le> truncate x \<and> truncate x < 2 ^ 63 then word_of_int (truncate x)
      else word_of_int (- (2 ^ 63)))"
| "int64_of_f64 _ = word_of_int (- (2 ^ 63))"

text \<open>
  \<open>time.Duration.Seconds\<close> and \<open>Minutes\<close>: the whole units and the rest are converted separately. The
  integer division of Go truncates towards zero.
\<close>

definition go_quot :: "int \<Rightarrow> int \<Rightarrow> int" where
  "go_quot a b = sgn a * sgn b * (\<bar>a\<bar> div \<bar>b\<bar>)"

definition go_rem :: "int \<Rightarrow> int \<Rightarrow> int" where
  "go_rem a b = a - b * go_quot a b"

lemma go_quot_nonneg [simp]: "0 \<le> a \<Longrightarrow> 0 < b \<Longrightarrow> go_quot a b = a div b"
  by (cases "a = 0") (simp_all add: go_quot_def)

lemma go_rem_nonneg [simp]: "0 \<le> a \<Longrightarrow> 0 < b \<Longrightarrow> go_rem a b = a mod b"
  by (simp add: go_rem_def minus_mult_div_eq_mod)

definition duration_in :: "int \<Rightarrow> int64 \<Rightarrow> float64" where
  "duration_in u d = f64_add (f64_of_int64 (word_of_int (go_quot (sint d) u)))
                       (f64_div_const (f64_of_int64 (word_of_int (go_rem (sint d) u))) (of_int u))"

definition Seconds :: "int64 \<Rightarrow> float64" where
  "Seconds d = duration_in (10 ^ 9) d"

definition Minute :: int where
  "Minute = 60 * 10 ^ 9"

definition Minutes :: "int64 \<Rightarrow> float64" where
  "Minutes d = duration_in Minute d"

definition f64_finite :: "float64 \<Rightarrow> bool" where
  "f64_finite f \<longleftrightarrow> (case f of Fin _ \<Rightarrow> True | _ \<Rightarrow> False)"

section \<open>The exponent\<close>

lemma powi2_le_iff [simp]: "(2 :: rat) powi a \<le> 2 powi b \<longleftrightarrow> a \<le> b"
  by (metis linorder_not_less one_less_numeral_iff order_less_imp_le power_int_increasing
      power_int_strict_increasing semiring_norm(76))

lemma powi2_less_iff [simp]: "(2 :: rat) powi a < 2 powi b \<longleftrightarrow> a < b"
  by (metis linorder_not_less powi2_le_iff)

lemma powi2_split: "(2 :: rat) powi a = 2 powi (a - b) * 2 powi b"
  by (simp flip: power_int_add)

lemma powi2_div: "(2 :: rat) powi a / 2 powi b = 2 powi (a - b)"
  by (simp add: power_int_diff)

lemma powi2_of_nat: "0 \<le> e \<Longrightarrow> (2 :: rat) powi e = of_int (2 ^ nat e)"
  by (simp add: power_int_def)

lemma bitlen_rat_bounds:
  assumes "0 < a"
  shows "2 powi (bitlen a - 1) \<le> (of_int a :: rat)" and "(of_int a :: rat) < 2 powi (bitlen a)"
proof -
  have b: "1 \<le> bitlen a" using assms by (simp add: bitlen_ge_iff_power)
  have "2 ^ nat (bitlen a - 1) \<le> a" and "a < 2 ^ nat (bitlen a)"
    using bitlen_bounds [OF assms] by auto
  with b show "2 powi (bitlen a - 1) \<le> (of_int a :: rat)" and "(of_int a :: rat) < 2 powi (bitlen a)"
    by (simp_all only: powi2_of_nat of_int_le_iff of_int_less_iff)
qed

lemma ilog2_bounds:
  assumes "0 < x"
  shows "2 powi ilog2 x \<le> x" and "x < 2 powi (ilog2 x + 1)"
proof -
  obtain a b where q: "quotient_of x = (a, b)" by (cases "quotient_of x")
  have x: "x = of_int a / of_int b" using q by (rule quotient_of_div)
  have b: "0 < b" using q by (rule quotient_of_denom_pos)
  have a: "0 < a" using assms x b by (simp add: zero_less_divide_iff)
  define e where "e = bitlen a - bitlen b"
  note ab = bitlen_rat_bounds [OF a] and bb = bitlen_rat_bounds [OF b]
  have hi: "x < 2 powi (e + 1)"
  proof -
    have "x < 2 powi bitlen a / 2 powi (bitlen b - 1)"
      unfolding x by (rule frac_less) (use ab bb a in auto)
    then show ?thesis by (simp add: powi2_div e_def algebra_simps)
  qed
  have lo: "2 powi (e - 1) \<le> x"
  proof -
    have "2 powi (bitlen a - 1) / 2 powi bitlen b \<le> x"
      unfolding x by (rule frac_le) (use ab bb a b in auto)
    then show ?thesis by (simp add: powi2_div e_def algebra_simps)
  qed
  have i: "ilog2 x = (if 2 powi e \<le> x then e else e - 1)"
    by (simp add: ilog2_def q e_def Let_def)
  show "2 powi ilog2 x \<le> x" and "x < 2 powi (ilog2 x + 1)"
    using hi lo by (simp_all add: i)
qed

lemma ilog2_less: "0 < x \<Longrightarrow> x < 2 powi e \<Longrightarrow> ilog2 x < e"
  using ilog2_bounds(1) [of x] by (metis order_le_less_trans powi2_less_iff)

lemma ilog2_ge: "2 powi e \<le> x \<Longrightarrow> e \<le> ilog2 x"
  using ilog2_bounds(2) [of x] by (metis order_le_less_trans order_less_le_trans
      powi2_less_iff zero_less_power_int zero_less_numeral zle_add1_eq_le)

lemma ilog2_mono: "0 < x \<Longrightarrow> x \<le> y \<Longrightarrow> ilog2 x \<le> ilog2 y"
  using ilog2_bounds(1) [of x] by (intro ilog2_ge) simp

section \<open>Rounding to an integer\<close>

lemma rne_of_int [simp]: "rne (of_int n) = n"
  by (simp add: rne_def)

lemma rne_bounds: "\<lfloor>q\<rfloor> \<le> rne q" "rne q \<le> \<lfloor>q\<rfloor> + 1"
  by (simp_all add: rne_def Let_def)

lemma rne_mono:
  assumes "p \<le> q"
  shows "rne p \<le> rne q"
proof (cases "\<lfloor>p\<rfloor> = \<lfloor>q\<rfloor>")
  case True
  with assms show ?thesis by (auto simp: rne_def Let_def)
next
  case False
  then have "\<lfloor>p\<rfloor> + 1 \<le> \<lfloor>q\<rfloor>" using floor_mono [OF assms] by linarith
  then show ?thesis using rne_bounds [of p] rne_bounds [of q] by linarith
qed

lemma rne_le_int: "q \<le> of_int n \<Longrightarrow> rne q \<le> n"
  using rne_mono [of q "of_int n"] by simp

lemma rne_ge_int: "of_int n \<le> q \<Longrightarrow> n \<le> rne q"
  using rne_mono [of "of_int n" q] by simp

section \<open>Rounding to 53 bits\<close>

lemma round_mag_0 [simp]: "x \<le> 0 \<Longrightarrow> round_mag x = 0"
  by (simp add: round_mag_def)

lemma round_mag_int_multiple:
  assumes "0 < x" and "x = of_int n * 2 powi e" and "ulp_exp x \<le> e"
  shows "round_mag x = x"
proof -
  let ?u = "ulp_exp x"
  have "x / 2 powi ?u = of_int n * 2 powi (e - ?u)"
    using assms(2) by (simp add: powi2_div flip: times_divide_eq_right)
  also have "\<dots> = of_int (n * 2 ^ nat (e - ?u))"
    using assms(3) by (simp add: powi2_of_nat)
  finally have q: "x / 2 powi ?u = of_int (n * 2 ^ nat (e - ?u))" .
  have "round_mag x = x / 2 powi ?u * 2 powi ?u"
    using assms(1) by (simp only: round_mag_def q rne_of_int) simp
  then show ?thesis by simp
qed

text \<open>A value with at most 53 significant bits, not finer than the subnormals, is kept.\<close>

lemma round_mag_exact:
  assumes n: "0 \<le> n" "n \<le> 2 ^ 53" and e: "- 1074 \<le> e"
  shows "round_mag (of_int n * 2 powi e) = of_int n * 2 powi e"
proof (cases "n = 0 \<or> n = 2 ^ 53")
  case True
  moreover have "round_mag (2 powi (e + 53)) = 2 powi (e + 53)"
  proof (rule round_mag_int_multiple [where n = "2 ^ 52" and e = "e + 1"])
    have "ilog2 (2 powi (e + 53)) < e + 54" by (rule ilog2_less) simp_all
    with e show "ulp_exp (2 powi (e + 53)) \<le> e + 1" by (simp add: ulp_exp_def)
    have "(2 :: rat) powi (e + 53) = 2 powi 52 * 2 powi (e + 1)"
      by (subst power_int_add [symmetric]) (simp_all add: algebra_simps)
    then show "2 powi (e + 53) = rat_of_int (2 ^ 52) * 2 powi (e + 1)"
      by (simp add: powi2_of_nat)
  qed simp
  moreover have "(2 :: rat) powi (e + 53) = of_int (2 ^ 53) * 2 powi e"
    by (subst power_int_add) (simp_all add: powi2_of_nat)
  ultimately show ?thesis by auto
next
  case False
  let ?x = "rat_of_int n * 2 powi e"
  have pos: "0 < ?x" using False n by simp
  have "?x < 2 powi 53 * 2 powi e"
    using False n by (intro mult_strict_right_mono) (simp_all add: powi2_of_nat)
  then have "?x < 2 powi (53 + e)" by (simp add: power_int_add)
  then have "ilog2 ?x < 53 + e" by (rule ilog2_less [OF pos])
  then have "ulp_exp ?x \<le> e" using e by (simp add: ulp_exp_def)
  with pos show ?thesis by (intro round_mag_int_multiple) simp_all
qed

lemma mag_in_ulps:
  assumes "0 < x"
  shows "x / 2 powi ulp_exp x \<le> of_int (2 ^ 53)"
    and "- 1074 < ulp_exp x \<Longrightarrow> of_int (2 ^ 52) \<le> x / 2 powi ulp_exp x"
proof -
  have "x < 2 powi (ulp_exp x + 53)"
    using ilog2_bounds(2) [OF assms]
    by (rule order_less_le_trans) (simp add: ulp_exp_def)
  then have "x \<le> 2 powi 53 * 2 powi ulp_exp x" by (simp add: power_int_add)
  then show "x / 2 powi ulp_exp x \<le> of_int (2 ^ 53)"
    by (simp add: pos_divide_le_eq powi2_of_nat)
  show "of_int (2 ^ 52) \<le> x / 2 powi ulp_exp x" if "- 1074 < ulp_exp x"
  proof -
    have "ilog2 x = ulp_exp x + 52" using that by (simp add: ulp_exp_def)
    then have "2 powi 52 * 2 powi ulp_exp x \<le> x"
      using ilog2_bounds(1) [OF assms] by (simp add: power_int_add mult.commute)
    then show ?thesis by (simp add: pos_le_divide_eq powi2_of_nat)
  qed
qed

lemma round_mag_mono:
  assumes "x \<le> y"
  shows "round_mag x \<le> round_mag y"
proof (cases "0 < x")
  case False
  have "0 \<le> rne (y / 2 powi ulp_exp y)" if "0 < y"
    using that by (intro rne_ge_int) simp
  with False show ?thesis by (simp add: round_mag_def)
next
  case True
  let ?u = "ulp_exp x" and ?v = "ulp_exp y"
  have y: "0 < y" using True assms by simp
  have uv: "?u \<le> ?v" using ilog2_mono [OF True assms] by (simp add: ulp_exp_def)
  show ?thesis
  proof (cases "?u = ?v")
    case True
    then have "rne (x / 2 powi ?u) \<le> rne (y / 2 powi ?v)"
      using assms by (intro rne_mono) (simp add: divide_right_mono)
    with True \<open>0 < x\<close> y show ?thesis by (simp add: round_mag_def)
  next
    case False
    with uv have lt: "?u < ?v" and sub: "- 1074 < ?v" by (auto simp: ulp_exp_def)
    have "round_mag x \<le> of_int (2 ^ 53) * 2 powi ?u"
      using mag_in_ulps(1) [OF \<open>0 < x\<close>] \<open>0 < x\<close>
      by (simp only: round_mag_def) (simp add: rne_le_int)
    also have "\<dots> = 2 powi (?u + 53)" by (simp add: power_int_add powi2_of_nat)
    also have "\<dots> \<le> 2 powi (?v + 52)" using lt by simp
    also have "\<dots> = of_int (2 ^ 52) * 2 powi ?v" by (simp add: power_int_add powi2_of_nat)
    also have "\<dots> \<le> round_mag y"
      using rne_ge_int [OF mag_in_ulps(2) [OF y sub]] y
      by (simp only: round_mag_def) (simp flip: of_int_le_iff)
    finally show ?thesis .
  qed
qed

lemma round_mag_nonneg: "0 \<le> round_mag x"
  using round_mag_mono [of 0 x] by (cases "0 \<le> x") simp_all

section \<open>Exact operations\<close>

named_theorems f64_exact \<open>operations on \<open>float64\<close> values whose result is representable\<close>

lemma round_mag_idem [simp]: "round_mag (round_mag x) = round_mag x"
proof (cases "x \<le> 0")
  case False
  let ?n = "rne (x / 2 powi ulp_exp x)"
  have "0 \<le> ?n" "?n \<le> 2 ^ 53"
    using False mag_in_ulps(1) [of x] by (auto intro!: rne_ge_int rne_le_int)
  then have "round_mag (of_int ?n * 2 powi ulp_exp x) = of_int ?n * 2 powi ulp_exp x"
    by (rule round_mag_exact) (simp add: ulp_exp_def)
  then show ?thesis using False by (simp add: round_mag_def [of x])
qed simp

lemma f64_round_idem: "f64_round x = Fin q \<Longrightarrow> f64_round q = Fin q"
proof -
  assume q: "f64_round x = Fin q"
  let ?v = "round_mag \<bar>x\<bar>"
  have v: "q = sgn x * ?v" "?v < f64_limit" using q by (auto simp: f64_round_def Let_def split: if_splits)
  have "round_mag \<bar>q\<bar> = \<bar>q\<bar>"
    using round_mag_nonneg [of "\<bar>x\<bar>"] by (cases x "0 :: rat" rule: linorder_cases) (simp_all add: v(1))
  moreover have "\<bar>q\<bar> < f64_limit"
    using v(2) round_mag_nonneg [of "\<bar>x\<bar>"] by (cases x "0 :: rat" rule: linorder_cases) (simp_all add: v(1))
  ultimately show ?thesis by (simp add: f64_round_def Let_def not_le [symmetric] sgn_mult_abs)
qed

lemma f64_round_nonneg:
  "0 \<le> x \<Longrightarrow> round_mag x < f64_limit \<Longrightarrow> f64_round x = Fin (round_mag x)"
  by (cases "x = 0") (auto simp: f64_round_def Let_def)

lemma f64_round_dyadic [f64_exact]:
  assumes n: "\<bar>n\<bar> \<le> 2 ^ 53" and e: "- 1074 \<le> e" "e \<le> 970"
  shows "f64_round (of_int n * 2 powi e) = Fin (of_int n * 2 powi e)"
proof -
  let ?m = "rat_of_int \<bar>n\<bar> * 2 powi e"
  have abs: "\<bar>rat_of_int n * 2 powi e\<bar> = ?m" by (simp add: abs_mult)
  have r: "round_mag ?m = ?m" using n e by (intro round_mag_exact) simp_all
  have "?m \<le> rat_of_int (2 ^ 53) * 2 powi 970"
    using n e by (intro mult_mono) (simp_all only: of_int_le_iff powi2_le_iff, simp_all)
  also have "\<dots> < 2 powi 1024" by (simp add: powi2_of_nat)
  finally have fin: "?m < f64_limit" by (simp add: f64_limit_def power_int_def)
  have "sgn (rat_of_int n * 2 powi e) * ?m = of_int n * 2 powi e"
    by (cases n "0 :: int" rule: linorder_cases) (simp_all add: sgn_mult)
  with fin show ?thesis unfolding f64_round_def abs r Let_def by auto
qed

lemma f64_round_int [f64_exact]: "\<bar>n\<bar> \<le> 2 ^ 53 \<Longrightarrow> f64_round (of_int n) = Fin (of_int n)"
  using f64_round_dyadic [of n 0] by simp

lemma f64_of_int64_exact [f64_exact]:
  "\<bar>sint w\<bar> \<le> 2 ^ 53 \<Longrightarrow> f64_of_int64 w = Fin (of_int (sint w))"
  unfolding f64_of_int64_def by (rule f64_round_int)

lemma f64_div_pow2 [f64_exact]:
  assumes "\<bar>n\<bar> \<le> 2 ^ 53" and "k \<le> 1074"
  shows "f64_div_const (Fin (of_int n)) (2 ^ k) = Fin (of_int n / 2 ^ k)"
proof -
  have "of_int n / 2 ^ k = rat_of_int n * 2 powi (- int k)"
    by (simp add: power_int_minus divide_inverse)
  with f64_round_dyadic [of n "- int k"] assms show ?thesis by simp
qed

lemma truncate_of_int [simp]: "truncate (of_int n) = n"
  by (simp add: truncate_def)

lemma int64_of_f64_int [f64_exact]:
  "- (2 ^ 63) \<le> n \<Longrightarrow> n < 2 ^ 63 \<Longrightarrow> int64_of_f64 (Fin (of_int n)) = word_of_int n"
  by simp

lemma int64_of_f64_floor [f64_exact]:
  assumes "0 \<le> x" and "x < 2 ^ 63"
  shows "int64_of_f64 (Fin x) = word_of_int \<lfloor>x\<rfloor>"
proof -
  have "\<lfloor>x\<rfloor> < 2 ^ 63" using assms(2) by (simp add: floor_less_iff)
  with assms(1) show ?thesis by (simp add: truncate_def)
qed

text \<open>
  Rounding a quotient up to the next multiple of 32: the four operations are exact up to
  \<open>2 ^ 53\<close> in magnitude.
\<close>

lemma f64_round_up_32_int:
  assumes "\<bar>n\<bar> \<le> 2 ^ 53"
  shows "int64_of_f64 (f64_mul_const (f64_ceil (f64_div_const (Fin (of_int n)) 32)) 32)
           = word_of_int (- 32 * (- n div 32))"
proof -
  let ?c = "- (- n div 32)"
  have "\<lceil>of_int n / (32 :: rat)\<rceil> = ?c"
    using ceiling_divide_eq_div [of n 32] by simp
  then have d: "f64_ceil (f64_div_const (Fin (of_int n)) 32) = Fin (of_int ?c)"
    using f64_div_pow2 [OF assms, of 5] by simp
  have "- (2 ^ 53) div 32 \<le> - n div 32" and "- n div 32 \<le> 2 ^ 53 div 32"
    using assms by (intro zdiv_mono1; simp add: abs_le_iff)+
  then have c: "\<bar>32 * ?c\<bar> \<le> 2 ^ 53" by (simp add: abs_le_iff)
  have m: "f64_mul_const (Fin (of_int ?c)) 32 = Fin (of_int (32 * ?c))"
    using f64_round_int [OF c] by (simp add: mult.commute)
  have "int64_of_f64 (Fin (of_int (32 * ?c))) = word_of_int (32 * ?c)"
    using c by (intro int64_of_f64_int) (simp_all add: abs_le_iff)
  with d m show ?thesis by simp
qed

lemma round_up_32_eq: "- 32 * (- n div 32) = 32 * ((n + 31) div (32 :: int))"
proof -
  have "- n div 32 = - ((n + 31) div 32)"
    using mult_div_mod_eq [of 32 "n + 31"] pos_mod_bound [of 32 "n + 31"] pos_mod_sign [of 32 "n + 31"]
    by (intro int_div_pos_eq [where r = "31 - (n + 31) mod 32"]) linarith+
  then show ?thesis by simp
qed

lemma f64_round_up_32:
  assumes "\<bar>sint sz\<bar> \<le> 2 ^ 53"
  shows "int64_of_f64 (f64_mul_const (f64_ceil (f64_div_const (f64_of_int64 sz) 32)) 32)
           = word_of_int (- 32 * (- sint sz div 32))"
  unfolding f64_of_int64_exact [OF assms] by (rule f64_round_up_32_int [OF assms])

text \<open>
  A quotient stays below an integer after rounding when it is at least \<open>2 powi - 40\<close> below it and
  the integer is at most \<open>8192\<close>.
\<close>

lemma floor_round_mag:
  assumes "0 \<le> q" and "q \<le> of_int (\<lfloor>q\<rfloor> + 1) - 1 / 2 ^ 40" and "\<lfloor>q\<rfloor> < 8192"
  shows "\<lfloor>round_mag q\<rfloor> = \<lfloor>q\<rfloor>"
proof -
  define k where "k = \<lfloor>q\<rfloor>"
  have k: "0 \<le> k" "k < 8192" using assms(1,3) by (simp_all add: k_def)
  have g: "rat_of_int (k + 1) - 1 / 2 ^ 40 = of_int ((k + 1) * 2 ^ 40 - 1) * 2 powi (- 40)"
    by (simp add: power_int_minus field_simps)
  have "round_mag (of_int k * 2 powi 0) = of_int k * 2 powi 0"
    using k by (intro round_mag_exact) simp_all
  then have lo: "of_int k \<le> round_mag q"
    using round_mag_mono [of "of_int k" q] by (simp add: k_def)
  have "round_mag (of_int ((k + 1) * 2 ^ 40 - 1) * 2 powi (- 40))
          = of_int ((k + 1) * 2 ^ 40 - 1) * 2 powi (- 40)"
  proof (rule round_mag_exact)
    have "1 * 2 ^ 40 \<le> (k + 1) * 2 ^ 40" and "(k + 1) * 2 ^ 40 \<le> 8192 * 2 ^ 40"
      using k by (intro mult_right_mono; simp)+
    then show "0 \<le> (k + 1) * 2 ^ 40 - 1" and "(k + 1) * 2 ^ 40 - 1 \<le> 2 ^ 53" by simp_all
  qed simp
  then have "round_mag q \<le> of_int (k + 1) - 1 / 2 ^ 40"
    using round_mag_mono [OF assms(2)] unfolding g [unfolded k_def] k_def by simp
  then have hi: "round_mag q < of_int k + 1" by (rule order_le_less_trans) simp
  from lo hi show ?thesis unfolding k_def [symmetric] by (intro floor_unique) simp_all
qed

text \<open>Dividing an integer by \<open>2 ^ 30\<close> and then by 1000, and truncating: the exact quotient.\<close>

lemma floor_div_margin:
  assumes "0 < d" and "d \<le> 2 ^ 40"
  shows "of_int m / of_int d \<le> (of_int (\<lfloor>of_int m / of_int d :: rat\<rfloor> + 1) :: rat) - 1 / 2 ^ 40"
proof -
  let ?k = "m div d"
  have k: "\<lfloor>of_int m / of_int d :: rat\<rfloor> = ?k" by (rule floor_divide_of_int_eq)
  have "m mod d < d" using assms(1) by simp
  then have "m + 1 \<le> (?k + 1) * d"
    using mult_div_mod_eq [of d m] unfolding distrib_right mult.commute [of "m div d"] by linarith
  then have "rat_of_int m + 1 \<le> of_int (?k + 1) * of_int d"
    by (metis of_int_1 of_int_add of_int_le_iff of_int_mult)
  then have "rat_of_int m / of_int d + 1 / of_int d \<le> of_int (?k + 1)"
    using assms(1) by (simp add: add_divide_distrib [symmetric] pos_divide_le_eq)
  moreover have "rat_of_int d \<le> 2 ^ 40"
    using assms(2) by (metis of_int_le_iff of_int_numeral of_int_power)
  then have "1 / 2 ^ 40 \<le> 1 / rat_of_int d"
    using assms(1) by (intro divide_left_mono) simp_all
  ultimately show ?thesis unfolding k by linarith
qed

lemma f64_div_gib_milli:
  assumes "0 \<le> m" and "m < 8192 * (1000 * 2 ^ 30)"
  shows "int64_of_f64 (f64_div_const (f64_div_const (Fin (of_int m)) (2 ^ 30)) 1000)
           = word_of_int (m div (1000 * 2 ^ 30))"
proof -
  let ?d = "1000 * 2 ^ 30 :: int"
  define q where "q = (of_int m / of_int ?d :: rat)"
  have q0: "0 \<le> q" using assms(1) by (simp add: q_def)
  have q1: "q \<le> 8192" using assms(2) by (simp add: q_def pos_divide_le_eq flip: of_int_le_iff)
  have fl: "\<lfloor>q\<rfloor> = m div ?d" unfolding q_def by (rule floor_divide_of_int_eq)
  then have k: "\<lfloor>q\<rfloor> < 8192" using assms(2) by simp
  have "f64_div_const (Fin (of_int m)) (2 ^ 30) = Fin (of_int m / 2 ^ 30)"
    by (rule f64_div_pow2) (use assms in simp_all)
  moreover have "of_int m / 2 ^ 30 / 1000 = q" by (simp add: q_def)
  moreover have r: "round_mag q \<le> 8192"
    using round_mag_mono [OF q1] round_mag_exact [of 8192 0] by simp
  then have "f64_round q = Fin (round_mag q)"
    by (intro f64_round_nonneg q0) (simp add: f64_limit_def)
  moreover have "int64_of_f64 (Fin (round_mag q)) = word_of_int \<lfloor>round_mag q\<rfloor>"
    by (rule int64_of_f64_floor) (use r round_mag_nonneg in simp_all)
  moreover have "\<lfloor>round_mag q\<rfloor> = \<lfloor>q\<rfloor>"
    using floor_div_margin [of ?d m] q0 k by (intro floor_round_mag) (simp_all add: q_def)
  ultimately show ?thesis using fl by simp
qed

lemma f64_div_gib:
  assumes "0 \<le> m" and "m \<le> 2 ^ 53"
  shows "int64_of_f64 (f64_div_const (Fin (of_int m)) (2 ^ 30)) = word_of_int (m div 2 ^ 30)"
proof -
  have "f64_div_const (Fin (of_int m)) (2 ^ 30) = Fin (of_int m / 2 ^ 30)"
    by (rule f64_div_pow2) (use assms in simp_all)
  moreover have "int64_of_f64 (Fin (of_int m / 2 ^ 30)) = word_of_int \<lfloor>rat_of_int m / 2 ^ 30\<rfloor>"
  proof (rule int64_of_f64_floor)
    have "rat_of_int m \<le> 2 ^ 53" using assms(2) by (metis of_int_le_iff of_int_numeral of_int_power)
    then show "rat_of_int m / 2 ^ 30 < 2 ^ 63" by (simp add: pos_divide_less_eq)
  qed (use assms in simp)
  ultimately show ?thesis using floor_divide_of_int_eq [of m "2 ^ 30", where 'a = rat] by simp
qed

text \<open>
  Sums of non-negative multiples of one power of two are exact while they have at most 53 bits.
\<close>

lemma f64_sum_grid:
  assumes "\<forall>n \<in> set ns. 0 \<le> n" and "0 \<le> a" and "a + sum_list ns \<le> 2 ^ 53"
    and e: "- 1074 \<le> e" "e \<le> 970"
  shows "foldl f64_add (Fin (of_int a * 2 powi e)) (map (\<lambda>n. Fin (of_int n * 2 powi e)) ns)
           = Fin (of_int (a + sum_list ns) * 2 powi e)"
  using assms(1-3)
proof (induction ns arbitrary: a)
  case Nil
  then show ?case by simp
next
  case (Cons n ns)
  have "0 \<le> sum_list ns" using Cons.prems(1) by (auto intro: sum_list_nonneg)
  then have an: "0 \<le> a + n" "a + n \<le> 2 ^ 53" using Cons.prems by auto
  have "f64_add (Fin (of_int a * 2 powi e)) (Fin (of_int n * 2 powi e)) = Fin (of_int (a + n) * 2 powi e)"
    using f64_round_dyadic [of "a + n" e] an e by (simp add: distrib_right)
  with Cons.IH [of "a + n"] Cons.prems an show ?case by (simp add: add.assoc)
qed

lemma f64_sum_map:
  assumes "\<forall>x \<in> set xs. 0 \<le> g x \<and> h x = Fin (of_int (g x) * 2 powi e)"
    and "(\<Sum>x\<leftarrow>xs. g x) \<le> 2 ^ 53" and "- 1074 \<le> e" "e \<le> 970"
  shows "foldl f64_add (Fin 0) (map h xs) = Fin (of_int (\<Sum>x\<leftarrow>xs. g x) * 2 powi e)"
proof -
  have "map h xs = map (\<lambda>n. Fin (of_int n * 2 powi e)) (map g xs)" using assms(1) by simp
  then show ?thesis using f64_sum_grid [of "map g xs" 0 e] assms by (simp only:) simp
qed

end
