(* ===== verification/RuntimeModel.thy ===== *)
theory RuntimeModel
  imports Float64
begin

text \<open>
  The data that identifies a cluster and travels between the components: \<open>runtime.Info\<close>
  (\<^verbatim>\<open>src/pkg/runtime/runtime.go\<close>), the cache record
  (\<^verbatim>\<open>src/pkg/runtime/kubeconfigprovider/record.go\<close>) and the span attributes derived from it
  (\<^verbatim>\<open>src/pkg/otel/span_attributes.go\<close>).
\<close>

section \<open>Cluster data\<close>

text \<open>The fields \<open>Kubeconfig\<close> and \<open>Client\<close> of \<open>runtime.Info\<close> are never set or read.\<close>

record Info =
  ri_InstanceID :: string
  ri_RuntimeID :: string
  ri_SubAccountID :: string
  ri_GlobalAccountID :: string
  ri_ShootName :: string
  ri_ProviderType :: string

type_synonym ScannerID = string
type_synonym 's ScanMap = "(ScannerID, 's) gomap"

record 's Record =
  rec_InstanceID :: string
  rec_RuntimeID :: string
  rec_SubAccountID :: string
  rec_GlobalAccountID :: string
  rec_ShootName :: string
  rec_ProviderType :: string
  rec_ScanMap :: "'s ScanMap"

text \<open>The literal \<open>Record{}\<close>: every field has its zero value.\<close>

definition zeroRecord :: "'s Record" where
  "zeroRecord = \<lparr>rec_InstanceID = [], rec_RuntimeID = [], rec_SubAccountID = [],
                 rec_GlobalAccountID = [], rec_ShootName = [], rec_ProviderType = [],
                 rec_ScanMap = []\<rparr>"

definition SpanAttributes :: "Info \<Rightarrow> (string \<times> string) list" where
  "SpanAttributes r =
     [(''instance_id'', ri_InstanceID r), (''runtime_id'', ri_RuntimeID r),
      (''sub_account_id'', ri_SubAccountID r), (''global_account_id'', ri_GlobalAccountID r),
      (''shoot_name'', ri_ShootName r), (''provider'', ri_ProviderType r)]"

end
