(* ===== verification/Metrics.thy ===== *)
theory Metrics
  imports RuntimeModel
begin

text \<open>
  The Prometheus metrics of the program: their declarations and the functions that record them
  (\<^verbatim>\<open>src/pkg/process/metrics.go\<close>, \<^verbatim>\<open>src/pkg/collector/metrics.go\<close>,
  \<^verbatim>\<open>src/pkg/collector/edp/metrics.go\<close>, \<^verbatim>\<open>src/pkg/keb/metrics.go\<close>,
  \<^verbatim>\<open>src/pkg/queue/metrics.go\<close>, \<^verbatim>\<open>src/pkg/metrics/metrics.go\<close>), and the deletion of the series of a
  cluster. The gauge of the kubeconfig cache is recorded in the theory of its provider.
\<close>

section \<open>Declarations\<close>

text \<open>
  The metric vectors are objects of the Prometheus library; what the program contributes is their
  declaration and the calls it makes, each with its label values in the order of the declaration.
  A call is a value, and an operation that makes calls returns the list of them.
\<close>

datatype metric =
    itemsInCache | subAccountProcessed | subAccountProcessedTimeStamp | kebFetchedClusters
  | TotalScans | TotalScansConverted | edpLatency | kebLatency | cacheSizeMetric
  | depth | adds | latency | workDuration | unfinished | longestRunningProcessor | retries
  | creates | entries

datatype vec_kind = CounterVec | GaugeVec | HistogramVec

record vec_decl =
  md_kind :: vec_kind
  md_Namespace :: string
  md_Subsystem :: string
  md_Name :: string
  md_Labels :: "string list"

text \<open>The declarations, in the order of the files that make them; help texts and buckets are left out.\<close>

definition shootNameLabel :: string where "shootNameLabel = ''shoot_name''"
definition instanceIdLabel :: string where "instanceIdLabel = ''instance_id''"
definition runtimeIdLabel :: string where "runtimeIdLabel = ''runtime_id''"
definition subAccountLabel :: string where "subAccountLabel = ''sub_account_id''"
definition globalAccountLabel :: string where "globalAccountLabel = ''global_account_id''"
definition successLabel :: string where "successLabel = ''success''"
definition trackableLabel :: string where "trackableLabel = ''trackable''"
definition resourceNameLabel :: string where "resourceNameLabel = ''resource_name''"
definition backendNameLabel :: string where "backendNameLabel = ''backend_name''"
definition EDPBackendName :: string where "EDPBackendName = ''edp''"

lemmas label_defs = shootNameLabel_def instanceIdLabel_def runtimeIdLabel_def subAccountLabel_def
  globalAccountLabel_def successLabel_def trackableLabel_def resourceNameLabel_def
  backendNameLabel_def

text \<open>The names, per file.\<close>

definition process_namespace :: string where "process_namespace = ''kmc''"
definition process_subsystem :: string where "process_subsystem = ''process''"
definition collector_namespace :: string where "collector_namespace = ''kmc''"
definition collector_subsystem :: string where "collector_subsystem = ''collector''"
definition queue_namespace :: string where "queue_namespace = ''kmc''"
definition queue_subsystem :: string where "queue_subsystem = ''workqueue''"
definition depthKey :: string where "depthKey = ''depth''"
definition addsKey :: string where "addsKey = ''adds_total''"
definition queueLatencyKey :: string where "queueLatencyKey = ''queue_duration_seconds''"
definition workDurationKey :: string where "workDurationKey = ''work_duration_seconds''"
definition unfinishedWorkKey :: string where "unfinishedWorkKey = ''unfinished_work_seconds''"
definition longestRunningProcessorKey :: string where "longestRunningProcessorKey = ''longest_running_processor_seconds''"
definition retriesKey :: string where "retriesKey = ''retries_total''"
definition tls_namespace :: string where "tls_namespace = ''kmc''"
definition tls_subsystem :: string where "tls_subsystem = ''tls_cache''"
definition createKey :: string where "createKey = ''create_total''"
definition cacheLenKey :: string where "cacheLenKey = ''entries_total''"

lemmas name_defs = process_namespace_def process_subsystem_def collector_namespace_def collector_subsystem_def
  queue_namespace_def queue_subsystem_def depthKey_def addsKey_def queueLatencyKey_def workDurationKey_def
  unfinishedWorkKey_def longestRunningProcessorKey_def retriesKey_def tls_namespace_def tls_subsystem_def
  createKey_def cacheLenKey_def

definition itemsInCache_decl :: vec_decl where
  "itemsInCache_decl = \<lparr>md_kind = GaugeVec, md_Namespace = process_namespace, md_Subsystem = process_subsystem,
     md_Name = ''items_in_cache'', md_Labels = []\<rparr>"

definition subAccountProcessed_decl :: vec_decl where
  "subAccountProcessed_decl = \<lparr>md_kind = CounterVec, md_Namespace = process_namespace, md_Subsystem = process_subsystem,
     md_Name = ''sub_account_total'', md_Labels = 
       [successLabel, shootNameLabel, instanceIdLabel, runtimeIdLabel, subAccountLabel, globalAccountLabel]\<rparr>"

definition subAccountProcessedTimeStamp_decl :: vec_decl where
  "subAccountProcessedTimeStamp_decl = \<lparr>md_kind = GaugeVec, md_Namespace = process_namespace, md_Subsystem = process_subsystem,
     md_Name = ''sub_account_processed_timestamp_seconds'', md_Labels = 
       [shootNameLabel, instanceIdLabel, runtimeIdLabel, subAccountLabel, globalAccountLabel]\<rparr>"

definition kebFetchedClusters_decl :: vec_decl where
  "kebFetchedClusters_decl = \<lparr>md_kind = CounterVec, md_Namespace = process_namespace, md_Subsystem = process_subsystem,
     md_Name = ''fetched_clusters_total'', md_Labels = 
       [trackableLabel, shootNameLabel, instanceIdLabel, runtimeIdLabel, subAccountLabel, globalAccountLabel]\<rparr>"

definition TotalScans_decl :: vec_decl where
  "TotalScans_decl = \<lparr>md_kind = CounterVec, md_Namespace = collector_namespace, md_Subsystem = collector_subsystem,
     md_Name = ''scans_total'', md_Labels = 
       [successLabel, resourceNameLabel, shootNameLabel, instanceIdLabel, runtimeIdLabel,
        subAccountLabel, globalAccountLabel]\<rparr>"

definition TotalScansConverted_decl :: vec_decl where
  "TotalScansConverted_decl = \<lparr>md_kind = CounterVec, md_Namespace = collector_namespace, md_Subsystem = collector_subsystem,
     md_Name = ''scans_converted_total'', md_Labels = 
       [successLabel, resourceNameLabel, backendNameLabel, shootNameLabel, instanceIdLabel,
        runtimeIdLabel, subAccountLabel, globalAccountLabel]\<rparr>"

definition edpLatency_decl :: vec_decl where
  "edpLatency_decl = \<lparr>md_kind = HistogramVec, md_Namespace = ''kmc'', md_Subsystem = ''edp'',
     md_Name = ''request_duration_seconds'', md_Labels = [''status'', ''request_url'']\<rparr>"

definition kebLatency_decl :: vec_decl where
  "kebLatency_decl = \<lparr>md_kind = HistogramVec, md_Namespace = ''kmc'', md_Subsystem = ''keb'',
     md_Name = ''request_duration_seconds'', md_Labels = [''status'', ''request_url'']\<rparr>"

definition cacheSizeMetric_decl :: vec_decl where
  "cacheSizeMetric_decl = \<lparr>md_kind = GaugeVec, md_Namespace = ''kmc'', md_Subsystem = ''kubeconfig_cache'',
     md_Name = ''size'', md_Labels = [''name'']\<rparr>"

definition depth_decl :: vec_decl where
  "depth_decl = \<lparr>md_kind = GaugeVec, md_Namespace = queue_namespace, md_Subsystem = queue_subsystem,
     md_Name = depthKey, md_Labels = [''name'']\<rparr>"

definition adds_decl :: vec_decl where
  "adds_decl = \<lparr>md_kind = CounterVec, md_Namespace = queue_namespace, md_Subsystem = queue_subsystem,
     md_Name = addsKey, md_Labels = [''name'']\<rparr>"

definition latency_decl :: vec_decl where
  "latency_decl = \<lparr>md_kind = HistogramVec, md_Namespace = queue_namespace, md_Subsystem = queue_subsystem,
     md_Name = queueLatencyKey, md_Labels = [''name'']\<rparr>"

definition workDuration_decl :: vec_decl where
  "workDuration_decl = \<lparr>md_kind = HistogramVec, md_Namespace = queue_namespace, md_Subsystem = queue_subsystem,
     md_Name = workDurationKey, md_Labels = [''name'']\<rparr>"

definition unfinished_decl :: vec_decl where
  "unfinished_decl = \<lparr>md_kind = GaugeVec, md_Namespace = queue_namespace, md_Subsystem = queue_subsystem,
     md_Name = unfinishedWorkKey, md_Labels = [''name'']\<rparr>"

definition longestRunningProcessor_decl :: vec_decl where
  "longestRunningProcessor_decl = \<lparr>md_kind = GaugeVec, md_Namespace = queue_namespace, md_Subsystem = queue_subsystem,
     md_Name = longestRunningProcessorKey, md_Labels = [''name'']\<rparr>"

definition retries_decl :: vec_decl where
  "retries_decl = \<lparr>md_kind = CounterVec, md_Namespace = queue_namespace, md_Subsystem = queue_subsystem,
     md_Name = retriesKey, md_Labels = [''name'']\<rparr>"

definition creates_decl :: vec_decl where
  "creates_decl = \<lparr>md_kind = CounterVec, md_Namespace = tls_namespace, md_Subsystem = tls_subsystem,
     md_Name = createKey, md_Labels = [''result'']\<rparr>"

definition entries_decl :: vec_decl where
  "entries_decl = \<lparr>md_kind = GaugeVec, md_Namespace = tls_namespace, md_Subsystem = tls_subsystem,
     md_Name = cacheLenKey, md_Labels = []\<rparr>"

fun metric_decl :: "metric \<Rightarrow> vec_decl" where
  "metric_decl itemsInCache = itemsInCache_decl"
| "metric_decl subAccountProcessed = subAccountProcessed_decl"
| "metric_decl subAccountProcessedTimeStamp = subAccountProcessedTimeStamp_decl"
| "metric_decl kebFetchedClusters = kebFetchedClusters_decl"
| "metric_decl TotalScans = TotalScans_decl"
| "metric_decl TotalScansConverted = TotalScansConverted_decl"
| "metric_decl edpLatency = edpLatency_decl"
| "metric_decl kebLatency = kebLatency_decl"
| "metric_decl cacheSizeMetric = cacheSizeMetric_decl"
| "metric_decl depth = depth_decl"
| "metric_decl adds = adds_decl"
| "metric_decl latency = latency_decl"
| "metric_decl workDuration = workDuration_decl"
| "metric_decl unfinished = unfinished_decl"
| "metric_decl longestRunningProcessor = longestRunningProcessor_decl"
| "metric_decl retries = retries_decl"
| "metric_decl creates = creates_decl"
| "metric_decl entries = entries_decl"

lemmas metric_decl_defs = itemsInCache_decl_def [unfolded name_defs]
  subAccountProcessed_decl_def [unfolded name_defs]
  subAccountProcessedTimeStamp_decl_def [unfolded name_defs]
  kebFetchedClusters_decl_def [unfolded name_defs]
  TotalScans_decl_def [unfolded name_defs]
  TotalScansConverted_decl_def [unfolded name_defs]
  edpLatency_decl_def [unfolded name_defs]
  kebLatency_decl_def [unfolded name_defs]
  cacheSizeMetric_decl_def [unfolded name_defs]
  depth_decl_def [unfolded name_defs]
  adds_decl_def [unfolded name_defs]
  latency_decl_def [unfolded name_defs]
  workDuration_decl_def [unfolded name_defs]
  unfinished_decl_def [unfolded name_defs]
  longestRunningProcessor_decl_def [unfolded name_defs]
  retries_decl_def [unfolded name_defs]
  creates_decl_def [unfolded name_defs]
  entries_decl_def [unfolded name_defs]

abbreviation metric_labels :: "metric \<Rightarrow> string list" where
  "metric_labels m \<equiv> md_Labels (metric_decl m)"

lemma metric_labels_simps [simp]:
  "md_Labels itemsInCache_decl = []"
  "md_Labels subAccountProcessed_decl = [successLabel, shootNameLabel, instanceIdLabel, runtimeIdLabel, subAccountLabel, globalAccountLabel]"
  "md_Labels subAccountProcessedTimeStamp_decl = [shootNameLabel, instanceIdLabel, runtimeIdLabel, subAccountLabel, globalAccountLabel]"
  "md_Labels kebFetchedClusters_decl = [trackableLabel, shootNameLabel, instanceIdLabel, runtimeIdLabel, subAccountLabel, globalAccountLabel]"
  "md_Labels TotalScans_decl = [successLabel, resourceNameLabel, shootNameLabel, instanceIdLabel, runtimeIdLabel,
        subAccountLabel, globalAccountLabel]"
  "md_Labels TotalScansConverted_decl = [successLabel, resourceNameLabel, backendNameLabel, shootNameLabel, instanceIdLabel,
        runtimeIdLabel, subAccountLabel, globalAccountLabel]"
  "md_Labels edpLatency_decl = [''status'', ''request_url'']"
  "md_Labels kebLatency_decl = [''status'', ''request_url'']"
  "md_Labels cacheSizeMetric_decl = [''name'']"
  "md_Labels depth_decl = [''name'']"
  "md_Labels adds_decl = [''name'']"
  "md_Labels latency_decl = [''name'']"
  "md_Labels workDuration_decl = [''name'']"
  "md_Labels unfinished_decl = [''name'']"
  "md_Labels longestRunningProcessor_decl = [''name'']"
  "md_Labels retries_decl = [''name'']"
  "md_Labels creates_decl = [''result'']"
  "md_Labels entries_decl = []"
  by (simp_all add: metric_decl_defs)

section \<open>Recording\<close>

datatype metric_call =
    Inc metric "string list"
  | SetGauge metric "string list" float64
  | SetToCurrentTime metric "string list"
  | Observe metric "string list" float64
  | ResetVec metric
  | DeletePartialMatch metric "(string \<times> string) list"

definition recordItemsInCache :: "float64 \<Rightarrow> metric_call" where
  "recordItemsInCache n = SetGauge itemsInCache [] n"

definition recordSubAccountProcessed :: "bool \<Rightarrow> 's Record \<Rightarrow> metric_call" where
  "recordSubAccountProcessed success shootInfo =
     Inc subAccountProcessed
       [FormatBool success, rec_ShootName shootInfo, rec_InstanceID shootInfo,
        rec_RuntimeID shootInfo, rec_SubAccountID shootInfo, rec_GlobalAccountID shootInfo]"

definition recordSubAccountProcessedTimeStamp :: "'s Record \<Rightarrow> metric_call" where
  "recordSubAccountProcessedTimeStamp shootInfo =
     SetToCurrentTime subAccountProcessedTimeStamp
       [rec_ShootName shootInfo, rec_InstanceID shootInfo, rec_RuntimeID shootInfo,
        rec_SubAccountID shootInfo, rec_GlobalAccountID shootInfo]"

definition recordKEBFetchedClusters ::
  "bool \<Rightarrow> string \<Rightarrow> string \<Rightarrow> string \<Rightarrow> string \<Rightarrow> string \<Rightarrow> metric_call" where
  "recordKEBFetchedClusters trackable shootName instanceID runtimeID subAccountID globalAccountID =
     Inc kebFetchedClusters
       [FormatBool trackable, shootName, instanceID, runtimeID, subAccountID, globalAccountID]"

definition RecordScan :: "bool \<Rightarrow> string \<Rightarrow> Info \<Rightarrow> metric_call" where
  "RecordScan success resourceName runtimeInfo =
     Inc TotalScans
       [FormatBool success, resourceName, ri_ShootName runtimeInfo, ri_InstanceID runtimeInfo,
        ri_RuntimeID runtimeInfo, ri_SubAccountID runtimeInfo, ri_GlobalAccountID runtimeInfo]"

definition RecordScanConversion :: "bool \<Rightarrow> string \<Rightarrow> string \<Rightarrow> Info \<Rightarrow> metric_call" where
  "RecordScanConversion success resourceName backendName runtimeInfo =
     Inc TotalScansConverted
       [FormatBool success, resourceName, backendName, ri_ShootName runtimeInfo,
        ri_InstanceID runtimeInfo, ri_RuntimeID runtimeInfo, ri_SubAccountID runtimeInfo,
        ri_GlobalAccountID runtimeInfo]"

definition recordEDPLatency :: "int64 \<Rightarrow> int \<Rightarrow> string \<Rightarrow> metric_call" where
  "recordEDPLatency duration statusCode destSvc =
     Observe edpLatency [show_int statusCode, destSvc] (Seconds duration)"

definition recordKEBLatency :: "int64 \<Rightarrow> int \<Rightarrow> string \<Rightarrow> metric_call" where
  "recordKEBLatency duration statusCode destSvc =
     Observe kebLatency [show_int statusCode, destSvc] (Seconds duration)"

text \<open>
  \<open>deleteMetrics\<close> asks the four per-cluster vectors to drop the series of a cluster and reports
  whether any was dropped. How many a vector drops is its own affair: \<open>deleted\<close> answers for it.
\<close>

definition matchLabels :: "'s Record \<Rightarrow> (string \<times> string) list" where
  "matchLabels shootInfo =
     [(''shoot_name'', rec_ShootName shootInfo), (''instance_id'', rec_InstanceID shootInfo),
      (''runtime_id'', rec_RuntimeID shootInfo), (''sub_account_id'', rec_SubAccountID shootInfo),
      (''global_account_id'', rec_GlobalAccountID shootInfo)]"

definition deleteMetrics ::
  "(metric \<Rightarrow> (string \<times> string) list \<Rightarrow> int64) \<Rightarrow> 's Record \<Rightarrow> bool \<times> metric_call list" where
  "deleteMetrics deleted shootInfo =
     (let ml = matchLabels shootInfo;
          cnt = 0 + deleted subAccountProcessed ml + deleted subAccountProcessedTimeStamp ml
                    + deleted TotalScans ml + deleted TotalScansConverted ml
      in (0 < sint cnt,
          [DeletePartialMatch subAccountProcessed ml,
           DeletePartialMatch subAccountProcessedTimeStamp ml,
           DeletePartialMatch TotalScans ml, DeletePartialMatch TotalScansConverted ml]))"

lemmas metric_call_defs = recordItemsInCache_def recordSubAccountProcessed_def
  recordSubAccountProcessedTimeStamp_def recordKEBFetchedClusters_def RecordScan_def
  RecordScanConversion_def recordEDPLatency_def recordKEBLatency_def

section \<open>Which series a deletion reaches\<close>

text \<open>
  A series of a vector is the assignment of its label values to its declared labels; a partial
  match holds when every given pair occurs in it.
\<close>

definition series :: "metric \<Rightarrow> string list \<Rightarrow> (string \<times> string) list" where
  "series m vs = zip (metric_labels m) vs"

definition partial_match :: "(string \<times> string) list \<Rightarrow> (string \<times> string) list \<Rightarrow> bool" where
  "partial_match ml s \<longleftrightarrow> (\<forall>(k, v) \<in> set ml. map_of s k = Some v)"

text \<open>The part of a record, and of a runtime info, that names the cluster in the metrics.\<close>

definition record_ident :: "'s Record \<Rightarrow> string list" where
  "record_ident r = [rec_ShootName r, rec_InstanceID r, rec_RuntimeID r, rec_SubAccountID r,
                     rec_GlobalAccountID r]"

definition info_ident :: "Info \<Rightarrow> string list" where
  "info_ident r = [ri_ShootName r, ri_InstanceID r, ri_RuntimeID r, ri_SubAccountID r,
                   ri_GlobalAccountID r]"

text \<open>The series an increment touches, if the call is one.\<close>

fun call_series :: "metric_call \<Rightarrow> (metric \<times> (string \<times> string) list) option" where
  "call_series (Inc m vs) = Some (m, series m vs)"
| "call_series (SetToCurrentTime m vs) = Some (m, series m vs)"
| "call_series (SetGauge m vs _) = Some (m, series m vs)"
| "call_series (Observe m vs _) = Some (m, series m vs)"
| "call_series _ = None"

definition deletes_call :: "metric_call \<Rightarrow> metric_call \<Rightarrow> bool" where
  "deletes_call d c \<longleftrightarrow> (case (d, call_series c) of
      (DeletePartialMatch m ml, Some (m', s)) \<Rightarrow> m = m' \<and> partial_match ml s
    | _ \<Rightarrow> False)"

lemma labels_distinct:
  "distinct [successLabel, trackableLabel, resourceNameLabel, backendNameLabel, shootNameLabel,
             instanceIdLabel, runtimeIdLabel, subAccountLabel, globalAccountLabel]"
  by (simp add: label_defs)

lemma labels_distinct_rev:
  "distinct [globalAccountLabel, subAccountLabel, runtimeIdLabel, instanceIdLabel, shootNameLabel,
             backendNameLabel, resourceNameLabel, trackableLabel, successLabel]"
  by (simp add: label_defs)

lemmas label_neqs [simp] = labels_distinct [simplified] labels_distinct_rev [simplified]

lemma matchLabels_eq:
  "matchLabels r = [(shootNameLabel, rec_ShootName r), (instanceIdLabel, rec_InstanceID r),
     (runtimeIdLabel, rec_RuntimeID r), (subAccountLabel, rec_SubAccountID r),
     (globalAccountLabel, rec_GlobalAccountID r)]"
  unfolding matchLabels_def label_defs by (rule refl)

lemma partial_match_labels:
  assumes "fst ` set pre \<subseteq> {successLabel, resourceNameLabel, backendNameLabel}"
  shows "partial_match (matchLabels r)
           (pre @ [(shootNameLabel, v1), (instanceIdLabel, v2), (runtimeIdLabel, v3),
                   (subAccountLabel, v4), (globalAccountLabel, v5)])
           \<longleftrightarrow> [v1, v2, v3, v4, v5] = record_ident r"
proof -
  have no: "map_of pre k = None"
    if "k \<notin> {successLabel, resourceNameLabel, backendNameLabel}" for k
    unfolding map_of_eq_None_iff using that assms by blast
  have "map_of pre shootNameLabel = None" "map_of pre instanceIdLabel = None"
    "map_of pre runtimeIdLabel = None" "map_of pre subAccountLabel = None"
    "map_of pre globalAccountLabel = None"
    by (rule no; simp)+
  then show ?thesis
    by (simp only: partial_match_def matchLabels_eq record_ident_def list.set ball_simps prod.case
        map_of_append map_add_def map_of.simps fst_conv snd_conv fun_upd_apply label_neqs if_False
        if_True simp_thms option.case list.inject option.inject)
qed

text \<open>A list of deletions reaches a call when one of them matches the series it touches.\<close>

definition deletions_reach :: "metric_call list \<Rightarrow> metric_call \<Rightarrow> bool" where
  "deletions_reach ds c \<longleftrightarrow> list_ex (\<lambda>d. deletes_call d c) ds"

lemma deletions_reach_deleteMetrics:
  assumes "call_series c = Some (m, s)"
  shows "deletions_reach (snd (deleteMetrics deleted r)) c \<longleftrightarrow>
           m \<in> {subAccountProcessed, subAccountProcessedTimeStamp, TotalScans, TotalScansConverted}
           \<and> partial_match (matchLabels r) s"
  using assms by (auto simp: deletions_reach_def deletes_call_def deleteMetrics_def Let_def)

lemma call_series_record:
  "call_series (recordSubAccountProcessed b r) = Some (subAccountProcessed,
     [(successLabel, FormatBool b)] @ [(shootNameLabel, rec_ShootName r),
      (instanceIdLabel, rec_InstanceID r), (runtimeIdLabel, rec_RuntimeID r),
      (subAccountLabel, rec_SubAccountID r), (globalAccountLabel, rec_GlobalAccountID r)])"
  "call_series (recordSubAccountProcessedTimeStamp r) = Some (subAccountProcessedTimeStamp,
     [] @ [(shootNameLabel, rec_ShootName r),
      (instanceIdLabel, rec_InstanceID r), (runtimeIdLabel, rec_RuntimeID r),
      (subAccountLabel, rec_SubAccountID r), (globalAccountLabel, rec_GlobalAccountID r)])"
  "call_series (RecordScan b res i) = Some (TotalScans,
     [(successLabel, FormatBool b), (resourceNameLabel, res)] @ [(shootNameLabel, ri_ShootName i),
      (instanceIdLabel, ri_InstanceID i), (runtimeIdLabel, ri_RuntimeID i),
      (subAccountLabel, ri_SubAccountID i), (globalAccountLabel, ri_GlobalAccountID i)])"
  "call_series (RecordScanConversion b res be i) = Some (TotalScansConverted,
     [(successLabel, FormatBool b), (resourceNameLabel, res), (backendNameLabel, be)] @
     [(shootNameLabel, ri_ShootName i),
      (instanceIdLabel, ri_InstanceID i), (runtimeIdLabel, ri_RuntimeID i),
      (subAccountLabel, ri_SubAccountID i), (globalAccountLabel, ri_GlobalAccountID i)])"
  by (simp_all add: metric_call_defs series_def)

lemma deletions_reach_own:
  "deletions_reach (snd (deleteMetrics deleted r')) (recordSubAccountProcessed b r)
     \<longleftrightarrow> record_ident r = record_ident r'"
  "deletions_reach (snd (deleteMetrics deleted r')) (recordSubAccountProcessedTimeStamp r)
     \<longleftrightarrow> record_ident r = record_ident r'"
  "deletions_reach (snd (deleteMetrics deleted r')) (RecordScan b res i)
     \<longleftrightarrow> info_ident i = record_ident r'"
  "deletions_reach (snd (deleteMetrics deleted r')) (RecordScanConversion b res be i)
     \<longleftrightarrow> info_ident i = record_ident r'"
  by (subst deletions_reach_deleteMetrics, rule call_series_record,
      subst partial_match_labels, simp, simp add: record_ident_def info_ident_def)+

text \<open>
  Deleting the metrics of a cluster removes exactly its own series: a processing counter, a
  timestamp, a scan counter or a conversion counter is reached by the deletion for a record if and
  only if shoot, instance, runtime, subaccount and global account agree; the counters of the KEB
  poll are never touched.
\<close>

theorem deleteMetrics_exact:
  "(deletions_reach (snd (deleteMetrics deleted r')) (recordSubAccountProcessed b r)
      \<longleftrightarrow> record_ident r = record_ident r')
   \<and> (deletions_reach (snd (deleteMetrics deleted r')) (recordSubAccountProcessedTimeStamp r)
      \<longleftrightarrow> record_ident r = record_ident r')
   \<and> (deletions_reach (snd (deleteMetrics deleted r')) (RecordScan b res i)
      \<longleftrightarrow> info_ident i = record_ident r')
   \<and> (deletions_reach (snd (deleteMetrics deleted r')) (RecordScanConversion b res be i)
      \<longleftrightarrow> info_ident i = record_ident r')
   \<and> \<not> deletions_reach (snd (deleteMetrics deleted r'))
         (recordKEBFetchedClusters b sh inst rt sub ga)"
  by (simp add: deletions_reach_own deletions_reach_deleteMetrics recordKEBFetchedClusters_def)

section \<open>Metrics of the queue and of the TLS cache\<close>

text \<open>
  The work queue asks its provider for one handle per metric and queue; the handle is a vector with
  its label values filled in.
\<close>

datatype metric_handle = WithLabelValues metric "string list"

definition NewDepthMetric :: "string \<Rightarrow> metric_handle" where
  "NewDepthMetric name = WithLabelValues depth [name]"

definition NewAddsMetric :: "string \<Rightarrow> metric_handle" where
  "NewAddsMetric name = WithLabelValues adds [name]"

definition NewLatencyMetric :: "string \<Rightarrow> metric_handle" where
  "NewLatencyMetric name = WithLabelValues latency [name]"

definition NewWorkDurationMetric :: "string \<Rightarrow> metric_handle" where
  "NewWorkDurationMetric name = WithLabelValues workDuration [name]"

definition NewUnfinishedWorkSecondsMetric :: "string \<Rightarrow> metric_handle" where
  "NewUnfinishedWorkSecondsMetric name = WithLabelValues unfinished [name]"

definition NewLongestRunningProcessorSecondsMetric :: "string \<Rightarrow> metric_handle" where
  "NewLongestRunningProcessorSecondsMetric name = WithLabelValues longestRunningProcessor [name]"

definition NewRetriesMetric :: "string \<Rightarrow> metric_handle" where
  "NewRetriesMetric name = WithLabelValues retries [name]"

definition tls_Increment :: "string \<Rightarrow> metric_call" where
  "tls_Increment result = Inc creates [result]"

definition tls_Observe :: "int64 \<Rightarrow> metric_call" where
  "tls_Observe n = SetGauge entries [] (f64_of_int64 n)"

text \<open>What \<open>main\<close> registers with client-go, which then calls it for its transport cache.\<close>

record RegisterOpts =
  ro_TransportCacheEntries :: "int64 \<Rightarrow> metric_call"
  ro_TransportCreateCalls :: "string \<Rightarrow> metric_call"

definition RegisterTLSCacheMetrics :: RegisterOpts where
  "RegisterTLSCacheMetrics = \<lparr>ro_TransportCacheEntries = tls_Observe, ro_TransportCreateCalls = tls_Increment\<rparr>"

lemmas provider_defs = NewDepthMetric_def NewAddsMetric_def NewLatencyMetric_def NewWorkDurationMetric_def
  NewUnfinishedWorkSecondsMetric_def NewLongestRunningProcessorSecondsMetric_def NewRetriesMetric_def
  tls_Increment_def tls_Observe_def

section \<open>Calls that cannot panic\<close>

text \<open>
  A call on a vector panics in the library unless it passes one value per declared label; a partial
  match only makes sense for declared labels. The kind of the vector decides which calls it has.
\<close>

fun well_labelled :: "metric_call \<Rightarrow> bool" where
  "well_labelled (Inc m vs) \<longleftrightarrow> md_kind (metric_decl m) = CounterVec \<and> length vs = length (metric_labels m)"
| "well_labelled (SetGauge m vs _) \<longleftrightarrow> md_kind (metric_decl m) = GaugeVec \<and> length vs = length (metric_labels m)"
| "well_labelled (SetToCurrentTime m vs) \<longleftrightarrow>
     md_kind (metric_decl m) = GaugeVec \<and> length vs = length (metric_labels m)"
| "well_labelled (Observe m vs _) \<longleftrightarrow>
     md_kind (metric_decl m) = HistogramVec \<and> length vs = length (metric_labels m)"
| "well_labelled (ResetVec m) \<longleftrightarrow> True"
| "well_labelled (DeletePartialMatch m ml) \<longleftrightarrow> set (map fst ml) \<subseteq> set (metric_labels m)"

fun handle_ok :: "vec_kind \<Rightarrow> metric_handle \<Rightarrow> bool" where
  "handle_ok k (WithLabelValues m vs) \<longleftrightarrow> md_kind (metric_decl m) = k \<and> length vs = length (metric_labels m)"

lemma metric_kinds [simp]:
  "md_kind itemsInCache_decl = GaugeVec"
  "md_kind subAccountProcessed_decl = CounterVec"
  "md_kind subAccountProcessedTimeStamp_decl = GaugeVec"
  "md_kind kebFetchedClusters_decl = CounterVec"
  "md_kind TotalScans_decl = CounterVec"
  "md_kind TotalScansConverted_decl = CounterVec"
  "md_kind edpLatency_decl = HistogramVec"
  "md_kind kebLatency_decl = HistogramVec"
  "md_kind cacheSizeMetric_decl = GaugeVec"
  by (simp_all add: metric_decl_defs)

lemma well_labelled_record [simp]:
  "well_labelled (recordItemsInCache n)"
  "well_labelled (recordSubAccountProcessed b r)"
  "well_labelled (recordSubAccountProcessedTimeStamp r)"
  "well_labelled (recordKEBFetchedClusters b sh inst rt sub ga)"
  "well_labelled (RecordScan b res i)"
  "well_labelled (RecordScanConversion b res be i)"
  "well_labelled (recordEDPLatency d st url)"
  "well_labelled (recordKEBLatency d st url)"
  by (simp_all add: metric_call_defs)

lemma well_labelled_delete [simp]: "list_all well_labelled (snd (deleteMetrics deleted r))"
  by (simp add: deleteMetrics_def Let_def matchLabels_eq)

text \<open>Every handle the work queue is given names a vector of the right kind with a value for each of its labels.\<close>

lemma provider_handles_ok:
  "handle_ok GaugeVec (NewDepthMetric q)" "handle_ok CounterVec (NewAddsMetric q)"
  "handle_ok HistogramVec (NewLatencyMetric q)" "handle_ok HistogramVec (NewWorkDurationMetric q)"
  "handle_ok GaugeVec (NewUnfinishedWorkSecondsMetric q)" "handle_ok GaugeVec (NewLongestRunningProcessorSecondsMetric q)"
  "handle_ok CounterVec (NewRetriesMetric q)" "well_labelled (tls_Increment r)" "well_labelled (tls_Observe n)"
  by (simp_all add: provider_defs metric_decl_defs)

section \<open>Names\<close>

definition fqName :: "vec_decl \<Rightarrow> string" where
  "fqName d = string_join ''_'' [md_Namespace d, md_Subsystem d, md_Name d]"

definition all_metrics :: "metric list" where
  "all_metrics = [itemsInCache, subAccountProcessed, subAccountProcessedTimeStamp, kebFetchedClusters,
     TotalScans, TotalScansConverted, edpLatency, kebLatency, cacheSizeMetric, depth, adds, latency,
     workDuration, unfinished, longestRunningProcessor, retries, creates, entries]"

lemma all_metrics_UNIV: "set all_metrics = UNIV"
proof (rule set_eqI)
  fix m
  show "m \<in> set all_metrics \<longleftrightarrow> m \<in> UNIV" by (cases m) (simp_all add: all_metrics_def)
qed

text \<open>Two metrics that \<^verbatim>\<open>docs/contributor/metrics.md\<close> lists are not declared.\<close>

lemma documented_metrics_missing:
  "''kmc_process_old_metric_published'' \<notin> set (map (fqName \<circ> metric_decl) all_metrics) \<and>
   ''kmc_skr_query_total'' \<notin> set (map (fqName \<circ> metric_decl) all_metrics)"
  by code_simp

end
