(* ===== verification/Retry.thy ===== *)
theory Retry
  imports Metrics
begin

text \<open>
  The interface to the retry library (\<^verbatim>\<open>github.com/avast/retry-go\<close>) that both HTTP clients call as
  \<open>retry.DoWithData\<close> with a number of attempts, and the outcome of an HTTP exchange. The library is
  a parameter \<open>retryDo\<close>: given the number of attempts and the outcome of each attempt, it returns the
  outcome of the call and how many attempts were made. Its documented behaviour for a positive
  number of attempts is the contract \<open>retrier\<close>. The library takes 0 attempts as no limit: it then tries until an
  attempt succeeds, and a call that never succeeds never returns. The contract says nothing of that mode, and
  what depends on the outcome of retries is stated for a positive number.
\<close>

section \<open>The contract\<close>

type_synonym 'r retry_fn = "int64 \<Rightarrow> (nat \<Rightarrow> go_error + 'r) \<Rightarrow> (go_error + 'r) \<times> nat"

locale retrier =
  fixes retryDo :: "'r retry_fn"
  assumes first_success:
      "i < unat n \<Longrightarrow> \<forall>j<i. isl (f j) \<Longrightarrow> f i = Inr r \<Longrightarrow> retryDo n f = (Inr r, Suc i)"
    and all_fail:
      "0 < unat n \<Longrightarrow> \<forall>j<unat n. isl (f j) \<Longrightarrow> \<exists>e. retryDo n f = (Inl e, unat n)"
begin

text \<open>The two laws are exhaustive.\<close>

lemma retry_cases:
  assumes "0 < unat n"
  obtains (success) i r where "i < unat n" and "\<forall>j<i. isl (f j)" and "f i = Inr r"
      and "retryDo n f = (Inr r, Suc i)"
  | (failure) e where "\<forall>j<unat n. isl (f j)" and "retryDo n f = (Inl e, unat n)"
proof (cases "\<forall>j<unat n. isl (f j)")
  case True
  then show ?thesis using all_fail [OF assms True] failure by blast
next
  case False
  define i where "i = (LEAST j. j < unat n \<and> \<not> isl (f j))"
  have ex: "\<exists>j. j < unat n \<and> \<not> isl (f j)" using False by blast
  have i: "i < unat n" "\<not> isl (f i)" using LeastI_ex [OF ex] by (auto simp: i_def)
  have "isl (f j)" if "j < i" for j
    using not_less_Least [of j "\<lambda>j. j < unat n \<and> \<not> isl (f j)"] that i(1) by (auto simp: i_def)
  moreover obtain r where "f i = Inr r" using i(2) by (cases "f i") auto
  ultimately show ?thesis using i(1) first_success success by blast
qed

lemma attempts_le: "0 < unat n \<Longrightarrow> snd (retryDo n f) \<le> unat n"
  by (rule retry_cases [of n f]) simp_all

lemma attempts_pos: "0 < unat n \<Longrightarrow> 0 < snd (retryDo n f)"
  by (rule retry_cases [of n f]) simp_all

lemma returned_iff: "0 < unat n \<Longrightarrow> (\<exists>r. fst (retryDo n f) = Inr r) \<longleftrightarrow> (\<exists>i<unat n. \<not> isl (f i))"
  by (rule retry_cases [of n f]) auto

lemma returned_last:
  "0 < unat n \<Longrightarrow> fst (retryDo n f) = Inr r \<Longrightarrow> f (snd (retryDo n f) - 1) = Inr r"
  by (rule retry_cases [of n f]) simp_all

end

section \<open>A reference implementation\<close>

text \<open>
  The loop the documentation describes: attempt after attempt until one succeeds or the budget is
  used up, then the errors of all attempts. It shows that the contract can be met.
\<close>

fun retry_loop :: "nat \<Rightarrow> nat \<Rightarrow> go_error list \<Rightarrow> (nat \<Rightarrow> go_error + 'r) \<Rightarrow> (go_error + 'r) \<times> nat" where
  "retry_loop 0 i errs f = (Inl (JoinError errs), i)"
| "retry_loop (Suc k) i errs f =
     (case f i of Inr r \<Rightarrow> (Inr r, Suc i) | Inl e \<Rightarrow> retry_loop k (Suc i) (errs @ [e]) f)"

definition retry_ref :: "'r retry_fn" where
  "retry_ref n f = retry_loop (unat n) 0 [] f"

lemma retry_loop_success:
  "i < k \<Longrightarrow> \<forall>j<i. isl (f (s + j)) \<Longrightarrow> f (s + i) = Inr r \<Longrightarrow> retry_loop k s errs f = (Inr r, Suc (s + i))"
proof (induction k arbitrary: i s errs)
  case 0
  then show ?case by simp
next
  case (Suc k)
  show ?case
  proof (cases i)
    case 0
    then show ?thesis using Suc.prems by simp
  next
    case (Suc i')
    then have "isl (f (s + 0))" using Suc.prems(2) by blast
    then obtain e where "f s = Inl e" by (cases "f s") auto
    moreover have "\<forall>j<i'. isl (f (Suc s + j))"
      using Suc.prems(2) Suc by (metis Suc_less_eq add_Suc add_Suc_right)
    ultimately show ?thesis
      using Suc.IH [of i' "Suc s"] Suc.prems Suc by simp
  qed
qed

lemma retry_loop_failure:
  "\<forall>j<k. isl (f (s + j)) \<Longrightarrow> \<exists>e. retry_loop k s errs f = (Inl e, s + k)"
proof (induction k arbitrary: s errs)
  case 0
  then show ?case by simp
next
  case (Suc k)
  then have "isl (f (s + 0))" by blast
  then obtain e where "f s = Inl e" by (cases "f s") auto
  moreover have "\<forall>j<k. isl (f (Suc s + j))"
    using Suc.prems by (metis Suc_less_eq add_Suc add_Suc_right)
  ultimately show ?case using Suc.IH [of "Suc s"] by simp
qed

interpretation ref_retry: retrier retry_ref
proof
  show "retry_ref n f = (Inr r, Suc i)" if "i < unat n" "\<forall>j<i. isl (f j)" "f i = Inr r"
    for i n r and f :: "nat \<Rightarrow> go_error + 'a"
    using retry_loop_success [of i "unat n" f 0 r] that by (simp add: retry_ref_def)
  show "\<exists>e. retry_ref n f = (Inl e, unat n)" if "\<forall>j<unat n. isl (f j)"
    for n and f :: "nat \<Rightarrow> go_error + 'a"
    using retry_loop_failure [of "unat n" f 0] that by (simp add: retry_ref_def)
qed

section \<open>HTTP exchanges\<close>

text \<open>
  What \<open>http.Client.Do\<close> returns: a transport error, always a \<open>*url.Error\<close>, which knows whether it
  was a timeout, or a response with its status code and body, whose reading may fail.
\<close>

datatype http_result = TransportError bool go_error | HttpResponse int "go_error + string"

record http_request =
  req_Method :: string
  req_URL :: string
  req_Header :: "(string \<times> string) list"

text \<open>The status recorded for a failed exchange.\<close>

definition transport_status :: "bool \<Rightarrow> int" where
  "transport_status timeout = (if timeout then 408 else 400)"

text \<open>The observable actions of the program besides its cache and its queue.\<close>

datatype effect = Metric metric_call | HttpSend http_request string | CloseConnections

text \<open>The requests among some actions, each with its body.\<close>

fun posts :: "effect list \<Rightarrow> (http_request \<times> string) list" where
  "posts [] = []"
| "posts (HttpSend req body # es) = (req, body) # posts es"
| "posts (Metric _ # es) = posts es"
| "posts (CloseConnections # es) = posts es"

lemma posts_append [simp]: "posts (xs @ ys) = posts xs @ posts ys"
  by (induction xs rule: posts.induct) simp_all

lemma posts_Metric [simp]: "posts (map Metric cs) = []"
  by (induction cs) simp_all

end
