(* ===== verification/Logging.thy ===== *)
theory Logging
  imports Prelude
begin

text \<open>
  \<^verbatim>\<open>src/pkg/logger/logger.go\<close>: the logger of the program, a configured logger of the library zap. What the
  program decides is modelled: the encoder and its keys, the level, the sinks, and the fields and the
  name with which a component writes its lines.
\<close>

section \<open>Constants\<close>

type_synonym OutputFormat = string

definition OutputFormatJSON :: OutputFormat where "OutputFormatJSON = ''json''"
definition OutputFormatPlain :: OutputFormat where "OutputFormatPlain = ''plain''"
definition KeyError :: string where "KeyError = ''error''"
definition KeyResult :: string where "KeyResult = ''result''"
definition KeyGlobalAccountID :: string where "KeyGlobalAccountID = ''GlobalAccountID''"
definition KeySubAccountID :: string where "KeySubAccountID = ''SubAccountID''"
definition KeyRuntimeID :: string where "KeyRuntimeID = ''RuntimeID''"
definition KeyRuntimeState :: string where "KeyRuntimeState = ''RuntimeState''"
definition KeyProvisioningStatus :: string where "KeyProvisioningStatus = ''ProvisioningStatus''"
definition KeyDeprovisioningStatus :: string where "KeyDeprovisioningStatus = ''DeprovisioningStatus''"
definition KeyWorkerID :: string where "KeyWorkerID = ''WorkerID''"
definition KeyRetry :: string where "KeyRetry = ''willRetry''"
definition KeyRequeue :: string where "KeyRequeue = ''requeue''"
definition KeyShoot :: string where "KeyShoot = ''shoot''"
definition ValueFail :: string where "ValueFail = ''fail''"
definition ValueSuccess :: string where "ValueSuccess = ''success''"
definition ValueTrue :: string where "ValueTrue = ''true''"
definition ValueFalse :: string where "ValueFalse = ''false''"

lemmas log_key_defs = KeyError_def KeyResult_def KeyGlobalAccountID_def KeySubAccountID_def KeyRuntimeID_def
  KeyRuntimeState_def KeyProvisioningStatus_def KeyDeprovisioningStatus_def KeyWorkerID_def KeyRetry_def
  KeyRequeue_def KeyShoot_def

section \<open>The logger\<close>

text \<open>A level of zap is an 8-bit integer; lines of a lower level than the logger's are dropped.\<close>

type_synonym zap_level = "8 word"

record encoder_config =
  enc_EncodeTime :: string
  enc_EncodeLevel :: string
  enc_EncodeCaller :: string
  enc_TimeKey :: string
  enc_MessageKey :: string
  enc_CallerKey :: string

datatype encoder = ConsoleEncoder encoder_config | JSONEncoder encoder_config

record Logger =
  lg_encoder :: "encoder option"
  lg_sink :: string
  lg_level :: zap_level
  lg_addCaller :: bool
  lg_errorOutput :: string
  lg_name :: string
  lg_fields :: "(string \<times> string) list"

text \<open>The methods \<open>Named\<close> and \<open>With\<close> of a sugared logger: names are joined by dots, fields accumulate.\<close>

definition Named :: "string \<Rightarrow> Logger \<Rightarrow> Logger" where
  "Named n l = l\<lparr>lg_name := (if lg_name l = [] then n else lg_name l @ ''.'' @ n)\<rparr>"

definition With :: "string \<Rightarrow> string \<Rightarrow> Logger \<Rightarrow> Logger" where
  "With k v l = l\<lparr>lg_fields := lg_fields l @ [(k, v)]\<rparr>"

lemma With_sel [simp]: "lg_fields (With k v l) = lg_fields l @ [(k, v)]" "lg_name (With k v l) = lg_name l"
  by (simp_all add: With_def)

lemma Named_sel [simp]: "lg_fields (Named n l) = lg_fields l"
  by (simp add: Named_def)

text \<open>
  The variable \<open>outputFormat\<close> starts as JSON; \<open>SetOutputFormat\<close> replaces it. For any other format than
  the two known ones the encoder stays nil.
\<close>

definition initialOutputFormat :: OutputFormat where
  "initialOutputFormat = OutputFormatJSON"

definition SetOutputFormat :: "OutputFormat \<Rightarrow> OutputFormat \<Rightarrow> OutputFormat" where
  "SetOutputFormat newFormat outputFormat = newFormat"

definition newLogger :: "OutputFormat \<Rightarrow> zap_level \<Rightarrow> Logger" where
  "newLogger outputFormat logLevel =
     (let encoderConfig = \<lparr>enc_EncodeTime = ''RFC3339TimeEncoder'', enc_EncodeLevel = ''CapitalLevelEncoder'',
            enc_EncodeCaller = ''ShortCallerEncoder'', enc_TimeKey = ''timestamp'', enc_MessageKey = ''message'',
            enc_CallerKey = ''caller''\<rparr>;
          encoder = (if outputFormat = OutputFormatPlain then Some (ConsoleEncoder encoderConfig)
                     else if outputFormat = OutputFormatJSON then Some (JSONEncoder encoderConfig)
                     else None)
      in \<lparr>lg_encoder = encoder, lg_sink = ''stderr'', lg_level = logLevel, lg_addCaller = True,
          lg_errorOutput = ''stderr'', lg_name = [], lg_fields = []\<rparr>)"

text \<open>The sugared logger is the same logger with a looser interface.\<close>

definition NewLogger :: "OutputFormat \<Rightarrow> zap_level \<Rightarrow> Logger" where
  "NewLogger outputFormat logLevel = newLogger outputFormat logLevel"

text \<open>A logger can write when it has an encoder; without one the first line it writes panics.\<close>

lemma NewLogger_writes:
  "lg_encoder (NewLogger f l) \<noteq> None \<longleftrightarrow> f \<in> {OutputFormatJSON, OutputFormatPlain}"
  by (auto simp: NewLogger_def newLogger_def Let_def)

lemma NewLogger_main: "lg_encoder (NewLogger initialOutputFormat l) \<noteq> None"
  unfolding NewLogger_writes by (simp add: initialOutputFormat_def)

definition sampleLogger :: Logger where
  "sampleLogger = NewLogger initialOutputFormat 0"

section \<open>HTTP clients\<close>

text \<open>The \<open>http.Client\<close> the clients of EDP and KEB are made with: the default transport and a time-out.\<close>

record http_client =
  hc_Timeout :: int64

end
