(* ===== verification/Query.thy ===== *)
theory Query
  imports Prelude "HOL-Library.Char_ord" "HOL-Library.List_Lexorder"
begin

text \<open>
  The query of a URL as Go's \<open>net/url\<close> writes it: \<open>url.Values\<close>, its \<open>Encode\<close> with the keys in order and every
  key and value escaped. Against it stands the reading of a query, by the rules every server follows: pairs
  between ampersands, keys up to the first equals sign, escapes undone. Reading gives back what was encoded.
\<close>

section \<open>Escaping\<close>

definition in_range :: "nat \<Rightarrow> nat \<Rightarrow> char \<Rightarrow> bool" where
  "in_range lo hi c \<longleftrightarrow> lo \<le> (of_char c :: nat) \<and> of_char c \<le> hi"

text \<open>What \<open>shouldEscape\<close> leaves alone in a component of a query.\<close>

definition unreserved :: "char \<Rightarrow> bool" where
  "unreserved c \<longleftrightarrow> in_range 97 122 c \<or> in_range 65 90 c \<or> in_range 48 57 c \<or> c \<in> set ''-_.~''"

definition upperhex :: "nat \<Rightarrow> char" where
  "upperhex n = (if n < 10 then char_of (48 + n) else char_of (55 + n))"

definition escape_char :: "char \<Rightarrow> string" where
  "escape_char c =
     (if c = CHR '' '' then ''+''
      else if unreserved c then [c]
      else [CHR ''%'', upperhex (of_char c div 16), upperhex (of_char c mod 16)])"

definition QueryEscape :: "string \<Rightarrow> string" where
  "QueryEscape s = concat (map escape_char s)"

definition unhex :: "char \<Rightarrow> nat option" where
  "unhex c =
     (if in_range 48 57 c then Some (of_char c - 48)
      else if in_range 65 70 c then Some (of_char c - 55)
      else if in_range 97 102 c then Some (of_char c - 87)
      else None)"

fun QueryUnescape :: "string \<Rightarrow> string option" where
  "QueryUnescape [] = Some []"
| "QueryUnescape (c # cs) =
     (if c = CHR ''%''
      then (case cs of
              h # l # rest \<Rightarrow>
                (case (unhex h, unhex l) of
                   (Some x, Some y) \<Rightarrow> map_option ((#) (char_of (16 * x + y))) (QueryUnescape rest)
                 | _ \<Rightarrow> None)
            | _ \<Rightarrow> None)
      else map_option ((#) (if c = CHR ''+'' then CHR '' '' else c)) (QueryUnescape cs))"

section \<open>Values\<close>

type_synonym Values = "(string, string list) gomap"

text \<open>The pairs of some values in the order in which they are written.\<close>

definition Values_pairs :: "Values \<Rightarrow> (string \<times> string) list" where
  "Values_pairs v =
     concat (map (\<lambda>k. map (Pair k) (case map_of v k of None \<Rightarrow> [] | Some vs \<Rightarrow> vs)) (sort (map fst v)))"

definition Values_Encode :: "Values \<Rightarrow> string" where
  "Values_Encode v = string_join ''&'' (map (\<lambda>(k, x). QueryEscape k @ ''='' @ QueryEscape x) (Values_pairs v))"

section \<open>Reading a query\<close>

fun split_on :: "char \<Rightarrow> string \<Rightarrow> string list" where
  "split_on c [] = [[]]"
| "split_on c (x # xs) =
     (if x = c then [] # split_on c xs
      else (case split_on c xs of [] \<Rightarrow> [[x]] | w # ws \<Rightarrow> (x # w) # ws))"

definition read_pair :: "string \<Rightarrow> (string \<times> string) option" where
  "read_pair s =
     (if CHR '';'' \<in> set s then None
      else case (QueryUnescape (takeWhile (\<lambda>c. c \<noteq> CHR ''='') s), QueryUnescape (drop 1 (dropWhile (\<lambda>c. c \<noteq> CHR ''='') s))) of
        (Some k, Some x) \<Rightarrow> Some (k, x)
      | _ \<Rightarrow> None)"

definition read_query :: "string \<Rightarrow> (string \<times> string) list option" where
  "read_query s = those (map read_pair (filter (\<lambda>p. p \<noteq> []) (split_on (CHR ''&'') s)))"

section \<open>What is encoded is read\<close>

lemma in_range_upperhex: "n < 16 \<Longrightarrow> in_range 48 57 (upperhex n) \<or> in_range 65 70 (upperhex n)"
  by (simp add: upperhex_def in_range_def)

lemma unhex_upperhex [simp]: "n < 16 \<Longrightarrow> unhex (upperhex n) = Some n"
  by (simp add: unhex_def upperhex_def in_range_def)

lemma nibble: "(of_char c :: nat) div 16 < 16"
  using nat_of_char_less_256 [of c] by linarith

lemma escape_char_chars:
  assumes "d \<in> set (escape_char c)"
  shows "unreserved d \<or> d = CHR ''+'' \<or> d = CHR ''%''"
proof -
  have "unreserved (upperhex (of_char c div 16))" "unreserved (upperhex (of_char c mod 16))"
    using in_range_upperhex [of "of_char c div 16"] in_range_upperhex [of "of_char c mod 16"] nibble [of c]
    by (auto simp: unreserved_def in_range_def)
  then show ?thesis using assms by (auto simp: escape_char_def split: if_splits)
qed

lemma QueryEscape_chars: "d \<in> set (QueryEscape s) \<Longrightarrow> d \<notin> set ''&=;?#''"
  using escape_char_chars [of d] by (auto simp: QueryEscape_def unreserved_def in_range_def)

lemma Unescape_escape_char:
  "QueryUnescape (escape_char c @ s) = map_option ((#) c) (QueryUnescape s)"
proof -
  have "char_of (16 * (of_char c div 16) + of_char c mod 16 :: nat) = c" by simp
  moreover have "unreserved c \<Longrightarrow> c \<noteq> CHR ''%'' \<and> c \<noteq> CHR ''+''" by (auto simp: unreserved_def in_range_def)
  ultimately show ?thesis using nibble [of c] by (auto simp: escape_char_def)
qed

lemma Unescape_Escape [simp]: "QueryUnescape (QueryEscape s) = Some s"
  by (induction s) (simp_all add: QueryEscape_def Unescape_escape_char)

lemma split_on_free: "c \<notin> set s \<Longrightarrow> split_on c s = [s]"
  by (induction s) auto

lemma split_on_append: "c \<notin> set s \<Longrightarrow> split_on c (s @ c # t) = s # split_on c t"
  by (induction s) (auto split: list.split)

lemma split_on_join:
  "ss \<noteq> [] \<Longrightarrow> \<forall>s \<in> set ss. c \<notin> set s \<Longrightarrow> split_on c (string_join [c] ss) = ss"
  by (induction "[c]" ss rule: string_join.induct) (auto simp: split_on_free split_on_append)

lemma read_pair_encoded: "read_pair (QueryEscape k @ ''='' @ QueryEscape x) = Some (k, x)"
proof -
  have free: "CHR ''='' \<notin> set (QueryEscape s)" "CHR '';'' \<notin> set (QueryEscape s)" for s
    using QueryEscape_chars [of "CHR ''=''" s] QueryEscape_chars [of "CHR '';''" s] by auto
  have "\<forall>c \<in> set (QueryEscape k). c \<noteq> CHR ''=''" using free(1) by metis
  then have "takeWhile (\<lambda>c. c \<noteq> CHR ''='') (QueryEscape k @ ''='' @ QueryEscape x) = QueryEscape k"
    "dropWhile (\<lambda>c. c \<noteq> CHR ''='') (QueryEscape k @ ''='' @ QueryEscape x) = ''='' @ QueryEscape x"
    by simp_all
  then show ?thesis using free by (simp add: read_pair_def)
qed

lemma read_query_encoded: "read_query (Values_Encode v) = Some (Values_pairs v)"
proof (cases "Values_pairs v")
  case Nil
  then show ?thesis by (simp add: read_query_def Values_Encode_def)
next
  case (Cons p ps)
  let ?enc = "\<lambda>(k, x). QueryEscape k @ ''='' @ QueryEscape x"
  have "CHR ''&'' \<notin> set (?enc p)" for p
    using QueryEscape_chars [of "CHR ''&''"] by (auto split: prod.split)
  then have "split_on (CHR ''&'') (Values_Encode v) = map ?enc (Values_pairs v)"
    using Cons unfolding Values_Encode_def by (intro split_on_join) auto
  moreover have "filter (\<lambda>p. p \<noteq> []) (map ?enc qs) = map ?enc qs" for qs
    by (induction qs) (auto split: prod.split)
  moreover have "those (map read_pair (map ?enc qs)) = Some qs" for qs
    by (induction qs) (auto simp: read_pair_encoded [simplified])
  ultimately show ?thesis by (simp add: read_query_def)
qed

lemma Escape_unreserved: "list_all unreserved s \<Longrightarrow> QueryEscape s = s"
proof (induction s)
  case (Cons c s)
  then have "c \<noteq> CHR '' ''" by (auto simp: unreserved_def in_range_def)
  then show ?case using Cons by (simp add: QueryEscape_def escape_char_def)
qed (simp add: QueryEscape_def)

lemma show_int_unreserved: "list_all unreserved (show_int i)"
proof -
  have "list_all unreserved (show_nat n)" for n
    using show_nat_digits [of n] by (auto simp: unreserved_def in_range_def elim: list.pred_mono_strong)
  then show ?thesis by (simp add: show_int_def unreserved_def)
qed

text \<open>A decimal number is read with its sign.\<close>

definition read_int :: "string \<Rightarrow> int" where
  "read_int s = (if take 1 s = ''-'' then - int (read_nat (drop 1 s)) else int (read_nat s))"

lemma read_show_int [simp]: "read_int (show_int i) = i"
proof -
  obtain d ds where "show_nat (nat i) = d # ds" and d: "in_range 48 57 d"
    using show_nat_digits [of "nat i"] by (cases "show_nat (nat i)") (auto simp: in_range_def)
  then have "take 1 (show_nat (nat i)) \<noteq> ''-''" by (auto simp: in_range_def)
  then show ?thesis by (simp add: read_int_def show_int_def)
qed

end
