(* ===== verification/KebClient.thy ===== *)
theory KebClient
  imports Retry Logging Query
begin

text \<open>
  \<^verbatim>\<open>src/pkg/keb/client.go\<close> and \<^verbatim>\<open>config.go\<close>: the client that lists all runtimes of the Kyma
  Environment Broker, page by page, each page with retries. The loop over the pages ends when the
  records seen reach the total the broker announces; whether it ends depends on the broker, so it is
  a \<open>partial_function\<close> whose value \<open>None\<close> means that it runs forever.
\<close>

section \<open>Model\<close>

record KebConfig =
  keb_URL :: string
  keb_Timeout :: int64
  keb_RetryCount :: int64
  keb_PollWaitDuration :: int64

record keb_Client =
  kcl_HTTPClient :: http_client
  kcl_Logger :: Logger
  kcl_Config :: KebConfig

definition keb_NewClient :: "KebConfig \<Rightarrow> Logger \<Rightarrow> keb_Client" where
  "keb_NewClient config logger =
     \<lparr>kcl_HTTPClient = \<lparr>hc_Timeout = keb_Timeout config\<rparr>, kcl_Logger = logger, kcl_Config = config\<rparr>"

definition keb_clientName :: string where
  "keb_clientName = ''keb-client''"

definition keb_namedLogger :: "keb_Client \<Rightarrow> Logger" where
  "keb_namedLogger c = With ''component'' ''KEB'' (Named keb_clientName (kcl_Logger c))"

text \<open>The methods below use the configuration of the client only.\<close>

text \<open>A page of the broker's answer, with the fields the collector reads.\<close>

record 'd RuntimesPage =
  pg_Data :: "'d list"
  pg_Count :: int64
  pg_TotalCount :: int64

text \<open>A parsed URL: its query, and the rest.\<close>

record url =
  url_base :: string
  url_RawQuery :: string

definition url_String :: "url \<Rightarrow> string" where
  "url_String u = (if url_RawQuery u = [] then url_base u else url_base u @ ''?'' @ url_RawQuery u)"

record keb_request =
  kr_Method :: string
  kr_URL :: url

definition keb_NewRequest :: "(string \<Rightarrow> go_error + url) \<Rightarrow> KebConfig \<Rightarrow> go_error + keb_request" where
  "keb_NewRequest parseRequestURI c =
     (case parseRequestURI (keb_URL c) of
        Inl err \<Rightarrow> Inl err
      | Inr kebURL \<Rightarrow> Inr \<lparr>kr_Method = ''GET'', kr_URL = kebURL\<rparr>)"

text \<open>The request as it goes over the wire.\<close>

definition wire_request :: "keb_request \<Rightarrow> http_request" where
  "wire_request r = \<lparr>req_Method = kr_Method r, req_URL = url_String (kr_URL r), req_Header = []\<rparr>"

definition keb_status_error :: "int \<Rightarrow> go_error" where
  "keb_status_error status = ErrorString (''KEB returned status code: '' @ show_int status)"

text \<open>One attempt for a page; \<open>unmarshal\<close> is the JSON decoder.\<close>

definition keb_attempt ::
  "KebConfig \<Rightarrow> (http_request \<Rightarrow> nat \<Rightarrow> http_result \<times> int64) \<Rightarrow> (string \<Rightarrow> go_error + 'd RuntimesPage)
   \<Rightarrow> keb_request \<Rightarrow> nat \<Rightarrow> (go_error + 'd RuntimesPage) \<times> effect list" where
  "keb_attempt c httpDo unmarshal req i =
     (let w = wire_request req in
      case httpDo w i of
        (TransportError timeout err, duration) \<Rightarrow>
          (Inl err, [HttpSend w [], Metric (recordKEBLatency duration (transport_status timeout) (keb_URL c))])
      | (HttpResponse status content, duration) \<Rightarrow>
          ((if status \<noteq> 200 then Inl (keb_status_error status)
            else case content of
                   Inl err \<Rightarrow> Inl err
                 | Inr body \<Rightarrow>
                    (case unmarshal body of
                       Inl err \<Rightarrow> Inl (errors_Wrapf err ''failed to unmarshal runtimes response'')
                     | Inr page \<Rightarrow> Inr page)),
           [HttpSend w [], Metric (recordKEBLatency duration status (keb_URL c))]))"

text \<open>The request for a page: the caller's request with its query replaced, in place.\<close>

definition set_page :: "keb_request \<Rightarrow> int64 \<Rightarrow> keb_request" where
  "set_page req pageNum =
     (let query = [(''page'', [show_int (sint pageNum)])]
      in req\<lparr>kr_URL := (kr_URL req)\<lparr>url_RawQuery := Values_Encode query\<rparr>\<rparr>)"

definition getRuntimesPerPage ::
  "'d RuntimesPage retry_fn \<Rightarrow> KebConfig \<Rightarrow> (http_request \<Rightarrow> nat \<Rightarrow> http_result \<times> int64)
   \<Rightarrow> (string \<Rightarrow> go_error + 'd RuntimesPage) \<Rightarrow> keb_request \<Rightarrow> int64
   \<Rightarrow> (go_error + 'd RuntimesPage) \<times> keb_request \<times> effect list" where
  "getRuntimesPerPage retryDo c httpDo unmarshal req pageNum =
     (let req = set_page req pageNum;
          attempt = keb_attempt c httpDo unmarshal req;
          (result, n) = retryDo (keb_RetryCount c) (\<lambda>i. fst (attempt i))
      in (result, req, concat (map (\<lambda>i. snd (attempt i)) [0..<n])))"

text \<open>
  The loop of \<open>GetAllRuntimes\<close>, on the page number, the records seen and the data collected so far;
  \<open>getPage\<close> is \<open>getRuntimesPerPage\<close> of the client.
\<close>

partial_function (option) keb_loop ::
  "(keb_request \<Rightarrow> int64 \<Rightarrow> (go_error + 'd RuntimesPage) \<times> keb_request \<times> effect list)
   \<Rightarrow> keb_request \<Rightarrow> int64 \<Rightarrow> int64 \<Rightarrow> 'd list \<Rightarrow> effect list
   \<Rightarrow> ((go_error + 'd RuntimesPage) \<times> effect list) option" where
  "keb_loop getPage req pageNum recordsSeen fdata effs =
     (case getPage req pageNum of
        (Inl err, req, e) \<Rightarrow> Some (Inl (errors_Wrapf err ''failed to get runtimes from KEB''), effs @ e)
      | (Inr page, req, e) \<Rightarrow>
          (let fdata = fdata @ pg_Data page;
               recordsSeen = recordsSeen + pg_Count page
           in if int64_ge recordsSeen (pg_TotalCount page)
              then Some (Inr \<lparr>pg_Data = fdata, pg_Count = of_nat (length fdata),
                             pg_TotalCount = recordsSeen\<rparr>, effs @ e)
              else keb_loop getPage req (pageNum + 1) recordsSeen fdata (effs @ e)))"

lemmas keb_loop_induct = keb_loop.raw_induct [rotated, consumes 1, case_names step]

definition GetAllRuntimes ::
  "'d RuntimesPage retry_fn \<Rightarrow> KebConfig \<Rightarrow> (http_request \<Rightarrow> nat \<Rightarrow> http_result \<times> int64)
   \<Rightarrow> (string \<Rightarrow> go_error + 'd RuntimesPage) \<Rightarrow> keb_request
   \<Rightarrow> ((go_error + 'd RuntimesPage) \<times> effect list) option" where
  "GetAllRuntimes retryDo c httpDo unmarshal req =
     keb_loop (getRuntimesPerPage retryDo c httpDo unmarshal) req 1 0 [] []"

section \<open>Pages\<close>

text \<open>The answer for a page does not depend on the query of the request it is asked with.\<close>

definition page_answer ::
  "'d RuntimesPage retry_fn \<Rightarrow> KebConfig \<Rightarrow> (http_request \<Rightarrow> nat \<Rightarrow> http_result \<times> int64)
   \<Rightarrow> (string \<Rightarrow> go_error + 'd RuntimesPage) \<Rightarrow> keb_request \<Rightarrow> nat \<Rightarrow> go_error + 'd RuntimesPage" where
  "page_answer retryDo c httpDo unmarshal req k =
     fst (getRuntimesPerPage retryDo c httpDo unmarshal req (of_nat k))"

lemma set_page_again [simp]: "set_page (set_page req p) q = set_page req q"
  by (simp add: set_page_def Let_def)

lemma getPage_set_page [simp]:
  "getRuntimesPerPage retryDo c httpDo unmarshal (set_page req p) q
     = getRuntimesPerPage retryDo c httpDo unmarshal req q"
  by (simp add: getRuntimesPerPage_def)

lemma getPage_request [simp]: "fst (snd (getRuntimesPerPage retryDo c httpDo unmarshal req p)) = set_page req p"
  by (simp add: getRuntimesPerPage_def Let_def case_prod_beta)

lemma page_query:
  "Values_pairs [(''page'', [v])] = [(''page'', v)]"
  "Values_Encode [(''page'', [show_int i])] = ''page='' @ show_int i"
proof -
  show pairs: "Values_pairs [(''page'', [v])] = [(''page'', v)]" for v by (simp add: Values_pairs_def)
  have "list_all unreserved ''page''" by (simp add: unreserved_def in_range_def)
  then show "Values_Encode [(''page'', [show_int i])] = ''page='' @ show_int i"
    using show_int_unreserved [of i] by (simp add: Values_Encode_def pairs Escape_unreserved)
qed

lemma set_page_query:
  "set_page req n = req\<lparr>kr_URL := (kr_URL req)\<lparr>url_RawQuery := ''page='' @ show_int (sint n)\<rparr>\<rparr>"
  by (simp only: set_page_def Let_def page_query(2))

text \<open>
  C22: the page number survives the way to the broker. In the URL of the request for a page as it is sent, the
  part before the first question mark is the configured URL, and the query after it, read as a server reads it,
  has exactly one parameter, \<open>page\<close>, whose value is the number of the page in decimal; whatever
  page the same request was used for before.
\<close>

theorem page_request_roundtrip:
  assumes "CHR ''?'' \<notin> set (url_base (kr_URL req))"
  shows "let u = req_URL (wire_request (set_page (set_page req m) n))
         in takeWhile (\<lambda>c. c \<noteq> CHR ''?'') u = url_base (kr_URL req) \<and>
            (\<exists>v. read_query (drop 1 (dropWhile (\<lambda>c. c \<noteq> CHR ''?'') u)) = Some [(''page'', v)] \<and> read_int v = sint n)"
proof -
  let ?q = "Values_Encode [(''page'', [show_int (sint n)])]"
  have u: "req_URL (wire_request (set_page (set_page req m) n)) = url_base (kr_URL req) @ ''?'' @ ?q"
    using page_query(2) [of "sint n"] by (simp add: wire_request_def url_String_def) (simp add: set_page_def)
  have "\<forall>c \<in> set (url_base (kr_URL req)). c \<noteq> CHR ''?''" using assms by metis
  then show ?thesis
    unfolding u Let_def by (simp add: read_query_encoded page_query(1))
qed

theorem page_request_roundtrip_witness:
  "let u = req_URL (wire_request (set_page (set_page \<lparr>kr_Method = ''GET'', kr_URL = \<lparr>url_base = ''h/r'', url_RawQuery = ''a=b''\<rparr>\<rparr> 1) 12))
   in takeWhile (\<lambda>c. c \<noteq> CHR ''?'') u = ''h/r'' \<and>
      (\<exists>v. read_query (drop 1 (dropWhile (\<lambda>c. c \<noteq> CHR ''?'') u)) = Some [(''page'', v)] \<and> read_int v = 12)"
  using page_request_roundtrip [of "\<lparr>kr_Method = ''GET'', kr_URL = \<lparr>url_base = ''h/r'', url_RawQuery = ''a=b''\<rparr>\<rparr>" 1 12]
  by simp

text \<open>
  The loop from page \<open>k\<close> on, as a function of the answers alone: its result, when it comes.
\<close>

lemma keb_loop_set_page [simp]:
  "keb_loop (getRuntimesPerPage retryDo c httpDo unmarshal) (set_page req p) k s d e
     = keb_loop (getRuntimesPerPage retryDo c httpDo unmarshal) req k s d e"
  by (simp add: keb_loop.simps [of _ "set_page req p"] keb_loop.simps [of _ req])

lemma keb_loop_step:
  assumes "page_answer retryDo c httpDo unmarshal req k = Inr page"
  shows "keb_loop (getRuntimesPerPage retryDo c httpDo unmarshal) req (of_nat k) s d e =
     (let effs = e @ snd (snd (getRuntimesPerPage retryDo c httpDo unmarshal req (of_nat k)));
          d' = d @ pg_Data page; s' = s + pg_Count page
      in if int64_ge s' (pg_TotalCount page)
         then Some (Inr \<lparr>pg_Data = d', pg_Count = of_nat (length d'), pg_TotalCount = s'\<rparr>, effs)
         else keb_loop (getRuntimesPerPage retryDo c httpDo unmarshal) req (of_nat (Suc k)) s' d' effs)"
proof -
  have page: "getRuntimesPerPage retryDo c httpDo unmarshal req (of_nat k)
      = (Inr page, set_page req (of_nat k), snd (snd (getRuntimesPerPage retryDo c httpDo unmarshal req (of_nat k))))"
    using assms getPage_request [of retryDo c httpDo unmarshal req "of_nat k"]
    unfolding page_answer_def by (metis prod.collapse)
  show ?thesis
    by (subst keb_loop.simps, subst page) (simp add: Let_def add.commute)
qed

lemma keb_loop_error:
  assumes "page_answer retryDo c httpDo unmarshal req k = Inl err"
  shows "keb_loop (getRuntimesPerPage retryDo c httpDo unmarshal) req (of_nat k) s d e =
     Some (Inl (errors_Wrapf err ''failed to get runtimes from KEB''),
           e @ snd (snd (getRuntimesPerPage retryDo c httpDo unmarshal req (of_nat k))))"
  using assms by (subst keb_loop.simps) (auto simp: page_answer_def split: prod.split)

text \<open>What the loop makes of the pages of a list of runtimes.\<close>

definition broker_page :: "nat \<Rightarrow> 'd list \<Rightarrow> nat \<Rightarrow> 'd RuntimesPage" where
  "broker_page z D k =
     (let part = take z (drop ((k - 1) * z) D)
      in \<lparr>pg_Data = part, pg_Count = of_nat (length part), pg_TotalCount = of_nat (length D)\<rparr>)"

lemma sint_of_nat_64 [simp]: "n < 2 ^ 63 \<Longrightarrow> sint (of_nat n :: int64) = int n"
  using sint_of_int_64 [of "int n"] by simp

lemma keb_loop_pages:
  assumes "\<And>k. k = 1 \<or> (0 < k \<and> (k - 1) * z < length D) \<Longrightarrow>
             page_answer retryDo c httpDo unmarshal req k = Inr (broker_page z D k)"
    and "0 < z" and "length D < 2 ^ 63"
  shows "j = 0 \<or> j * z < length D \<Longrightarrow>
    \<exists>effs. keb_loop (getRuntimesPerPage retryDo c httpDo unmarshal) req (of_nat (Suc j)) (of_nat (min (j * z) (length D)))
            (take (j * z) D) e =
          Some (Inr \<lparr>pg_Data = D, pg_Count = of_nat (length D), pg_TotalCount = of_nat (length D)\<rparr>, effs)"
proof (induction "length D - j * z" arbitrary: j e rule: less_induct)
  case less
  let ?n = "min (Suc j * z) (length D)"
  have page: "page_answer retryDo c httpDo unmarshal req (Suc j) = Inr (broker_page z D (Suc j))"
    by (rule assms(1)) (use less.prems in auto)
  have le: "j * z \<le> length D" using less.prems by auto
  have seen: "of_nat (min (j * z) (length D)) + pg_Count (broker_page z D (Suc j)) = (of_nat ?n :: int64)"
  proof -
    have "pg_Count (broker_page z D (Suc j)) = of_nat (min z (length D - j * z))"
      by (simp add: broker_page_def Let_def min.commute)
    moreover have "min (j * z) (length D) + min z (length D - j * z) = ?n" using le by auto
    ultimately show ?thesis by (metis of_nat_add)
  qed
  have data: "take (j * z) D @ pg_Data (broker_page z D (Suc j)) = take (Suc j * z) D"
    by (simp add: broker_page_def Let_def take_add add.commute [of z])
  have total: "pg_TotalCount (broker_page z D (Suc j)) = of_nat (length D)"
    by (simp add: broker_page_def Let_def)
  have stop: "int64_ge (of_nat ?n) (of_nat (length D)) \<longleftrightarrow> length D \<le> Suc j * z"
    using assms(3) by (simp add: int64_ge_def)
  show ?case
  proof (cases "length D \<le> Suc j * z")
    case True
    then show ?thesis
      unfolding keb_loop_step [OF page] seen data total Let_def stop by simp
  next
    case False
    then have "Suc j = 0 \<or> Suc j * z < length D" "length D - Suc j * z < length D - j * z"
      using assms(2) by auto
    then show ?thesis
      unfolding keb_loop_step [OF page] seen data total Let_def stop
      using less.hyps [of "Suc j"] False by simp
  qed
qed

text \<open>
  C9: against a broker that splits its list of runtimes into pages of any positive size, with
  counts to match, \<open>GetAllRuntimes\<close> ends and returns exactly the whole list, in order, each runtime
  once, with both counts equal to its length.
\<close>

theorem GetAllRuntimes_complete:
  assumes "\<forall>k. k = 1 \<or> (0 < k \<and> (k - 1) * z < length D) \<longrightarrow>
             page_answer retryDo c httpDo unmarshal req k = Inr (broker_page z D k)"
    and "0 < z" and "length D < 2 ^ 63"
  shows "\<exists>effs. GetAllRuntimes retryDo c httpDo unmarshal req =
           Some (Inr \<lparr>pg_Data = D, pg_Count = of_nat (length D), pg_TotalCount = of_nat (length D)\<rparr>, effs)"
  using keb_loop_pages [of z D retryDo c httpDo unmarshal req 0 "[]"] assms
  by (simp add: GetAllRuntimes_def)

section \<open>When the loop ends\<close>

text \<open>A page costs one request per attempt, and at most as many attempts as are configured.\<close>

lemma posts_keb_attempt: "length (posts (snd (keb_attempt c httpDo unmarshal req i))) = 1"
  by (simp add: keb_attempt_def Let_def split: prod.split http_result.split)

lemma page_requests:
  assumes "retrier retryDo" and "0 < unat (keb_RetryCount c)"
  shows "length (posts (snd (snd (getRuntimesPerPage retryDo c httpDo unmarshal req n)))) \<le> unat (keb_RetryCount c)"
proof -
  let ?f = "keb_attempt c httpDo unmarshal (set_page req n)"
  have "length (posts (concat (map (\<lambda>i. snd (?f i)) is))) = length is" for "is"
    by (induction "is") (simp_all add: posts_keb_attempt [simplified])
  then show ?thesis
    using retrier.attempts_le [OF assms, of "\<lambda>i. fst (?f i)"] by (simp add: getRuntimesPerPage_def Let_def case_prod_beta)
qed

lemma keb_loop_ends:
  assumes answers: "\<And>k. 0 < k \<Longrightarrow> (case page_answer retryDo c httpDo unmarshal req k of
                 Inl _ \<Rightarrow> True
               | Inr page \<Rightarrow> 0 < sint (pg_Count page) \<and> sint (pg_Count page) \<le> M \<and> sint (pg_TotalCount page) \<le> T)"
    and lib: "retrier retryDo" "0 < unat (keb_RetryCount c)" and range: "0 \<le> T" "T + M < 2 ^ 63"
  shows "0 < k \<Longrightarrow> 0 \<le> sint s \<Longrightarrow> sint s \<le> T \<Longrightarrow>
    \<exists>r e'. keb_loop (getRuntimesPerPage retryDo c httpDo unmarshal) req (of_nat k) s d e = Some (r, e @ e') \<and>
      length (posts e') \<le> unat (keb_RetryCount c) * max 1 (nat (T - sint s))"
proof (induction "nat (T - sint s)" arbitrary: k s d e rule: less_induct)
  case less
  let ?e = "snd (snd (getRuntimesPerPage retryDo c httpDo unmarshal req (of_nat k)))"
  note one = page_requests [OF lib, of httpDo unmarshal req "of_nat k"]
  have enough: "unat (keb_RetryCount c) \<le> unat (keb_RetryCount c) * max 1 n" for n by (cases n) simp_all
  show ?case
  proof (cases "page_answer retryDo c httpDo unmarshal req k")
    case (Inl err)
    then show ?thesis using one enough by (auto simp: keb_loop_error intro: le_trans)
  next
    case (Inr page)
    then have page: "0 < sint (pg_Count page)" "sint (pg_Count page) \<le> M" "sint (pg_TotalCount page) \<le> T"
      using answers [of k] less.prems by auto
    have "sint (word_of_int (sint s + sint (pg_Count page)) :: int64) = sint s + sint (pg_Count page)"
      by (rule sint_of_int_64) (use page less.prems range in simp_all)
    then have sum: "sint (s + pg_Count page) = sint s + sint (pg_Count page)" by simp
    show ?thesis
    proof (cases "int64_ge (s + pg_Count page) (pg_TotalCount page)")
      case True
      then show ?thesis using keb_loop_step [OF Inr] one enough by (auto simp: Let_def intro: le_trans)
    next
      case False
      then have lt: "sint s + sint (pg_Count page) < T" using page(3) sum by (simp add: int64_ge_def)
      obtain r e' where rest: "keb_loop (getRuntimesPerPage retryDo c httpDo unmarshal) req (of_nat (Suc k)) (s + pg_Count page)
          (d @ pg_Data page) (e @ ?e) = Some (r, (e @ ?e) @ e')"
        "length (posts e') \<le> unat (keb_RetryCount c) * max 1 (nat (T - sint (s + pg_Count page)))"
        using less.hyps [of "s + pg_Count page" "Suc k" "d @ pg_Data page" "e @ ?e"] less.prems page(1) lt sum by fastforce
      have "Suc (max 1 (nat (T - sint (s + pg_Count page)))) \<le> max 1 (nat (T - sint s))"
        using page(1) lt sum less.prems by simp
      then have "unat (keb_RetryCount c) + unat (keb_RetryCount c) * max 1 (nat (T - sint (s + pg_Count page)))
          \<le> unat (keb_RetryCount c) * max 1 (nat (T - sint s))"
        by (metis mult_Suc_right mult_le_mono2)
      then have "length (posts (?e @ e')) \<le> unat (keb_RetryCount c) * max 1 (nat (T - sint s))"
        using rest(2) one by simp
      then show ?thesis
        using rest(1) False by (intro exI [of _ r] exI [of _ "?e @ e'"]) (simp add: keb_loop_step [OF Inr] Let_def)
    qed
  qed
qed

section \<open>All or nothing\<close>

fun pages_from :: "(nat \<Rightarrow> go_error + 'd RuntimesPage) \<Rightarrow> nat \<Rightarrow> 'd RuntimesPage list \<Rightarrow> bool" where
  "pages_from ans k [] \<longleftrightarrow> True"
| "pages_from ans k (p # ps) \<longleftrightarrow> ans k = Inr p \<and> pages_from ans (Suc k) ps"

text \<open>What a result of the loop says of the answers from page \<open>k\<close> on.\<close>

definition loop_outcome ::
  "(nat \<Rightarrow> go_error + 'd RuntimesPage) \<Rightarrow> nat \<Rightarrow> int64 \<Rightarrow> 'd list \<Rightarrow> go_error + 'd RuntimesPage \<Rightarrow> bool" where
  "loop_outcome ans k s d r \<longleftrightarrow> (\<exists>ps. pages_from ans k ps \<and>
     (case r of
        Inl err \<Rightarrow> (\<exists>cause. ans (k + length ps) = Inl cause \<and>
                     err = errors_Wrapf cause ''failed to get runtimes from KEB'')
      | Inr page \<Rightarrow> ps \<noteq> [] \<and> pg_Data page = d @ concat (map pg_Data ps) \<and>
          pg_Count page = of_nat (length (pg_Data page)) \<and>
          pg_TotalCount page = s + (\<Sum>p\<leftarrow>ps. pg_Count p) \<and>
          int64_ge (pg_TotalCount page) (pg_TotalCount (last ps))))"

lemma loop_outcome_Cons:
  assumes "ans k = Inr p" and "loop_outcome ans (Suc k) (s + pg_Count p) (d @ pg_Data p) r"
  shows "loop_outcome ans k s d r"
proof -
  from assms(2) obtain ps where "pages_from ans (Suc k) ps \<and>
     (case r of
        Inl err \<Rightarrow> (\<exists>cause. ans (Suc k + length ps) = Inl cause \<and>
                     err = errors_Wrapf cause ''failed to get runtimes from KEB'')
      | Inr page \<Rightarrow> ps \<noteq> [] \<and> pg_Data page = (d @ pg_Data p) @ concat (map pg_Data ps) \<and>
          pg_Count page = of_nat (length (pg_Data page)) \<and>
          pg_TotalCount page = (s + pg_Count p) + (\<Sum>p\<leftarrow>ps. pg_Count p) \<and>
          int64_ge (pg_TotalCount page) (pg_TotalCount (last ps)))"
    unfolding loop_outcome_def by blast
  then show ?thesis
    unfolding loop_outcome_def using assms(1)
    by (intro exI [of _ "p # ps"]) (cases r; auto simp: add.assoc)
qed

lemma keb_loop_outcome:
  assumes "keb_loop getPage req pageNum s d e = Some r"
  shows "getPage = getRuntimesPerPage retryDo c httpDo unmarshal \<Longrightarrow> pageNum = of_nat k \<Longrightarrow>
           loop_outcome (page_answer retryDo c httpDo unmarshal req) k s d (fst r)"
  using assms
proof (induction getPage req pageNum s d e r arbitrary: k
    rule: keb_loop_induct)
  case (step loop getPage req pageNum s d e r)
  show ?case
  proof (cases "page_answer retryDo c httpDo unmarshal req k")
    case (Inl err)
    then have "fst r = Inl (errors_Wrapf err ''failed to get runtimes from KEB'')"
      using step(2-4) by (auto simp: page_answer_def split: prod.splits)
    then show ?thesis
      using Inl unfolding loop_outcome_def by (intro exI [of _ "[]"]) simp
  next
    case (Inr page)
    obtain e' where page: "getPage req pageNum = (Inr page, set_page req pageNum, e')"
      using Inr getPage_request [of retryDo c httpDo unmarshal req pageNum] step(3,4)
      unfolding page_answer_def by (metis prod.collapse)
    have ans: "page_answer retryDo c httpDo unmarshal (set_page req pageNum) = page_answer retryDo c httpDo unmarshal req"
      by (simp add: page_answer_def fun_eq_iff)
    show ?thesis
    proof (cases "int64_ge (s + pg_Count page) (pg_TotalCount page)")
      case True
      then have "fst r = Inr \<lparr>pg_Data = d @ pg_Data page, pg_Count = of_nat (length (d @ pg_Data page)),
                   pg_TotalCount = s + pg_Count page\<rparr>"
        using step(2) page by (auto simp: Let_def)
      then show ?thesis
        using Inr True unfolding loop_outcome_def by (intro exI [of _ "[page]"]) simp
    next
      case False
      then have "loop getPage (set_page req pageNum) (pageNum + 1) (s + pg_Count page) (d @ pg_Data page) (e @ e') = Some r"
        using step(2) page by (simp add: Let_def)
      then have "loop_outcome (page_answer retryDo c httpDo unmarshal req) (Suc k) (s + pg_Count page) (d @ pg_Data page) (fst r)"
        using step(1) [of getPage "set_page req pageNum" "pageNum + 1" "s + pg_Count page" "d @ pg_Data page" "e @ e'" r "Suc k"]
          step(3,4) ans by (simp add: add.commute)
      with Inr show ?thesis by (rule loop_outcome_Cons)
    qed
  qed
qed

text \<open>
  C18: \<open>GetAllRuntimes\<close> is all or nothing. Whenever it returns, either it returns the data of the
  consecutive pages from the first on, each of which was delivered, up to a page whose announced
  total is reached by the records seen; or it returns the wrapped error of the first page that was
  not delivered. It never returns a partial list.
\<close>

theorem GetAllRuntimes_all_or_nothing:
  assumes "GetAllRuntimes retryDo c httpDo unmarshal req = Some (result, effs)"
  shows "\<exists>ps. pages_from (page_answer retryDo c httpDo unmarshal req) 1 ps \<and>
    (case result of
       Inl err \<Rightarrow> (\<exists>cause. page_answer retryDo c httpDo unmarshal req (Suc (length ps)) = Inl cause \<and>
                    err = errors_Wrapf cause ''failed to get runtimes from KEB'')
     | Inr page \<Rightarrow> ps \<noteq> [] \<and> pg_Data page = concat (map pg_Data ps) \<and>
         pg_Count page = of_nat (length (pg_Data page)) \<and> pg_TotalCount page = (\<Sum>p\<leftarrow>ps. pg_Count p) \<and>
         int64_ge (pg_TotalCount page) (pg_TotalCount (last ps)))"
  using keb_loop_outcome [OF assms [unfolded GetAllRuntimes_def], OF refl, of 1]
  by (cases result) (simp_all add: loop_outcome_def)

text \<open>
  C16: the loop over the pages ends, and what it costs. Let the number of attempts be positive (the retry library
  takes 0 as no limit), let every page that is delivered report at least one and at most \<open>M\<close> records and
  announce a total of at most \<open>T\<close>, and let \<open>T + M\<close> be in the range of \<open>int\<close>, without which the sum of the records
  seen can wrap around for ever. Then \<open>GetAllRuntimes\<close> returns, after at most \<open>T\<close> times the number of attempts
  requests (one page at least), either all the data of the pages from the first on, until the records seen reach
  the total the last page announces, or the error of the first page that was not delivered.
\<close>

theorem GetAllRuntimes_ends:
  assumes "retrier retryDo" and "0 < unat (keb_RetryCount c)" and "0 \<le> T" and "T + M < 2 ^ 63"
    and "\<forall>k>0. case page_answer retryDo c httpDo unmarshal req k of
             Inl _ \<Rightarrow> True
           | Inr page \<Rightarrow> 0 < sint (pg_Count page) \<and> sint (pg_Count page) \<le> M \<and> sint (pg_TotalCount page) \<le> T"
  shows "\<exists>result effs ps. GetAllRuntimes retryDo c httpDo unmarshal req = Some (result, effs) \<and>
    length (posts effs) \<le> unat (keb_RetryCount c) * max 1 (nat T) \<and>
    pages_from (page_answer retryDo c httpDo unmarshal req) 1 ps \<and>
    (case result of
       Inl err \<Rightarrow> (\<exists>cause. page_answer retryDo c httpDo unmarshal req (Suc (length ps)) = Inl cause \<and>
                    err = errors_Wrapf cause ''failed to get runtimes from KEB'')
     | Inr page \<Rightarrow> ps \<noteq> [] \<and> pg_Data page = concat (map pg_Data ps) \<and>
         int64_ge (\<Sum>p\<leftarrow>ps. pg_Count p) (pg_TotalCount (last ps)))"
proof -
  obtain result effs where run: "GetAllRuntimes retryDo c httpDo unmarshal req = Some (result, effs)"
    "length (posts effs) \<le> unat (keb_RetryCount c) * max 1 (nat T)"
    using keb_loop_ends [OF assms(5) [rule_format] assms(1-4), of 1 0 "[]" "[]"] assms(3) by (auto simp: GetAllRuntimes_def)
  then show ?thesis
    using keb_loop_outcome [OF run(1) [unfolded GetAllRuntimes_def], OF refl, of 1]
    by (cases result) (auto simp: loop_outcome_def)
qed

text \<open>
  A broker that keeps announcing records but delivers empty pages keeps the client polling
  forever: the call never returns, neither with a result nor with an error.
\<close>

theorem GetAllRuntimes_empty_pages_diverge:
  assumes "\<forall>k>0. \<exists>page. page_answer retryDo c httpDo unmarshal req k = Inr page \<and>
             pg_Count page = 0 \<and> 0 < sint (pg_TotalCount page)"
  shows "GetAllRuntimes retryDo c httpDo unmarshal req = None"
proof (rule ccontr)
  let ?ans = "page_answer retryDo c httpDo unmarshal req"
  assume "GetAllRuntimes retryDo c httpDo unmarshal req \<noteq> None"
  then obtain r where "GetAllRuntimes retryDo c httpDo unmarshal req = Some r" by auto
  then have "loop_outcome ?ans 1 0 [] (fst r)"
    using keb_loop_outcome [of _ req 1 0 "[]" "[]" r] by (simp add: GetAllRuntimes_def)
  then obtain ps where ps: "pages_from ?ans 1 ps"
    and r: "isl (fst r) \<Longrightarrow> \<exists>cause. ?ans (1 + length ps) = Inl cause"
      "\<not> isl (fst r) \<Longrightarrow> ps \<noteq> [] \<and> int64_ge (\<Sum>p\<leftarrow>ps. pg_Count p) (pg_TotalCount (last ps))"
    by (cases "fst r") (auto simp: loop_outcome_def)
  have empty: "\<forall>p \<in> set ps. pg_Count p = 0 \<and> 0 < sint (pg_TotalCount p)"
    if "pages_from ?ans k ps" "0 < k" for k
    using that
  proof (induction ps arbitrary: k)
    case (Cons p ps)
    then have "pg_Count p = 0 \<and> 0 < sint (pg_TotalCount p)"
      using assms [rule_format, of k] by auto
    then show ?case using Cons.IH [of "Suc k"] Cons.prems by simp
  qed simp
  have "isl (fst r) \<Longrightarrow> False"
    using r(1) assms by (metis Inl_Inr_False add_gr_0 zero_less_one)
  moreover have "(\<Sum>p\<leftarrow>ps. pg_Count p) = 0"
    using empty [OF ps] by (simp cong: map_cong)
  ultimately have "ps \<noteq> []" "sint (pg_TotalCount (last ps)) \<le> 0"
    using r(2) by (auto simp: int64_ge_def)
  then show False using empty [OF ps] by (meson last_in_set leD zero_less_one)
qed

section \<open>Sample brokers\<close>

definition sampleKeb :: KebConfig where
  "sampleKeb = \<lparr>keb_URL = ''b'', keb_Timeout = 1, keb_RetryCount = 1, keb_PollWaitDuration = 1\<rparr>"

definition sampleKebRequest :: keb_request where
  "sampleKebRequest = \<lparr>kr_Method = ''GET'', kr_URL = \<lparr>url_base = ''b'', url_RawQuery = []\<rparr>\<rparr>"

text \<open>A server that answers with the requested URL, which the decoder turns into a page.\<close>

definition echo :: "http_request \<Rightarrow> nat \<Rightarrow> http_result \<times> int64" where
  "echo w i = (HttpResponse 200 (Inr (req_URL w)), 0)"

definition samplePages :: "string \<Rightarrow> go_error + nat RuntimesPage" where
  "samplePages u = Inr (broker_page 2 [10, 20, 30] (if u = ''b?page=1'' then 1 else 2))"

definition emptyPages :: "string \<Rightarrow> go_error + nat RuntimesPage" where
  "emptyPages u = Inr \<lparr>pg_Data = [], pg_Count = 0, pg_TotalCount = 1\<rparr>"

lemma page_answer_sample:
  "page_answer retry_ref sampleKeb echo unmarshal sampleKebRequest k =
     (case unmarshal (''b?page='' @ show_int (sint (of_nat k :: int64))) of
        Inl err \<Rightarrow> Inl (JoinError [errors_Wrapf err ''failed to unmarshal runtimes response''])
      | Inr page \<Rightarrow> Inr page)"
  by (simp add: page_answer_def getRuntimesPerPage_def retry_ref_def sampleKeb_def sampleKebRequest_def
      keb_attempt_def echo_def wire_request_def set_page_query url_String_def Let_def case_prod_beta
      split: sum.split)

lemma show_1_2: "show_int 1 = ''1''" "show_int 2 = ''2''"
  by code_simp+

lemma sample_broker:
  "k = 1 \<or> (0 < k \<and> (k - 1) * 2 < length [10::nat, 20, 30]) \<Longrightarrow>
     page_answer retry_ref sampleKeb echo samplePages sampleKebRequest k = Inr (broker_page 2 [10, 20, 30] k)"
proof -
  assume "k = 1 \<or> (0 < k \<and> (k - 1) * 2 < length [10::nat, 20, 30])"
  then have "k = 1 \<or> k = 2" by auto
  then show ?thesis
    using show_1_2 by (auto simp: page_answer_sample samplePages_def)
qed

theorem GetAllRuntimes_complete_witness:
  "\<exists>effs. GetAllRuntimes retry_ref sampleKeb echo samplePages sampleKebRequest =
     Some (Inr \<lparr>pg_Data = [10, 20, 30], pg_Count = 3, pg_TotalCount = 3\<rparr>, effs)"
  using GetAllRuntimes_complete [of 2 "[10, 20, 30]" retry_ref sampleKeb echo samplePages sampleKebRequest]
    sample_broker by simp

theorem GetAllRuntimes_ends_witness:
  "\<exists>result effs. GetAllRuntimes retry_ref sampleKeb echo
       (\<lambda>_. Inr \<lparr>pg_Data = [7::nat], pg_Count = 1, pg_TotalCount = 5\<rparr>) sampleKebRequest = Some (result, effs) \<and>
     length (posts effs) \<le> 5"
  using GetAllRuntimes_ends [of retry_ref sampleKeb 5 1 echo
      "\<lambda>_. Inr \<lparr>pg_Data = [7::nat], pg_Count = 1, pg_TotalCount = 5\<rparr>" sampleKebRequest] ref_retry.retrier_axioms
  by (auto simp: page_answer_sample) (auto simp: sampleKeb_def)

theorem GetAllRuntimes_all_or_nothing_witness:
  "\<exists>effs ps. GetAllRuntimes retry_ref sampleKeb echo samplePages sampleKebRequest =
       Some (Inr \<lparr>pg_Data = [10, 20, 30], pg_Count = 3, pg_TotalCount = 3\<rparr>, effs) \<and>
     pages_from (page_answer retry_ref sampleKeb echo samplePages sampleKebRequest) 1 ps \<and>
     concat (map pg_Data ps) = [10, 20, 30]"
proof -
  obtain effs where run: "GetAllRuntimes retry_ref sampleKeb echo samplePages sampleKebRequest =
       Some (Inr \<lparr>pg_Data = [10, 20, 30], pg_Count = 3, pg_TotalCount = 3\<rparr>, effs)"
    using keb_loop_pages [OF sample_broker, where j = 0 and e = "[]"] by (auto simp: GetAllRuntimes_def)
  show ?thesis using GetAllRuntimes_all_or_nothing [OF run] run by auto
qed

theorem GetAllRuntimes_empty_pages_diverge_witness:
  "GetAllRuntimes retry_ref sampleKeb echo emptyPages sampleKebRequest = None"
  using GetAllRuntimes_empty_pages_diverge [of retry_ref sampleKeb echo emptyPages sampleKebRequest]
  by (simp add: page_answer_sample emptyPages_def)

end
