(* ===== verification/RuntimeClients.thy ===== *)
theory RuntimeClients
  imports Prelude
begin

text \<open>
  \<^verbatim>\<open>src/pkg/runtime/clients.go\<close> and \<^verbatim>\<open>src/pkg/runtime/interfaces.go\<close>: the Kubernetes clients of a cluster, all made
  over one HTTP client, the methods that hand them out, the interface by which the scanners see them, and the
  factory the workers use.
\<close>

section \<open>Interfaces\<close>

text \<open>
  A value of an interface is the record of what its methods answer. Closing the connections is an effect, of
  type \<open>'e\<close>; for the clients of the program it is the HTTP client whose idle connections are closed.
\<close>

record ('meta, 'core, 'vs, 'dyn) Interface =
  if_Metadata :: 'meta
  if_K8s :: 'core
  if_VolumeSnapshot :: 'vs
  if_Dynamic :: 'dyn

record 'e ConnectionCloser =
  cc_CloseConnections :: 'e

record ('meta, 'core, 'vs, 'dyn, 'e) InterfaceCloser =
  ic_Interface :: "('meta, 'core, 'vs, 'dyn) Interface"
  ic_ConnectionCloser :: "'e ConnectionCloser"

record ('cfg, 'meta, 'core, 'vs, 'dyn, 'e) ClientFactory =
  cf_NewClients :: "'cfg \<Rightarrow> go_error + ('meta, 'core, 'vs, 'dyn, 'e) InterfaceCloser"

text \<open>What identifies a kind of objects to the metadata and the dynamic client; the namespace that means all.\<close>

record GroupVersionResource =
  gvr_Group :: string
  gvr_Version :: string
  gvr_Resource :: string

definition NamespaceAll :: string where
  "NamespaceAll = []"

section \<open>Clients of a cluster\<close>

record ('http, 'core, 'meta, 'dyn, 'vs) Clients =
  cs_metadata :: 'meta
  cs_core :: 'core
  cs_volumeSnapshot :: 'vs
  cs_dynamic :: 'dyn
  cs_client :: 'http

text \<open>The constructors of the Kubernetes client libraries, and the proxy setting of the configuration.\<close>

record ('cfg, 'http, 'core, 'meta, 'dyn, 'vs) client_libs =
  cl_ProxyFromEnvironment :: "'cfg \<Rightarrow> 'cfg"
  cl_HTTPClientFor :: "'cfg \<Rightarrow> go_error + 'http"
  cl_core :: "'cfg \<Rightarrow> 'http \<Rightarrow> go_error + 'core"
  cl_metadata :: "'cfg \<Rightarrow> 'http \<Rightarrow> go_error + 'meta"
  cl_dynamic :: "'cfg \<Rightarrow> 'http \<Rightarrow> go_error + 'dyn"
  cl_volumeSnapshot :: "'cfg \<Rightarrow> 'http \<Rightarrow> go_error + 'vs"

definition NewClients ::
  "('cfg, 'http, 'core, 'meta, 'dyn, 'vs) client_libs \<Rightarrow> 'cfg
   \<Rightarrow> go_error + ('http, 'core, 'meta, 'dyn, 'vs) Clients" where
  "NewClients libs config =
     (let config = cl_ProxyFromEnvironment libs config
      in case cl_HTTPClientFor libs config of
           Inl err \<Rightarrow> Inl err
         | Inr cl \<Rightarrow>
            (case cl_core libs config cl of
               Inl err \<Rightarrow> Inl err
             | Inr core \<Rightarrow>
                (case cl_metadata libs config cl of
                   Inl err \<Rightarrow> Inl err
                 | Inr meta \<Rightarrow>
                    (case cl_dynamic libs config cl of
                       Inl err \<Rightarrow> Inl err
                     | Inr dyn \<Rightarrow>
                        (case cl_volumeSnapshot libs config cl of
                           Inl err \<Rightarrow> Inl err
                         | Inr volumeSnapshot \<Rightarrow>
                             Inr \<lparr>cs_metadata = meta, cs_core = core, cs_volumeSnapshot = volumeSnapshot,
                                  cs_dynamic = dyn, cs_client = cl\<rparr>)))))"

text \<open>The factory has no state.\<close>

datatype ClientsFactory = ClientsFactory

definition NewClientsFactory :: ClientsFactory where
  "NewClientsFactory = ClientsFactory"

definition factory_NewClients ::
  "('cfg, 'http, 'core, 'meta, 'dyn, 'vs) client_libs \<Rightarrow> ClientsFactory \<Rightarrow> 'cfg
   \<Rightarrow> go_error + ('http, 'core, 'meta, 'dyn, 'vs) Clients" where
  "factory_NewClients libs r config = NewClients libs config"

definition Metadata :: "('http, 'core, 'meta, 'dyn, 'vs) Clients \<Rightarrow> 'meta" where
  "Metadata r = cs_metadata r"

definition K8s :: "('http, 'core, 'meta, 'dyn, 'vs) Clients \<Rightarrow> 'core" where
  "K8s r = cs_core r"

definition VolumeSnapshot :: "('http, 'core, 'meta, 'dyn, 'vs) Clients \<Rightarrow> 'vs" where
  "VolumeSnapshot r = cs_volumeSnapshot r"

definition Dynamic :: "('http, 'core, 'meta, 'dyn, 'vs) Clients \<Rightarrow> 'dyn" where
  "Dynamic r = cs_dynamic r"

text \<open>\<open>closeIdle\<close> is the method \<open>CloseIdleConnections\<close> of the HTTP client that all clients share.\<close>

definition Clients_CloseConnections :: "('http \<Rightarrow> 'e) \<Rightarrow> ('http, 'core, 'meta, 'dyn, 'vs) Clients \<Rightarrow> 'e" where
  "Clients_CloseConnections closeIdle r = closeIdle (cs_client r)"

text \<open>The clients as the interfaces see them: \<open>*Clients\<close> has the methods of both, \<open>*ClientsFactory\<close> those of a factory.\<close>

definition Clients_Interface :: "('http, 'core, 'meta, 'dyn, 'vs) Clients \<Rightarrow> ('meta, 'core, 'vs, 'dyn) Interface" where
  "Clients_Interface r = \<lparr>if_Metadata = Metadata r, if_K8s = K8s r, if_VolumeSnapshot = VolumeSnapshot r, if_Dynamic = Dynamic r\<rparr>"

definition Clients_InterfaceCloser ::
  "('http \<Rightarrow> 'e) \<Rightarrow> ('http, 'core, 'meta, 'dyn, 'vs) Clients \<Rightarrow> ('meta, 'core, 'vs, 'dyn, 'e) InterfaceCloser" where
  "Clients_InterfaceCloser closeIdle r =
     \<lparr>ic_Interface = Clients_Interface r, ic_ConnectionCloser = \<lparr>cc_CloseConnections = Clients_CloseConnections closeIdle r\<rparr>\<rparr>"

definition ClientsFactory_ClientFactory ::
  "('cfg, 'http, 'core, 'meta, 'dyn, 'vs) client_libs \<Rightarrow> ('http \<Rightarrow> 'e) \<Rightarrow> ClientsFactory
   \<Rightarrow> ('cfg, 'meta, 'core, 'vs, 'dyn, 'e) ClientFactory" where
  "ClientsFactory_ClientFactory libs closeIdle r =
     \<lparr>cf_NewClients = \<lambda>config. map_sum (\<lambda>e. e) (Clients_InterfaceCloser closeIdle) (factory_NewClients libs r config)\<rparr>"

text \<open>
  The proxy of the environment is set before anything is made, and every client shares the HTTP client.
\<close>

lemma NewClients_Inr:
  "NewClients libs config = Inr c \<longleftrightarrow>
     (let config = cl_ProxyFromEnvironment libs config
      in cl_HTTPClientFor libs config = Inr (cs_client c) \<and>
         cl_core libs config (cs_client c) = Inr (cs_core c) \<and>
         cl_metadata libs config (cs_client c) = Inr (cs_metadata c) \<and>
         cl_dynamic libs config (cs_client c) = Inr (cs_dynamic c) \<and>
         cl_volumeSnapshot libs config (cs_client c) = Inr (cs_volumeSnapshot c))"
  by (cases c) (auto simp: NewClients_def Let_def split: sum.split)

text \<open>Closing the connections of the clients closes those over which all of them were made.\<close>

lemma factory_closes_all:
  assumes "cf_NewClients (ClientsFactory_ClientFactory libs closeIdle r) config = Inr c"
  shows "let config = cl_ProxyFromEnvironment libs config; i = ic_Interface c
         in \<exists>http. cl_HTTPClientFor libs config = Inr http \<and> cc_CloseConnections (ic_ConnectionCloser c) = closeIdle http \<and>
              cl_core libs config http = Inr (if_K8s i) \<and> cl_metadata libs config http = Inr (if_Metadata i) \<and>
              cl_dynamic libs config http = Inr (if_Dynamic i) \<and> cl_volumeSnapshot libs config http = Inr (if_VolumeSnapshot i)"
proof -
  obtain cl where cl: "factory_NewClients libs r config = Inr cl" and c: "c = Clients_InterfaceCloser closeIdle cl"
    using assms by (cases "factory_NewClients libs r config") (auto simp: ClientsFactory_ClientFactory_def)
  show ?thesis
    using cl unfolding c
    by (simp add: factory_NewClients_def NewClients_Inr Clients_InterfaceCloser_def Clients_Interface_def
        Clients_CloseConnections_def K8s_def Metadata_def Dynamic_def VolumeSnapshot_def Let_def)
qed

end
