(* ===== verification/Resource.thy ===== *)
theory Resource
  imports RuntimeModel RuntimeClients
begin

text \<open>
  \<^verbatim>\<open>src/pkg/resource/structures.go\<close> and \<^verbatim>\<open>src/pkg/resource/interface.go\<close>: the measurement a scan is
  converted to, the scanner interface, and the lemmas on sums the four resources share. The
  conversion of a scan may return an error together with a partial measurement, so it is a pair;
  a scan that fails returns no scan, so it is a sum.
\<close>

section \<open>Measurements\<close>

record VMType =
  vm_Name :: string
  vm_Count :: int64

record ProvisionedVolumes =
  SizeGbTotal :: int64
  pvol_Count :: int64
  SizeGbRounded :: int64

record EDPMeasurement =
  VMTypes :: "VMType list"
  ProvisionedCPUs :: float64
  ProvisionedRAMGb :: float64
  edp_ProvisionedVolumes :: ProvisionedVolumes

datatype UMMeasurement = UMMeasurement

text \<open>The literal \<open>EDPMeasurement{}\<close>.\<close>

definition zeroVolumes :: ProvisionedVolumes where
  "zeroVolumes = \<lparr>SizeGbTotal = 0, pvol_Count = 0, SizeGbRounded = 0\<rparr>"

definition zeroEDP :: EDPMeasurement where
  "zeroEDP = \<lparr>VMTypes = [], ProvisionedCPUs = Fin 0, ProvisionedRAMGb = Fin 0,
              edp_ProvisionedVolumes = zeroVolumes\<rparr>"

text \<open>The three statements that add one volume to the totals of a measurement.\<close>

definition add_volume :: "int64 \<Rightarrow> int64 \<Rightarrow> EDPMeasurement \<Rightarrow> EDPMeasurement" where
  "add_volume gb rounded edp =
     (let v = edp_ProvisionedVolumes edp
      in edp\<lparr>edp_ProvisionedVolumes :=
           v\<lparr>SizeGbTotal := SizeGbTotal v + gb,
             SizeGbRounded := SizeGbRounded v + rounded,
             pvol_Count := pvol_Count v + 1\<rparr>\<rparr>)"

section \<open>Scanner interface\<close>

text \<open>
  A scanner has an identifier and a \<open>Scan\<close> method on the runtime info and the cluster's clients;
  a scan has the conversions \<open>EDP\<close> and \<open>UM\<close>.
\<close>

record ('cl, 's) Scanner =
  sc_ID :: ScannerID
  sc_Scan :: "Info \<Rightarrow> 'cl \<Rightarrow> go_error + 's"

record UMMeasurementConverter =
  umc_UM :: "int64 \<Rightarrow> UMMeasurement \<times> go_error option"

record EDPMeasurementConverter =
  edpc_EDP :: "EDPMeasurement \<times> go_error option"

record ScanConverter =
  scv_UM :: UMMeasurementConverter
  scv_EDP :: EDPMeasurementConverter

text \<open>The components are generic in the type of scans and take the conversion \<open>EDP\<close> as a function of them.\<close>

type_synonym 's edp_conv = "'s \<Rightarrow> EDPMeasurement \<times> go_error option"

section \<open>Volume totals\<close>

text \<open>
  The volumes found in a list of items: what each contributes is a pair of its size and the size
  rounded for billing, or nothing.
\<close>

fun volumes_of :: "('a \<Rightarrow> (int64 \<times> int64) option) \<Rightarrow> 'a list \<Rightarrow> (int64 \<times> int64) list" where
  "volumes_of f [] = []"
| "volumes_of f (x # xs) = (case f x of None \<Rightarrow> volumes_of f xs | Some v \<Rightarrow> v # volumes_of f xs)"

definition volumes_total :: "(int64 \<times> int64) list \<Rightarrow> ProvisionedVolumes" where
  "volumes_total vs = \<lparr>SizeGbTotal = (\<Sum>v\<leftarrow>vs. fst v), pvol_Count = of_nat (length vs),
                      SizeGbRounded = (\<Sum>v\<leftarrow>vs. snd v)\<rparr>"

definition plus_volumes :: "ProvisionedVolumes \<Rightarrow> ProvisionedVolumes \<Rightarrow> ProvisionedVolumes" where
  "plus_volumes a b = \<lparr>SizeGbTotal = SizeGbTotal a + SizeGbTotal b,
                      pvol_Count = pvol_Count a + pvol_Count b,
                      SizeGbRounded = SizeGbRounded a + SizeGbRounded b\<rparr>"

named_theorems volume_simps \<open>accumulating volumes in a measurement\<close>

lemma volumes_of_conv: "volumes_of f xs = map (the \<circ> f) (filter (\<lambda>x. f x \<noteq> None) xs)"
  by (induction xs) (auto split: option.split)

lemma plus_volumes_zero [simp]: "plus_volumes zeroVolumes v = v" "plus_volumes v zeroVolumes = v"
  by (simp_all add: plus_volumes_def zeroVolumes_def)

lemma plus_volumes_assoc: "plus_volumes (plus_volumes a b) c = plus_volumes a (plus_volumes b c)"
  by (simp add: plus_volumes_def add.assoc)

lemma volumes_total_Nil [simp]: "volumes_total [] = zeroVolumes"
  by (simp add: volumes_total_def zeroVolumes_def)

lemma volumes_total_append:
  "volumes_total (xs @ ys) = plus_volumes (volumes_total xs) (volumes_total ys)"
  by (simp add: volumes_total_def plus_volumes_def)

lemma add_volume_volumes [volume_simps]:
  "edp_ProvisionedVolumes (add_volume t r e)
     = plus_volumes (edp_ProvisionedVolumes e) (volumes_total [(t, r)])"
  "VMTypes (add_volume t r e) = VMTypes e"
  "ProvisionedCPUs (add_volume t r e) = ProvisionedCPUs e"
  "ProvisionedRAMGb (add_volume t r e) = ProvisionedRAMGb e"
  by (simp_all add: add_volume_def plus_volumes_def volumes_total_def Let_def)

text \<open>
  A loop that adds the contribution of each item, and changes nothing else of the measurement,
  ends with the totals of all contributions.
\<close>

lemma foldl_add_volume:
  "foldl (\<lambda>e x. case f x of None \<Rightarrow> e | Some v \<Rightarrow> add_volume (fst v) (snd v) e) e0 xs
     = e0\<lparr>edp_ProvisionedVolumes :=
            plus_volumes (edp_ProvisionedVolumes e0) (volumes_total (volumes_of f xs))\<rparr>"
proof (induction xs arbitrary: e0)
  case Nil
  then show ?case by simp
next
  case (Cons x xs)
  show ?case
  proof (cases "f x")
    case None
    then show ?thesis using Cons by simp
  next
    case (Some v)
    let ?e = "add_volume (fst v) (snd v) e0" and ?t = "volumes_total (volumes_of f xs)"
    have t: "volumes_total (volumes_of f (x # xs)) = plus_volumes (volumes_total [v]) ?t"
      using Some volumes_total_append [of "[v]" "volumes_of f xs"] by simp
    have e: "?e\<lparr>edp_ProvisionedVolumes := w\<rparr> = e0\<lparr>edp_ProvisionedVolumes := w\<rparr>" for w
      by (simp add: add_volume_def Let_def)
    show ?thesis
      unfolding foldl_Cons Some option.case Cons t e add_volume_volumes prod.collapse
      by (simp only: plus_volumes_assoc)
  qed
qed

text \<open>Billing rounds up: bounds of the rounded sum that follow from bounds of each volume.\<close>

lemma volumes_rounding_bounds:
  assumes "\<forall>v \<in> set vs. 0 \<le> sint (fst v) \<and> sint (fst v) \<le> sint (snd v) \<and> sint (snd v) \<le> sint (fst v) + 31"
    and "(\<Sum>v\<leftarrow>vs. sint (fst v) + 31) < 2 ^ 63"
  shows "sint (SizeGbTotal (volumes_total vs)) = (\<Sum>v\<leftarrow>vs. sint (fst v))"
    and "sint (SizeGbRounded (volumes_total vs)) = (\<Sum>v\<leftarrow>vs. sint (snd v))"
    and "(\<Sum>v\<leftarrow>vs. sint (fst v)) \<le> (\<Sum>v\<leftarrow>vs. sint (snd v))"
    and "(\<Sum>v\<leftarrow>vs. sint (snd v)) \<le> (\<Sum>v\<leftarrow>vs. sint (fst v)) + 31 * int (length vs)"
proof -
  have of_sum: "(\<Sum>v\<leftarrow>vs. g v) = (word_of_int (\<Sum>v\<leftarrow>vs. sint (g v)) :: int64)" for g :: "_ \<Rightarrow> int64"
    by (induction vs) (simp_all add: wi_hom_add [symmetric])
  have pos: "0 \<le> (\<Sum>v\<leftarrow>vs. sint (fst v))"
    using assms(1) by (auto intro!: sum_list_nonneg)
  show le: "(\<Sum>v\<leftarrow>vs. sint (fst v)) \<le> (\<Sum>v\<leftarrow>vs. sint (snd v))"
    using assms(1) by (auto intro!: sum_list_mono)
  have up: "(\<Sum>v\<leftarrow>vs. sint (snd v)) \<le> (\<Sum>v\<leftarrow>vs. sint (fst v) + 31)"
    using assms(1) by (auto intro!: sum_list_mono)
  also have "\<dots> = (\<Sum>v\<leftarrow>vs. sint (fst v)) + 31 * int (length vs)"
    by (induction vs) simp_all
  finally show "(\<Sum>v\<leftarrow>vs. sint (snd v)) \<le> (\<Sum>v\<leftarrow>vs. sint (fst v)) + 31 * int (length vs)" .
  have lim: "(\<Sum>v\<leftarrow>vs. sint (snd v)) < 2 ^ 63" using up assms(2) by linarith
  show "sint (SizeGbTotal (volumes_total vs)) = (\<Sum>v\<leftarrow>vs. sint (fst v))"
    unfolding volumes_total_def ProvisionedVolumes.select_convs of_sum
    by (rule sint_of_int_64) (use pos le lim in linarith)+
  show "sint (SizeGbRounded (volumes_total vs)) = (\<Sum>v\<leftarrow>vs. sint (snd v))"
    unfolding volumes_total_def ProvisionedVolumes.select_convs of_sum
    by (rule sint_of_int_64) (use pos le lim in linarith)+
qed

end
