(* ===== verification/EdpClient.thy ===== *)
theory EdpClient
  imports Retry Resource Logging
begin

text \<open>
  \<^verbatim>\<open>src/pkg/collector/edp/client.go\<close>, \<^verbatim>\<open>config.go\<close> and \<^verbatim>\<open>payload.go\<close>: the event a cluster is billed by,
  and the client that posts it to the Event Data Platform with retries.
\<close>

section \<open>Client\<close>

record EdpConfig =
  edp_URL :: string
  edp_Namespace :: string
  edp_DataStreamName :: string
  edp_DataStreamVersion :: string
  edp_DataStreamEnv :: string
  edp_Timeout :: int64
  edp_EventRetry :: int64
  edp_Token :: string

record edp_Client =
  ecl_HttpClient :: http_client
  ecl_Config :: EdpConfig
  ecl_Logger :: Logger

definition edp_NewClient :: "EdpConfig \<Rightarrow> Logger \<Rightarrow> edp_Client" where
  "edp_NewClient config logger =
     \<lparr>ecl_HttpClient = \<lparr>hc_Timeout = edp_Timeout config\<rparr>, ecl_Config = config, ecl_Logger = logger\<rparr>"

lemma edp_NewClient_sel [simp]: "ecl_Config (edp_NewClient config logger) = config"
  by (simp add: edp_NewClient_def)

definition edp_clientName :: string where
  "edp_clientName = ''edp-client''"

definition edp_namedLogger :: "edp_Client \<Rightarrow> Logger" where
  "edp_namedLogger c = With ''component'' ''EDP'' (Named edp_clientName (ecl_Logger c))"

text \<open>The methods below use the configuration of the client only.\<close>

definition tenantIdPlaceholder :: string where
  "tenantIdPlaceholder = ''<subAccountId>''"

definition edpPathFormat :: string where
  "edpPathFormat = ''%s/namespaces/%s/dataStreams/%s/%s/dataTenants/%s/%s/events''"

definition contentType :: string where "contentType = ''application/json;charset=utf-8''"
definition userAgentKMC :: string where "userAgentKMC = ''kyma-metrics-collector''"
definition userAgentKeyHeader :: string where "userAgentKeyHeader = ''User-Agent''"
definition contentTypeKeyHeader :: string where "contentTypeKeyHeader = ''Content-Type''"
definition authorizationKeyHeader :: string where "authorizationKeyHeader = ''Authorization''"

definition getEDPURL :: "EdpConfig \<Rightarrow> string \<Rightarrow> string" where
  "getEDPURL c dataTenant =
     Sprintf_s edpPathFormat
       [edp_URL c, edp_Namespace c, edp_DataStreamName c, edp_DataStreamVersion c, dataTenant, edp_DataStreamEnv c]"

lemma getEDPURL_eq:
  "getEDPURL c dataTenant =
     edp_URL c @ ''/namespaces/'' @ edp_Namespace c @ ''/dataStreams/'' @ edp_DataStreamName c @ ''/''
       @ edp_DataStreamVersion c @ ''/dataTenants/'' @ dataTenant @ ''/'' @ edp_DataStreamEnv c @ ''/events''"
  by (simp add: getEDPURL_def edpPathFormat_def)

text \<open>
  \<open>newRequest\<close> stands for the validation \<open>http.NewRequest\<close> does: the error for a method and a URL,
  if any.
\<close>

definition edp_NewRequest ::
  "(string \<Rightarrow> string \<Rightarrow> go_error option) \<Rightarrow> EdpConfig \<Rightarrow> string \<Rightarrow> go_error + http_request" where
  "edp_NewRequest newRequest c dataTenant =
     (let edpURL = getEDPURL c dataTenant
      in case newRequest ''POST'' edpURL of
           Some err \<Rightarrow> Inl (ErrorString (''failed generate request for EDP, 400: '' @ err_msg err))
         | None \<Rightarrow> Inr \<lparr>req_Method = ''POST'', req_URL = edpURL,
             req_Header = [(userAgentKeyHeader, userAgentKMC), (contentTypeKeyHeader, contentType),
                           (authorizationKeyHeader, ''Bearer '' @ edp_Token c)]\<rparr>)"

text \<open>
  One attempt of \<open>Send\<close>: the exchange \<open>httpDo\<close> of this attempt gives a result and a duration. The
  outcome is the status of a response that created the event, an error otherwise.
\<close>

definition edp_status_error :: "int \<Rightarrow> go_error" where
  "edp_status_error status =
     ErrorString (''failed to send event stream as EDP returned HTTP: '' @ show_int status)"

definition edp_attempt ::
  "EdpConfig \<Rightarrow> (http_request \<Rightarrow> string \<Rightarrow> nat \<Rightarrow> http_result \<times> int64) \<Rightarrow> http_request \<Rightarrow> string
   \<Rightarrow> nat \<Rightarrow> (go_error + int) \<times> effect list" where
  "edp_attempt c httpDo req body i =
     (case httpDo req body i of
        (TransportError timeout err, duration) \<Rightarrow>
          (Inl err, [HttpSend req body,
             Metric (recordEDPLatency duration (transport_status timeout) (getEDPURL c tenantIdPlaceholder))])
      | (HttpResponse status _, duration) \<Rightarrow>
          ((if status \<noteq> 201 then Inl (edp_status_error status) else Inr status),
           [HttpSend req body,
            Metric (recordEDPLatency duration status (getEDPURL c tenantIdPlaceholder))]))"

definition edp_Send ::
  "int retry_fn \<Rightarrow> EdpConfig \<Rightarrow> (http_request \<Rightarrow> string \<Rightarrow> nat \<Rightarrow> http_result \<times> int64)
   \<Rightarrow> http_request \<Rightarrow> string \<Rightarrow> (go_error + int) \<times> effect list" where
  "edp_Send retryDo c httpDo req body =
     (let attempt = edp_attempt c httpDo req body;
          (result, n) = retryDo (edp_EventRetry c) (\<lambda>i. fst (attempt i))
      in ((case result of
             Inl err \<Rightarrow> Inl (errors_Wrapf err ''failed to POST event to EDP'')
           | Inr resp \<Rightarrow> Inr resp),
          concat (map (\<lambda>i. snd (attempt i)) [0..<n])))"

section \<open>Payload\<close>

text \<open>\<open>Networking\<close> is a pointer, which the program never sets.\<close>

record networking =
  ProvisionedVnets :: int64
  ProvisionedIPs :: int64

record payload =
  pl_RuntimeID :: string
  pl_SubAccountID :: string
  pl_ShootName :: string
  pl_Timestamp :: string
  pl_Compute :: EDPMeasurement
  pl_Networking :: "networking option"

definition aggregate_step :: "EDPMeasurement \<Rightarrow> EDPMeasurement \<Rightarrow> EDPMeasurement" where
  "aggregate_step a m =
     a\<lparr>VMTypes := VMTypes a @ VMTypes m,
       ProvisionedCPUs := f64_add (ProvisionedCPUs a) (ProvisionedCPUs m),
       ProvisionedRAMGb := f64_add (ProvisionedRAMGb a) (ProvisionedRAMGb m),
       edp_ProvisionedVolumes :=
         (edp_ProvisionedVolumes a)
           \<lparr>SizeGbTotal := SizeGbTotal (edp_ProvisionedVolumes a) + SizeGbTotal (edp_ProvisionedVolumes m),
            pvol_Count := pvol_Count (edp_ProvisionedVolumes a) + pvol_Count (edp_ProvisionedVolumes m),
            SizeGbRounded := SizeGbRounded (edp_ProvisionedVolumes a)
                               + SizeGbRounded (edp_ProvisionedVolumes m)\<rparr>\<rparr>"

definition aggregateEDPMeasurements :: "EDPMeasurement list \<Rightarrow> EDPMeasurement" where
  "aggregateEDPMeasurements ms = foldl aggregate_step zeroEDP ms"

definition newPayload ::
  "string \<Rightarrow> string \<Rightarrow> string \<Rightarrow> string \<Rightarrow> EDPMeasurement list \<Rightarrow> payload" where
  "newPayload runtimeID subAccountID shootName timeStamp ms =
     \<lparr>pl_RuntimeID = runtimeID, pl_SubAccountID = subAccountID, pl_ShootName = shootName,
      pl_Timestamp = timeStamp, pl_Compute = aggregateEDPMeasurements ms, pl_Networking = None\<rparr>"

section \<open>Correctness of the payload\<close>

text \<open>What a measurement contributes to the totals that do not depend on the order of addition.\<close>

definition volumes_sum :: "EDPMeasurement list \<Rightarrow> ProvisionedVolumes" where
  "volumes_sum ms = \<lparr>SizeGbTotal = (\<Sum>m\<leftarrow>ms. SizeGbTotal (edp_ProvisionedVolumes m)),
     pvol_Count = (\<Sum>m\<leftarrow>ms. pvol_Count (edp_ProvisionedVolumes m)),
     SizeGbRounded = (\<Sum>m\<leftarrow>ms. SizeGbRounded (edp_ProvisionedVolumes m))\<rparr>"

lemma foldl_aggregate:
  "foldl aggregate_step a ms =
     a\<lparr>VMTypes := VMTypes a @ concat (map VMTypes ms),
       ProvisionedCPUs := foldl f64_add (ProvisionedCPUs a) (map ProvisionedCPUs ms),
       ProvisionedRAMGb := foldl f64_add (ProvisionedRAMGb a) (map ProvisionedRAMGb ms),
       edp_ProvisionedVolumes := plus_volumes (edp_ProvisionedVolumes a) (volumes_sum ms)\<rparr>"
  by (induction ms arbitrary: a) (simp_all add: aggregate_step_def plus_volumes_def volumes_sum_def add.assoc)

lemma aggregate_parts:
  "VMTypes (aggregateEDPMeasurements ms) = concat (map VMTypes ms)"
  "ProvisionedCPUs (aggregateEDPMeasurements ms) = foldl f64_add (Fin 0) (map ProvisionedCPUs ms)"
  "ProvisionedRAMGb (aggregateEDPMeasurements ms) = foldl f64_add (Fin 0) (map ProvisionedRAMGb ms)"
  "edp_ProvisionedVolumes (aggregateEDPMeasurements ms) = volumes_sum ms"
  by (simp_all add: aggregateEDPMeasurements_def foldl_aggregate zeroEDP_def plus_volumes_def
      zeroVolumes_def volumes_sum_def)

lemma volumes_sum_perm: "mset ms = mset ms' \<Longrightarrow> volumes_sum ms = volumes_sum ms'"
proof -
  assume m: "mset ms = mset ms'"
  have "(\<Sum>x\<leftarrow>ms. g x) = (\<Sum>x\<leftarrow>ms'. g x)" for g :: "EDPMeasurement \<Rightarrow> int64"
    using m by (metis mset_map sum_mset_sum_list)
  then show ?thesis by (simp add: volumes_sum_def)
qed

text \<open>
  C21: the order in which the measurements of a cluster are aggregated does not matter for what is
  billed: volume totals, volume count, rounded volumes and the multiset of machine types are the
  same for every permutation, and so are CPUs and memory when they are multiples of one power of two
  whose sum has at most 53 bits.
\<close>

theorem aggregate_order_irrelevant:
  assumes "mset ms = mset ms'"
    and "\<forall>m \<in> set ms. 0 \<le> c m \<and> 0 \<le> r m \<and> ProvisionedCPUs m = Fin (of_int (c m) * 2 powi e) \<and>
           ProvisionedRAMGb m = Fin (of_int (r m) * 2 powi e)"
    and "- 1074 \<le> e" and "e \<le> 970"
    and "(\<Sum>m\<leftarrow>ms. c m) \<le> 2 ^ 53" and "(\<Sum>m\<leftarrow>ms. r m) \<le> 2 ^ 53"
  shows "let a = aggregateEDPMeasurements ms; b = aggregateEDPMeasurements ms'
         in edp_ProvisionedVolumes a = edp_ProvisionedVolumes b \<and>
            mset (VMTypes a) = mset (VMTypes b) \<and>
            ProvisionedCPUs a = ProvisionedCPUs b \<and> ProvisionedRAMGb a = ProvisionedRAMGb b"
proof -
  have set: "set ms' = set ms" using assms(1) by (metis set_mset_mset)
  have sums: "(\<Sum>m\<leftarrow>ms. g m) = (\<Sum>m\<leftarrow>ms'. g m)" for g :: "EDPMeasurement \<Rightarrow> int"
    using assms(1) by (metis mset_map sum_mset_sum_list)
  have "mset (concat (map VMTypes ms)) = mset (concat (map VMTypes ms'))"
    using assms(1) by (metis mset_concat mset_map sum_mset_sum_list)
  moreover have "foldl f64_add (Fin 0) (map ProvisionedCPUs ms) = foldl f64_add (Fin 0) (map ProvisionedCPUs ms')"
    using f64_sum_map [of ms c ProvisionedCPUs e] f64_sum_map [of ms' c ProvisionedCPUs e] assms sums [of c] set
    by simp
  moreover have "foldl f64_add (Fin 0) (map ProvisionedRAMGb ms) = foldl f64_add (Fin 0) (map ProvisionedRAMGb ms')"
    using f64_sum_map [of ms r ProvisionedRAMGb e] f64_sum_map [of ms' r ProvisionedRAMGb e] assms sums [of r] set
    by simp
  ultimately show ?thesis
    by (simp add: Let_def aggregate_parts volumes_sum_perm [OF assms(1)])
qed

theorem aggregate_order_irrelevant_witness:
  "let x = zeroEDP\<lparr>ProvisionedCPUs := Fin 2\<rparr>; y = zeroEDP\<lparr>ProvisionedCPUs := Fin 3\<rparr>;
       a = aggregateEDPMeasurements [x, y]; b = aggregateEDPMeasurements [y, x]
   in ProvisionedCPUs a = ProvisionedCPUs b"
  using aggregate_order_irrelevant
    [of "[zeroEDP\<lparr>ProvisionedCPUs := Fin 2\<rparr>, zeroEDP\<lparr>ProvisionedCPUs := Fin 3\<rparr>]"
        "[zeroEDP\<lparr>ProvisionedCPUs := Fin 3\<rparr>, zeroEDP\<lparr>ProvisionedCPUs := Fin 2\<rparr>]"
        "\<lambda>m. if ProvisionedCPUs m = Fin 2 then 2 else 3" "\<lambda>_. 0" 0]
  by (simp add: Let_def) (simp add: zeroEDP_def)

section \<open>Correctness of the client\<close>

fun metric_calls :: "effect list \<Rightarrow> metric_call list" where
  "metric_calls [] = []"
| "metric_calls (HttpSend _ _ # es) = metric_calls es"
| "metric_calls (Metric c # es) = c # metric_calls es"
| "metric_calls (CloseConnections # es) = metric_calls es"

lemma metric_calls_append [simp]: "metric_calls (xs @ ys) = metric_calls xs @ metric_calls ys"
  by (induction xs rule: metric_calls.induct) simp_all

lemma metric_calls_Metric [simp]: "metric_calls (map Metric cs) = cs"
  by (induction cs) simp_all

lemma posts_attempt [simp]: "posts (snd (edp_attempt c httpDo req body i)) = [(req, body)]"
  by (auto simp: edp_attempt_def split: prod.split http_result.split)

lemma posts_attempts:
  "posts (concat (map (\<lambda>i. snd (edp_attempt c httpDo req body i)) is)) = replicate (length is) (req, body)"
  by (induction "is") simp_all

lemma edp_attempt_outcome:
  "isl (fst (edp_attempt c httpDo req body i)) \<longleftrightarrow> (\<forall>b. fst (httpDo req body i) \<noteq> HttpResponse 201 b)"
  "fst (edp_attempt c httpDo req body i) = Inr st \<Longrightarrow> st = 201"
  by (cases "httpDo req body i"; cases "fst (httpDo req body i)";
      auto simp: edp_attempt_def split: if_splits)+

lemma edp_Send_posts:
  "posts (snd (edp_Send retryDo c httpDo req body))
     = replicate (snd (retryDo (edp_EventRetry c) (\<lambda>i. fst (edp_attempt c httpDo req body i)))) (req, body)"
  by (simp add: edp_Send_def Let_def case_prod_beta posts_attempts)

lemma edp_Send_result:
  "isl (fst (edp_Send retryDo c httpDo req body))
     \<longleftrightarrow> isl (fst (retryDo (edp_EventRetry c) (\<lambda>i. fst (edp_attempt c httpDo req body i))))"
  "fst (edp_Send retryDo c httpDo req body) = Inr st
     \<longleftrightarrow> fst (retryDo (edp_EventRetry c) (\<lambda>i. fst (edp_attempt c httpDo req body i))) = Inr st"
  by (auto simp: edp_Send_def Let_def case_prod_beta split: sum.split)

text \<open>
  C20: with a positive number of attempts configured, an event is posted again and again, each time
  with the same request and body, until EDP answers 201 or the attempts are used up, and never after
  a 201; the client reports success exactly when some attempt within the limit was answered 201.
\<close>

theorem edp_Send_attempts:
  assumes "retrier retryDo" and "0 < unat (edp_EventRetry c)"
  shows "let (result, effs) = edp_Send retryDo c httpDo req body;
             limit = unat (edp_EventRetry c);
             created = (\<lambda>i. \<exists>b. fst (httpDo req body i) = HttpResponse 201 b);
             n = length (posts effs)
         in posts effs = replicate n (req, body) \<and> 0 < n \<and> n \<le> limit \<and>
            (\<forall>i. Suc i < n \<longrightarrow> \<not> created i) \<and>
            (result = Inr 201 \<longleftrightarrow> created (n - 1)) \<and>
            (isl result \<longleftrightarrow> n = limit \<and> \<not> created (n - 1))"
proof -
  let ?f = "\<lambda>i. fst (edp_attempt c httpDo req body i)"
  note r = retrier.retry_cases [OF assms(1), OF assms(2), of ?f]
  show ?thesis
  proof (rule r)
    fix i st
    assume i: "i < unat (edp_EventRetry c)" "\<forall>j<i. isl (?f j)" "?f i = Inr st"
      "retryDo (edp_EventRetry c) ?f = (Inr st, Suc i)"
    have "\<not> isl (?f i)" using i(3) by simp
    then have "\<exists>b. fst (httpDo req body i) = HttpResponse 201 b" by (simp add: edp_attempt_outcome(1))
    with i edp_attempt_outcome(2) [OF i(3)] show ?thesis
      by (simp add: case_prod_beta Let_def edp_Send_posts edp_Send_result edp_attempt_outcome(1))
        (metis One_nat_def diff_Suc_1)
  next
    fix e
    assume f: "\<forall>j<unat (edp_EventRetry c). isl (?f j)"
      "retryDo (edp_EventRetry c) ?f = (Inl e, unat (edp_EventRetry c))"
    with assms(2) show ?thesis
      by (simp add: case_prod_beta Let_def edp_Send_posts edp_Send_result edp_attempt_outcome(1))
  qed
qed

theorem edp_Send_attempts_witness:
  "let c = \<lparr>edp_URL = ''u'', edp_Namespace = ''n'', edp_DataStreamName = ''d'', edp_DataStreamVersion = ''1'',
            edp_DataStreamEnv = ''e'', edp_Timeout = 1, edp_EventRetry = 3, edp_Token = ''t''\<rparr>;
       req = \<lparr>req_Method = ''POST'', req_URL = ''x'', req_Header = []\<rparr>;
       httpDo = (\<lambda>_ _ i. (if i = 0 then HttpResponse 500 (Inr []) else HttpResponse 201 (Inr []), 0))
   in \<not> isl (fst (edp_Send retry_ref c httpDo req ''body''))"
  unfolding Let_def
  by (rule notI, insert edp_Send_attempts [OF ref_retry.retrier_axioms,
      of "\<lparr>edp_URL = ''u'', edp_Namespace = ''n'', edp_DataStreamName = ''d'', edp_DataStreamVersion = ''1'',
           edp_DataStreamEnv = ''e'', edp_Timeout = 1, edp_EventRetry = 3, edp_Token = ''t''\<rparr>"
         "\<lambda>_ _ i. (if i = 0 then HttpResponse 500 (Inr []) else HttpResponse 201 (Inr []), 0)"
         "\<lparr>req_Method = ''POST'', req_URL = ''x'', req_Header = []\<rparr>" "''body''"])
    (auto simp: case_prod_beta Let_def split: if_splits)

end
