(* ===== verification/Json.thy ===== *)
theory Json
  imports Float64
begin

text \<open>
  JSON as Go's \<^verbatim>\<open>encoding/json\<close> writes and reads it. The encoder writes compact text, with strings as UTF-8 and
  the escapes of the standard library. The decoder accepts what the standard library accepts: white space
  between tokens, the grammar of numbers, escapes with surrogate pairs, bytes that are no UTF-8 as the
  replacement character, and nesting up to a bound. What is written is read back.
\<close>

section \<open>Strings\<close>

text \<open>The length of the UTF-8 sequence at the start of a byte string, 0 when it is not valid.\<close>

definition byte_in :: "nat \<Rightarrow> nat \<Rightarrow> char \<Rightarrow> bool" where
  "byte_in lo hi c \<longleftrightarrow> lo \<le> (of_char c :: nat) \<and> (of_char c :: nat) \<le> hi"

definition utf8_len :: "string \<Rightarrow> nat" where
  "utf8_len s =
     (case s of
        [] \<Rightarrow> 0
      | a # t \<Rightarrow>
         if byte_in 0 0x7F a then 1
         else if byte_in 0xC2 0xDF a then
           (case t of b # _ \<Rightarrow> if byte_in 0x80 0xBF b then 2 else 0 | _ \<Rightarrow> 0)
         else if byte_in 0xE0 0xEF a then
           (case t of b # c # _ \<Rightarrow>
              if byte_in (if a = CHR 0xE0 then 0xA0 else 0x80) (if a = CHR 0xED then 0x9F else 0xBF) b \<and>
                 byte_in 0x80 0xBF c then 3 else 0
            | _ \<Rightarrow> 0)
         else if byte_in 0xF0 0xF4 a then
           (case t of b # c # d # _ \<Rightarrow>
              if byte_in (if a = CHR 0xF0 then 0x90 else 0x80) (if a = CHR 0xF4 then 0x8F else 0xBF) b \<and>
                 byte_in 0x80 0xBF c \<and> byte_in 0x80 0xBF d then 4 else 0
            | _ \<Rightarrow> 0)
         else 0)"

fun valid_utf8 :: "string \<Rightarrow> bool" where
  "valid_utf8 [] = True"
| "valid_utf8 (c # cs) = (utf8_len (c # cs) \<noteq> 0 \<and> valid_utf8 (drop (utf8_len (c # cs) - 1) cs))"

declare valid_utf8.simps(2) [simp del]

lemma valid_ascii [simp]: "of_char c \<le> (0x7F :: nat) \<Longrightarrow> valid_utf8 (c # cs) \<longleftrightarrow> valid_utf8 cs"
  by (simp add: valid_utf8.simps(2) utf8_len_def byte_in_def)

lemma valid_all_ascii: "list_all (\<lambda>c. of_char c \<le> (0x7F :: nat)) s \<Longrightarrow> valid_utf8 s"
  by (induction s) simp_all

definition hex_char :: "nat \<Rightarrow> char" where
  "hex_char n = (if n < 10 then char_of (48 + n) else char_of (87 + n))"

definition hex_val :: "char \<Rightarrow> nat" where
  "hex_val c = (let n = of_char c in if n < 58 then n - 48 else if n < 71 then n - 55 else n - 87)"

definition is_hex :: "char \<Rightarrow> bool" where
  "is_hex c \<longleftrightarrow> byte_in 48 57 c \<or> byte_in 65 70 c \<or> byte_in 97 102 c"

text \<open>\<open>appendString\<close>: the escape of a byte below 128, HTML characters included.\<close>

definition escape_byte :: "char \<Rightarrow> string" where
  "escape_byte c =
     (if c = CHR 0x22 \<or> c = CHR 0x5C then [CHR 0x5C, c]
      else if c = CHR 0x08 then [CHR 0x5C, CHR ''b'']
      else if c = CHR 0x0C then [CHR 0x5C, CHR ''f'']
      else if c = CHR 0x0A then [CHR 0x5C, CHR ''n'']
      else if c = CHR 0x0D then [CHR 0x5C, CHR ''r'']
      else if c = CHR 0x09 then [CHR 0x5C, CHR ''t'']
      else if of_char c < (0x20 :: nat) \<or> c = CHR ''<'' \<or> c = CHR ''>'' \<or> c = CHR ''&'' then
        [CHR 0x5C, CHR ''u'', CHR ''0'', CHR ''0'', hex_char (of_char c div 16), hex_char (of_char c mod 16)]
      else [c])"

fun escape_string :: "string \<Rightarrow> string" where
  "escape_string [] = []"
| "escape_string (c # cs) =
     (if byte_in 0 0x7F c then escape_byte c @ escape_string cs
      else let n = utf8_len (c # cs)
           in if n = 0 then CHR 0x5C # ''ufffd'' @ escape_string cs
              else let r = take n (c # cs)
                   in (if r = [CHR 0xE2, CHR 0x80, CHR 0xA8] then CHR 0x5C # ''u2028''
                       else if r = [CHR 0xE2, CHR 0x80, CHR 0xA9] then CHR 0x5C # ''u2029''
                       else r) @ escape_string (drop (n - 1) cs))"

text \<open>\<open>utf8.AppendRune\<close>: the bytes of a code point; a surrogate is written as the replacement character.\<close>

definition replacement :: string where
  "replacement = [CHR 0xEF, CHR 0xBF, CHR 0xBD]"

definition surrogate :: "nat \<Rightarrow> bool" where
  "surrogate r \<longleftrightarrow> 0xD800 \<le> r \<and> r < 0xE000"

definition utf8_encode :: "nat \<Rightarrow> string" where
  "utf8_encode n =
     (if n < 0x80 then [char_of n]
      else if n < 0x800 then [char_of (0xC0 + n div 64), char_of (0x80 + n mod 64)]
      else if surrogate n then replacement
      else if n < 0x10000 then [char_of (0xE0 + n div 4096), char_of (0x80 + n div 64 mod 64), char_of (0x80 + n mod 64)]
      else [char_of (0xF0 + n div 0x40000), char_of (0x80 + n div 4096 mod 64), char_of (0x80 + n div 64 mod 64),
            char_of (0x80 + n mod 64)])"

text \<open>Four hexadecimal digits, and a further escape \<open>\\uXXXX\<close> (\<open>getu4\<close>).\<close>

definition hex4 :: "string \<Rightarrow> nat option" where
  "hex4 s = (if length s < 4 \<or> \<not> list_all is_hex (take 4 s) then None
             else Some (foldl (\<lambda>n c. 16 * n + hex_val c) 0 (take 4 s)))"

definition getu4 :: "string \<Rightarrow> nat option" where
  "getu4 s = (if take 2 s = [CHR 0x5C, CHR ''u''] then hex4 (drop 2 s) else None)"

text \<open>\<open>utf16.DecodeRune\<close>: the code point of a pair of surrogates.\<close>

definition surrogate_pair :: "nat \<Rightarrow> nat \<Rightarrow> nat option" where
  "surrogate_pair r1 r2 =
     (if 0xD800 \<le> r1 \<and> r1 < 0xDC00 \<and> 0xDC00 \<le> r2 \<and> r2 < 0xE000
      then Some ((r1 - 0xD800) * 0x400 + (r2 - 0xDC00) + 0x10000) else None)"

text \<open>The escapes of one character.\<close>

definition unescape_char :: "char \<Rightarrow> char option" where
  "unescape_char c =
     (if c = CHR ''b'' then Some (CHR 0x08) else if c = CHR ''f'' then Some (CHR 0x0C)
      else if c = CHR ''n'' then Some (CHR 0x0A) else if c = CHR ''r'' then Some (CHR 0x0D)
      else if c = CHR ''t'' then Some (CHR 0x09)
      else if c = CHR 0x22 \<or> c = CHR 0x5C \<or> c = CHR ''/'' then Some c else None)"

text \<open>
  Reads a string after its opening quote: the bytes and what follows the closing quote. A control
  character is an error; a byte that starts no valid sequence reads as the replacement character, and so
  does a surrogate without its partner.
\<close>

fun read_string :: "string \<Rightarrow> (string \<times> string) option" where
  "read_string [] = None"
| "read_string (c # cs) =
     (if c = CHR 0x22 then Some ([], cs)
      else if c = CHR 0x5C then
        (case cs of
           [] \<Rightarrow> None
         | e # es \<Rightarrow>
            if e = CHR ''u'' then
              (case hex4 es of
                 None \<Rightarrow> None
               | Some r \<Rightarrow>
                  (case Option.bind (getu4 (drop 4 es)) (surrogate_pair r) of
                     Some p \<Rightarrow> map_option (apfst ((@) (utf8_encode p))) (read_string (drop 10 es))
                   | None \<Rightarrow> map_option (apfst ((@) (utf8_encode r))) (read_string (drop 4 es))))
            else
              (case unescape_char e of
                 None \<Rightarrow> None
               | Some u \<Rightarrow> map_option (apfst ((#) u)) (read_string es)))
      else if of_char c < (0x20 :: nat) then None
      else let n = utf8_len (c # cs)
           in if n = 0 then map_option (apfst ((@) replacement)) (read_string cs)
              else map_option (apfst ((@) (take n (c # cs)))) (read_string (drop (n - 1) cs)))"

declare read_string.simps(2) [simp del]

lemma hex_val_char [simp]: "n < 16 \<Longrightarrow> hex_val (hex_char n) = n"
  by (simp add: hex_val_def hex_char_def Let_def)

lemma is_hex_char [simp]: "n < 16 \<Longrightarrow> is_hex (hex_char n)"
  by (simp add: is_hex_def byte_in_def hex_char_def)

lemma Cons_fun: "(@) [c] = (#) c"
  by (simp add: fun_eq_iff)

lemma read_quote [simp]: "read_string (CHR 0x22 # cs) = Some ([], cs)"
  by (simp add: read_string.simps(2))

lemma read_plain:
  "c \<noteq> CHR 0x22 \<Longrightarrow> c \<noteq> CHR 0x5C \<Longrightarrow> 0x20 \<le> (of_char c :: nat) \<Longrightarrow> of_char c < (0x80 :: nat) \<Longrightarrow>
     read_string (c # cs) = map_option (apfst ((#) c)) (read_string cs)"
  by (simp add: read_string.simps(2) utf8_len_def byte_in_def Cons_fun)

lemma read_escape:
  "e \<noteq> CHR ''u'' \<Longrightarrow> unescape_char e = Some u \<Longrightarrow>
     read_string (CHR 0x5C # e # cs) = map_option (apfst ((#) u)) (read_string cs)"
  by (simp add: read_string.simps(2))

text \<open>An escape that is no surrogate stands for itself, whatever follows.\<close>

lemma read_u4:
  assumes "hex4 [a, b, c, d] = Some r" and "\<not> surrogate r"
  shows "read_string (CHR 0x5C # CHR ''u'' # a # b # c # d # cs) = map_option (apfst ((@) (utf8_encode r))) (read_string cs)"
proof -
  have "hex4 (a # b # c # d # cs) = Some r" using assms(1) by (simp add: hex4_def split: if_split_asm)
  moreover have "Option.bind x (surrogate_pair r) = None" for x
    using assms(2) by (cases x) (auto simp: surrogate_pair_def surrogate_def)
  ultimately show ?thesis by (simp add: read_string.simps(2))
qed

lemma hex4_low: "n < 256 \<Longrightarrow> hex4 [CHR ''0'', CHR ''0'', hex_char (n div 16), hex_char (n mod 16)] = Some n"
  by (simp add: hex4_def is_hex_def [of "CHR ''0''"] byte_in_def hex_val_def [of "CHR ''0''"])

lemma escape_byte_cases:
  "(\<exists>e. escape_byte c = [CHR 0x5C, e] \<and> e \<noteq> CHR ''u'' \<and> unescape_char e = Some c) \<or>
   escape_byte c = [CHR 0x5C, CHR ''u'', CHR ''0'', CHR ''0'', hex_char (of_char c div 16), hex_char (of_char c mod 16)] \<or>
   escape_byte c = [c] \<and> c \<noteq> CHR 0x22 \<and> c \<noteq> CHR 0x5C \<and> 0x20 \<le> (of_char c :: nat)"
  unfolding escape_byte_def unescape_char_def by (simp split: if_split)

lemma read_escape_byte:
  assumes "byte_in 0 0x7F c"
  shows "read_string (escape_byte c @ xs) = map_option (apfst ((#) c)) (read_string xs)"
proof -
  have c: "of_char c < (0x80 :: nat)" using assms by (simp add: byte_in_def)
  then have "read_string ([CHR 0x5C, CHR ''u'', CHR ''0'', CHR ''0'', hex_char (of_char c div 16), hex_char (of_char c mod 16)] @ xs)
      = map_option (apfst ((#) c)) (read_string xs)"
    using read_u4 [OF hex4_low, of "of_char c" xs] by (simp add: surrogate_def utf8_encode_def Cons_fun)
  then show ?thesis using escape_byte_cases [of c] read_plain [of c xs] c by (auto simp: read_escape)
qed

text \<open>The length of a sequence depends on the sequence alone.\<close>

lemma utf8_len_prefix:
  assumes "utf8_len s \<noteq> 0"
  shows "utf8_len (take (utf8_len s) s @ xs) = utf8_len s \<and> utf8_len s \<le> length s"
proof (cases s)
  case (Cons a t)
  show ?thesis
  proof (cases "byte_in 0 0x7F a")
    case False
    note a = Cons False
    show ?thesis
    proof (cases "byte_in 0xC2 0xDF a")
      case True
      then show ?thesis using assms a by (cases t) (simp_all add: utf8_len_def split: if_split_asm)
    next
      case no2: False
      show ?thesis
      proof (cases "byte_in 0xE0 0xEF a")
        case True
        then obtain b c u where "t = b # c # u"
          using assms a no2 by (auto simp: utf8_len_def split: list.split_asm)
        then show ?thesis using assms a no2 True unfolding utf8_len_def by (simp split: if_split_asm)
      next
        case no3: False
        then obtain b c d u where t: "t = b # c # d # u" and f: "byte_in 0xF0 0xF4 a"
          using assms a no2 by (auto simp: utf8_len_def split: list.split_asm if_split_asm)
        then show ?thesis using assms a no2 no3 unfolding utf8_len_def by (simp split: if_split_asm)
      qed
    qed
  qed (simp add: Cons utf8_len_def)
qed (use assms in \<open>simp add: utf8_len_def\<close>)

lemma read_utf8:
  assumes "n = utf8_len (c # cs)" "n \<noteq> 0" and "\<not> byte_in 0 0x7F c"
  shows "read_string (take n (c # cs) @ xs) = map_option (apfst ((@) (take n (c # cs)))) (read_string xs)"
proof -
  obtain m where m: "n = Suc m" using assms(2) by (cases n) simp_all
  have c: "c \<noteq> CHR 0x22" "c \<noteq> CHR 0x5C" "\<not> of_char c < (0x20 :: nat)" using assms(3) by (auto simp: byte_in_def)
  have n: "utf8_len (c # take m cs @ xs) = Suc m" using utf8_len_prefix [of "c # cs" xs] unfolding assms(1) [symmetric] m by simp
  have "length (take m cs) = m" using utf8_len_prefix [of "c # cs" xs] unfolding assms(1) [symmetric] m by simp
  with c n show ?thesis by (simp add: m read_string.simps(2))
qed

lemma read_escape_string:
  "valid_utf8 s \<Longrightarrow> read_string (escape_string s @ CHR 0x22 # rest) = Some (s, rest)"
proof (induction s rule: escape_string.induct)
  case (2 c cs)
  show ?case
  proof (cases "byte_in 0 0x7F c")
    case True
    then have "valid_utf8 cs" using 2(4) by (simp add: byte_in_def)
    then have "read_string (escape_string cs @ CHR 0x22 # rest) = Some (cs, rest)" using 2(1) True by simp
    then show ?thesis using read_escape_byte [OF True, of "escape_string cs @ CHR 0x22 # rest"] True by simp
  next
    case False
    define n where "n = utf8_len (c # cs)"
    have n: "n \<noteq> 0" "valid_utf8 (drop (n - 1) cs)" using 2(4) by (simp_all add: n_def valid_utf8.simps(2))
    let ?r = "take n (c # cs)" and ?xs = "escape_string (drop (n - 1) cs) @ CHR 0x22 # rest"
    let ?e = "if ?r = [CHR 0xE2, CHR 0x80, CHR 0xA8] then CHR 0x5C # ''u2028''
              else if ?r = [CHR 0xE2, CHR 0x80, CHR 0xA9] then CHR 0x5C # ''u2029'' else ?r"
    have ih: "read_string ?xs = Some (drop (n - 1) cs, rest)"
      using 2(3) [OF False n_def n(1) refl n(2)] .
    have u: "hex4 ''2028'' = Some 0x2028" "hex4 ''2029'' = Some 0x2029" by (simp_all add: hex4_def is_hex_def byte_in_def hex_val_def)
    have "read_string (?e @ ?xs) = Some (?r @ drop (n - 1) cs, rest)"
      using read_utf8 [OF n_def n(1) False, of ?xs] ih read_u4 [OF u(1), of ?xs] read_u4 [OF u(2), of ?xs]
      by (simp add: utf8_encode_def surrogate_def char_of_def bit_0)
    moreover have "?r @ drop (n - 1) cs = c # cs" using n(1) by (cases n) simp_all
    moreover have "escape_string (c # cs) @ CHR 0x22 # rest = ?e @ ?xs"
      using False n(1) by (simp add: n_def Let_def)
    ultimately show ?thesis by simp
  qed
qed simp

lemma read_string_length: "read_string s = Some (v, r) \<Longrightarrow> length r < length s"
proof (induction "length s" arbitrary: s v r rule: less_induct)
  case less
  have rec: "length r < n" if "map_option (apfst f) (read_string x) = Some (v, r)" "length x < length s" "length x \<le> n" for f x n
  proof -
    from that(1) obtain w where "read_string x = Some (w, r)" by (cases "read_string x") auto
    then show ?thesis using less.hyps [OF that(2)] that(3) by fastforce
  qed
  obtain c cs where s: "s = c # cs" using less.prems by (cases s) simp_all
  show ?case
    using less.prems unfolding s read_string.simps(2)
    by (simp del: map_option_eq_Some add: Let_def split: if_split_asm list.split_asm option.split_asm)
      (erule rec; simp add: s)+
qed

section \<open>Numbers\<close>

text \<open>
  A number is a sign, an integer part without leading zeros, a fraction and an exponent. Each part is read
  from the start of a text: what was read, and the rest.
\<close>

definition is_digit :: "char \<Rightarrow> bool" where
  "is_digit c \<longleftrightarrow> byte_in 48 57 c"

type_synonym scan = "string \<Rightarrow> (string \<times> string) option"

definition scan_sign :: "string \<Rightarrow> string \<Rightarrow> string \<times> string" where
  "scan_sign signs s = (case s of [] \<Rightarrow> ([], []) | c # r \<Rightarrow> if c \<in> set signs then ([c], r) else ([], s))"

definition scan_digits :: scan where
  "scan_digits s = (let d = takeWhile is_digit s in if d = [] then None else Some (d, dropWhile is_digit s))"

definition scan_int :: scan where
  "scan_int s = (if take 1 s = ''0'' then Some (''0'', drop 1 s) else scan_digits s)"

definition scan_frac :: scan where
  "scan_frac s = (if take 1 s = ''.'' then map_option (apfst ((#) (CHR ''.''))) (scan_digits (drop 1 s)) else Some ([], s))"

definition scan_exp :: scan where
  "scan_exp s =
     (if take 1 s = ''e'' \<or> take 1 s = ''E'' then
        (let (sg, r) = scan_sign ''+-'' (drop 1 s)
         in map_option (apfst ((@) (take 1 s @ sg))) (scan_digits r))
      else Some ([], s))"

record decimal =
  dec_sign :: string
  dec_int :: string
  dec_frac :: string
  dec_exp :: string

definition dec_text :: "decimal \<Rightarrow> string" where
  "dec_text d = dec_sign d @ dec_int d @ dec_frac d @ dec_exp d"

definition scan_number :: "string \<Rightarrow> (decimal \<times> string) option" where
  "scan_number s =
     (let (sg, s) = scan_sign ''-'' s
      in Option.bind (scan_int s) (\<lambda>(i, s).
         Option.bind (scan_frac s) (\<lambda>(f, s).
         map_option (\<lambda>(e, s). (\<lparr>dec_sign = sg, dec_int = i, dec_frac = f, dec_exp = e\<rparr>, s)) (scan_exp s))))"

text \<open>The literals, and the number a literal denotes.\<close>

definition num_literal :: "string \<Rightarrow> bool" where
  "num_literal n \<longleftrightarrow> (case scan_number n of Some (_, []) \<Rightarrow> True | _ \<Rightarrow> False)"

definition dec_power :: "decimal \<Rightarrow> int" where
  "dec_power d =
     (let (sg, e) = scan_sign ''+-'' (drop 1 (dec_exp d))
      in (if sg = ''-'' then - int (read_nat e) else int (read_nat e)) - int (length (drop 1 (dec_frac d))))"

definition dec_value :: "decimal \<Rightarrow> rat" where
  "dec_value d = (if dec_sign d = [] then 1 else - 1) * of_nat (read_nat (dec_int d @ drop 1 (dec_frac d))) * 10 powi dec_power d"

definition num_value :: "string \<Rightarrow> rat" where
  "num_value n = (case scan_number n of Some (d, _) \<Rightarrow> dec_value d | None \<Rightarrow> 0)"

text \<open>A number ends where something follows that no number contains.\<close>

definition num_char :: "char \<Rightarrow> bool" where
  "num_char c \<longleftrightarrow> is_digit c \<or> c \<in> set ''+-.eE''"

definition ends_number :: "string \<Rightarrow> bool" where
  "ends_number s \<longleftrightarrow> (case s of [] \<Rightarrow> True | c # _ \<Rightarrow> \<not> num_char c)"

lemma ends_number_simps [simp]:
  "ends_number []" "ends_number (CHR '','' # s)" "ends_number (CHR '']'' # s)" "ends_number (CHR ''}'' # s)"
  by (simp_all add: ends_number_def num_char_def is_digit_def byte_in_def)

lemma digits_ends:
  assumes "ends_number r"
  shows "takeWhile is_digit (s @ r) = takeWhile is_digit s" "dropWhile is_digit (s @ r) = dropWhile is_digit s @ r"
  using assms by (induction s) (cases r; simp add: ends_number_def num_char_def)+

lemma ends_take1: "ends_number r \<Longrightarrow> num_char c \<Longrightarrow> take (Suc 0) r \<noteq> [c]"
  by (cases r) (auto simp: ends_number_def)

lemma num_chars [simp]: "num_char (CHR ''0'')" "num_char (CHR ''.'')" "num_char (CHR ''e'')" "num_char (CHR ''E'')"
  by (simp_all add: num_char_def is_digit_def byte_in_def)

lemma scan_digits_ends: "ends_number r \<Longrightarrow> scan_digits (s @ r) = map_option (apsnd (\<lambda>x. x @ r)) (scan_digits s)"
  by (simp add: scan_digits_def digits_ends Let_def)

lemma scan_sign_ends: "ends_number r \<Longrightarrow> set signs \<subseteq> set ''+-'' \<Longrightarrow> scan_sign signs (s @ r) = apsnd (\<lambda>x. x @ r) (scan_sign signs s)"
  by (cases s; cases r) (auto simp: scan_sign_def ends_number_def num_char_def)

lemma scan_int_ends: "ends_number r \<Longrightarrow> scan_int (s @ r) = map_option (apsnd (\<lambda>x. x @ r)) (scan_int s)"
  using scan_digits_ends [of r s] ends_take1 [of r] by (cases s) (auto simp: scan_int_def)

lemma scan_frac_ends: "ends_number r \<Longrightarrow> scan_frac (s @ r) = map_option (apsnd (\<lambda>x. x @ r)) (scan_frac s)"
  using scan_digits_ends [of r "drop 1 s"] ends_take1 [of r "CHR ''.''"]
  by (cases s; cases "scan_digits (drop 1 s)") (auto simp: scan_frac_def)

lemma scan_exp_ends:
  assumes r: "ends_number r"
  shows "scan_exp (s @ r) = map_option (apsnd (\<lambda>x. x @ r)) (scan_exp s)"
proof (cases s)
  case (Cons c cs)
  obtain sg t where sg: "scan_sign ''+-'' cs = (sg, t)" by fastforce
  show ?thesis
    using sg scan_sign_ends [OF r, of "''+-''" cs] scan_digits_ends [OF r, of t]
    by (cases "scan_digits t") (auto simp: scan_exp_def Cons)
qed (use assms ends_take1 [of r] in \<open>simp add: scan_exp_def\<close>)

lemma scan_number_ends:
  assumes "ends_number r"
  shows "scan_number (s @ r) = map_option (apsnd (\<lambda>x. x @ r)) (scan_number s)"
proof -
  obtain sg t where sg: "scan_sign ''-'' s = (sg, t)" by fastforce
  then have "scan_sign ''-'' (s @ r) = (sg, t @ r)" using scan_sign_ends [OF assms, of "''-''" s] by simp
  then show ?thesis
    using sg scan_int_ends [OF assms] scan_frac_ends [OF assms] scan_exp_ends [OF assms]
    by (auto simp: scan_number_def option.map_comp comp_def split_def split: bind_split)
qed

text \<open>What is read is the start of the text.\<close>

lemma scan_digits_text: "scan_digits s = Some (d, r) \<Longrightarrow> s = d @ r \<and> d \<noteq> []"
  by (auto simp: scan_digits_def Let_def split: if_split_asm)

lemma scan_sign_text: "scan_sign signs s = (sg, r) \<Longrightarrow> s = sg @ r"
  by (auto simp: scan_sign_def split: list.split_asm if_split_asm)

lemma scan_int_text: "scan_int s = Some (d, r) \<Longrightarrow> s = d @ r \<and> d \<noteq> []"
  by (cases s) (auto simp: scan_int_def dest: scan_digits_text split: if_split_asm)

lemma scan_frac_text: "scan_frac s = Some (d, r) \<Longrightarrow> s = d @ r"
  by (cases s) (auto simp: scan_frac_def dest: scan_digits_text split: if_split_asm)

lemma scan_exp_text: "scan_exp s = Some (d, r) \<Longrightarrow> s = d @ r"
  by (cases s) (auto simp: scan_exp_def dest!: scan_digits_text scan_sign_text split: if_split_asm prod.split_asm)

lemma scan_number_text: "scan_number s = Some (d, r) \<Longrightarrow> s = dec_text d @ r \<and> dec_int d \<noteq> []"
  by (auto simp: scan_number_def dec_text_def bind_eq_Some_conv split: prod.split_asm
      dest!: scan_sign_text scan_int_text scan_frac_text scan_exp_text)

lemma num_literal_iff: "num_literal n \<longleftrightarrow> (\<exists>d. scan_number n = Some (d, []) \<and> dec_text d = n)"
  by (auto simp: num_literal_def dest: scan_number_text split: option.split_asm prod.split_asm list.split_asm)

lemma scan_literal:
  "num_literal n \<Longrightarrow> ends_number r \<Longrightarrow> \<exists>d. scan_number (n @ r) = Some (d, r) \<and> dec_text d = n"
  by (auto simp: num_literal_iff scan_number_ends)

lemma num_literal_head: "num_literal n \<Longrightarrow> \<exists>c cs. n = c # cs \<and> (is_digit c \<or> c = CHR ''-'')"
proof -
  assume "num_literal n"
  then obtain d where "scan_number n = Some (d, [])" by (auto simp: num_literal_iff)
  then obtain sg t i u where "scan_sign ''-'' n = (sg, t)" "scan_int t = Some (i, u)"
    by (auto simp: scan_number_def bind_eq_Some_conv split: prod.split_asm)
  then show ?thesis
    by (cases n; cases t) (auto simp: scan_sign_def scan_int_def scan_digits_def Let_def is_digit_def byte_in_def split: if_split_asm)
qed

section \<open>Values\<close>

datatype json = JNull | JBool bool | JNum string | JStr string | JArr "json list" | JObj "(string \<times> json) list"

definition quoted :: "string \<Rightarrow> string" where
  "quoted s = CHR 0x22 # escape_string s @ [CHR 0x22]"

fun render :: "json \<Rightarrow> string" and render_items :: "json list \<Rightarrow> string"
  and render_fields :: "(string \<times> json) list \<Rightarrow> string" where
  "render JNull = ''null''"
| "render (JBool b) = FormatBool b"
| "render (JNum n) = n"
| "render (JStr s) = quoted s"
| "render (JArr []) = ''[]''"
| "render (JArr (v # vs)) = CHR ''['' # render v @ render_items vs"
| "render (JObj []) = ''{}''"
| "render (JObj ((k, v) # kvs)) = CHR ''{'' # quoted k @ CHR '':'' # render v @ render_fields kvs"
| "render_items [] = '']''"
| "render_items (v # vs) = CHR '','' # render v @ render_items vs"
| "render_fields [] = ''}''"
| "render_fields ((k, v) # kvs) = CHR '','' # quoted k @ CHR '':'' # render v @ render_fields kvs"

text \<open>The values the encoder is given: number literals, and strings in UTF-8.\<close>

fun json_wf :: "json \<Rightarrow> bool" where
  "json_wf JNull = True"
| "json_wf (JBool b) = True"
| "json_wf (JNum n) = num_literal n"
| "json_wf (JStr s) = valid_utf8 s"
| "json_wf (JArr vs) = (\<forall>v \<in> set vs. json_wf v)"
| "json_wf (JObj kvs) = (\<forall>e \<in> set kvs. valid_utf8 (fst e) \<and> json_wf (snd e))"

text \<open>The nesting of arrays and objects.\<close>

fun json_depth :: "json \<Rightarrow> nat" where
  "json_depth (JArr vs) = Suc (fold (\<lambda>v. max (json_depth v)) vs 0)"
| "json_depth (JObj kvs) = Suc (fold (\<lambda>e. max (json_depth (snd e))) kvs 0)"
| "json_depth _ = 0"

section \<open>The decoder\<close>

text \<open>
  The value at the start of a text, and the rest. White space may come before every token. The first
  argument bounds the recursion; the length of the text is always enough (\<open>read_enough\<close>).
\<close>

definition skip_space :: "string \<Rightarrow> string" where
  "skip_space = dropWhile (\<lambda>c. c \<in> {CHR '' '', CHR 0x09, CHR 0x0A, CHR 0x0D})"

fun read_value :: "nat \<Rightarrow> string \<Rightarrow> (json \<times> string) option"
  and read_items :: "nat \<Rightarrow> string \<Rightarrow> (json list \<times> string) option"
  and read_field :: "nat \<Rightarrow> string \<Rightarrow> ((string \<times> json) \<times> string) option"
  and read_fields :: "nat \<Rightarrow> string \<Rightarrow> ((string \<times> json) list \<times> string) option" where
  "read_value 0 s = None"
| "read_value (Suc n) s =
     (case skip_space s of
        [] \<Rightarrow> None
      | c # cs \<Rightarrow>
         if c = CHR 0x22 then map_option (apfst JStr) (read_string cs)
         else if c = CHR ''['' then
           (if take 1 (skip_space cs) = '']'' then Some (JArr [], drop 1 (skip_space cs))
            else Option.bind (read_value n cs) (\<lambda>(v, r). map_option (apfst (\<lambda>vs. JArr (v # vs))) (read_items n r)))
         else if c = CHR ''{'' then
           (if take 1 (skip_space cs) = ''}'' then Some (JObj [], drop 1 (skip_space cs))
            else Option.bind (read_field n cs) (\<lambda>(kv, r). map_option (apfst (\<lambda>kvs. JObj (kv # kvs))) (read_fields n r)))
         else if c = CHR ''n'' then (if take 3 cs = ''ull'' then Some (JNull, drop 3 cs) else None)
         else if c = CHR ''t'' then (if take 3 cs = ''rue'' then Some (JBool True, drop 3 cs) else None)
         else if c = CHR ''f'' then (if take 4 cs = ''alse'' then Some (JBool False, drop 4 cs) else None)
         else map_option (apfst (\<lambda>d. JNum (dec_text d))) (scan_number (c # cs)))"
| "read_items 0 s = None"
| "read_items (Suc n) s =
     (case skip_space s of
        [] \<Rightarrow> None
      | c # cs \<Rightarrow>
         if c = CHR '']'' then Some ([], cs)
         else if c = CHR '','' then
           Option.bind (read_value n cs) (\<lambda>(v, r). map_option (apfst ((#) v)) (read_items n r))
         else None)"
| "read_field 0 s = None"
| "read_field (Suc n) s =
     (case skip_space s of
        [] \<Rightarrow> None
      | c # cs \<Rightarrow>
         if c = CHR 0x22 then
           Option.bind (read_string cs) (\<lambda>(k, r).
             if take 1 (skip_space r) = '':'' then map_option (apfst (Pair k)) (read_value n (drop 1 (skip_space r))) else None)
         else None)"
| "read_fields 0 s = None"
| "read_fields (Suc n) s =
     (case skip_space s of
        [] \<Rightarrow> None
      | c # cs \<Rightarrow>
         if c = CHR ''}'' then Some ([], cs)
         else if c = CHR '','' then
           Option.bind (read_field n cs) (\<lambda>(kv, r). map_option (apfst ((#) kv)) (read_fields n r))
         else None)"

definition maxNestingDepth :: nat where
  "maxNestingDepth = 10000"

definition decode :: "string \<Rightarrow> json option" where
  "decode s =
     (case read_value (length s) s of
        None \<Rightarrow> None
      | Some (v, r) \<Rightarrow> if skip_space r = [] \<and> json_depth v \<le> maxNestingDepth then Some v else None)"

subsection \<open>The bound on the recursion\<close>

lemma skip_length: "length (skip_space s) \<le> length s"
  by (simp add: skip_space_def length_dropWhile_le)

lemma skip_Cons: "skip_space s = c # cs \<Longrightarrow> length cs < length s"
  using skip_length [of s] by simp

lemma scan_number_length: "scan_number s = Some (d, r) \<Longrightarrow> length r < length s"
  using scan_number_text [of s d r] by (auto simp: dec_text_def)

lemma read_length:
  "read_value n s = Some (v, r) \<Longrightarrow> length r < length s"
  "read_items n s = Some (vs, r) \<Longrightarrow> length r < length s"
  "read_field n s = Some (kv, r) \<Longrightarrow> length r < length s"
  "read_fields n s = Some (kvs, r) \<Longrightarrow> length r < length s"
proof (induction n arbitrary: s v vs kv kvs r)
  case (Suc n)
  note ih = Suc.IH [THEN less_imp_le]
  { case 1
    then obtain c cs where c: "skip_space s = c # cs" by (auto split: list.split_asm)
    have "length r \<le> length cs" if "scan_number (c # cs) = Some (d, r)" for d
      using scan_number_length [OF that] by simp
    moreover have "length (drop 1 (skip_space cs)) \<le> length cs" using skip_length [of cs] by simp
    ultimately have "length r \<le> length cs"
      using 1 c by (auto split: if_split_asm prod.split_asm simp: bind_eq_Some_conv dest!: read_string_length ih)
    then show ?case using skip_Cons [OF c] by simp
  next
    case 2
    then obtain c cs where c: "skip_space s = c # cs" by (auto split: list.split_asm)
    have "length r \<le> length cs"
      using 2 c by (auto split: if_split_asm prod.split_asm simp: bind_eq_Some_conv dest!: ih)
    then show ?case using skip_Cons [OF c] by simp
  next
    case 3
    then obtain c cs where c: "skip_space s = c # cs" by (auto split: list.split_asm)
    with 3 obtain k x v where "read_string cs = Some (k, x)" "read_value n (drop 1 (skip_space x)) = Some (v, r)"
      by (auto simp: bind_eq_Some_conv split: if_split_asm)
    then have "length r \<le> length cs" using ih(1) skip_length [of x] read_string_length by fastforce
    then show ?case using skip_Cons [OF c] by simp
  next
    case 4
    then obtain c cs where c: "skip_space s = c # cs" by (auto split: list.split_asm)
    have "length r \<le> length cs"
      using 4 c by (auto split: if_split_asm prod.split_asm simp: bind_eq_Some_conv dest!: ih)
    then show ?case using skip_Cons [OF c] by simp
  }
qed simp_all

lemma bind_read:
  "x = y \<Longrightarrow> (\<And>v r. y = Some (v, r) \<Longrightarrow> f v r = g v r) \<Longrightarrow> Option.bind x (\<lambda>(v, r). f v r) = Option.bind y (\<lambda>(v, r). g v r)"
  by (cases y) auto

lemma read_fuel:
  "length s \<le> n \<Longrightarrow> length s \<le> m \<Longrightarrow> read_value n s = read_value m s"
  "length s \<le> n \<Longrightarrow> length s \<le> m \<Longrightarrow> read_items n s = read_items m s"
  "length s \<le> n \<Longrightarrow> length s \<le> m \<Longrightarrow> read_field n s = read_field m s"
  "length s \<le> n \<Longrightarrow> length s \<le> m \<Longrightarrow> read_fields n s = read_fields m s"
proof (induction n arbitrary: s m)
  case 0
  { case 1 then show ?case by (cases m) (simp_all add: skip_space_def) }
  { case 2 then show ?case by (cases m) (simp_all add: skip_space_def) }
  { case 3 then show ?case by (cases m) (simp_all add: skip_space_def) }
  { case 4 then show ?case by (cases m) (simp_all add: skip_space_def) }
next
  case (Suc n)
  have cut: "skip_space s = [] \<or> (\<exists>k c cs. m = Suc k \<and> skip_space s = c # cs \<and> length cs \<le> n \<and> length cs \<le> k)"
    if "length s \<le> Suc n" "length s \<le> m" for s m
    using that skip_Cons [of s] by (cases m; cases "skip_space s") auto
  have rest: "length r \<le> n" "length r \<le> k" if "length r < length cs" "length cs \<le> n" "length cs \<le> k" for r cs :: string and k
    using that by simp_all
  { case 1
    from cut [OF this] show ?case
    proof (elim disjE exE conjE)
      fix k c cs assume m: "m = Suc k" and s: "skip_space s = c # cs" and cs: "length cs \<le> n" "length cs \<le> k"
      have "Option.bind (read_value n cs) (\<lambda>(v, r). map_option (apfst (\<lambda>vs. JArr (v # vs))) (read_items n r))
          = Option.bind (read_value k cs) (\<lambda>(v, r). map_option (apfst (\<lambda>vs. JArr (v # vs))) (read_items k r))"
        using read_length(1) rest [OF _ cs] by (intro bind_read Suc.IH cs arg_cong [where f = "map_option _"]) blast+
      moreover have "Option.bind (read_field n cs) (\<lambda>(kv, r). map_option (apfst (\<lambda>kvs. JObj (kv # kvs))) (read_fields n r))
          = Option.bind (read_field k cs) (\<lambda>(kv, r). map_option (apfst (\<lambda>kvs. JObj (kv # kvs))) (read_fields k r))"
        using read_length(3) rest [OF _ cs] by (intro bind_read Suc.IH cs arg_cong [where f = "map_option _"]) blast+
      ultimately show ?thesis unfolding m read_value.simps s list.case by (simp only:)
    qed (cases m; simp)
  }
  { case 2
    from cut [OF this] show ?case
    proof (elim disjE exE conjE)
      fix k c cs assume m: "m = Suc k" and s: "skip_space s = c # cs" and cs: "length cs \<le> n" "length cs \<le> k"
      have "Option.bind (read_value n cs) (\<lambda>(v, r). map_option (apfst ((#) v)) (read_items n r))
          = Option.bind (read_value k cs) (\<lambda>(v, r). map_option (apfst ((#) v)) (read_items k r))"
        using read_length(1) rest [OF _ cs] by (intro bind_read Suc.IH cs arg_cong [where f = "map_option _"]) blast+
      then show ?thesis unfolding m read_items.simps s list.case by (simp only:)
    qed (cases m; simp)
  }
  { case 3
    from cut [OF this] show ?case
    proof (elim disjE exE conjE)
      fix k c cs assume m: "m = Suc k" and s: "skip_space s = c # cs" and cs: "length cs \<le> n" "length cs \<le> k"
      have "read_value n (drop 1 (skip_space r)) = read_value k (drop 1 (skip_space r))" if "read_string cs = Some (x, r)" for x r
        using read_string_length [OF that] skip_length [of r] cs by (intro Suc.IH) simp_all
      then show ?thesis unfolding m read_field.simps s list.case
        by (intro if_cong refl bind_read) (simp split: prod.split)
    qed (cases m; simp)
  }
  { case 4
    from cut [OF this] show ?case
    proof (elim disjE exE conjE)
      fix k c cs assume m: "m = Suc k" and s: "skip_space s = c # cs" and cs: "length cs \<le> n" "length cs \<le> k"
      have "Option.bind (read_field n cs) (\<lambda>(kv, r). map_option (apfst ((#) kv)) (read_fields n r))
          = Option.bind (read_field k cs) (\<lambda>(kv, r). map_option (apfst ((#) kv)) (read_fields k r))"
        using read_length(3) rest [OF _ cs] by (intro bind_read Suc.IH cs arg_cong [where f = "map_option _"]) blast+
      then show ?thesis unfolding m read_fields.simps s list.case by (simp only:)
    qed (cases m; simp)
  }
qed

lemma read_enough: "length s \<le> n \<Longrightarrow> read_value n s = read_value (length s) s"
  by (rule read_fuel(1)) simp_all

section \<open>The round trip\<close>

definition token_start :: "char \<Rightarrow> bool" where
  "token_start c \<longleftrightarrow> c \<notin> {CHR '' '', CHR 0x09, CHR 0x0A, CHR 0x0D}"

lemma skip_token [simp]: "token_start c \<Longrightarrow> skip_space (c # cs) = c # cs"
  by (simp add: skip_space_def token_start_def)

lemma token_starts [simp]:
  "token_start (CHR 0x22)" "token_start (CHR ''['')" "token_start (CHR '']'')" "token_start (CHR ''{'')" "token_start (CHR ''}'')"
  "token_start (CHR '','')" "token_start (CHR '':'')" "token_start (CHR ''n'')" "token_start (CHR ''t'')" "token_start (CHR ''f'')"
  by (simp_all add: token_start_def)

lemma literal_start:
  assumes "is_digit c \<or> c = CHR ''-''"
  shows "token_start c \<and> c \<notin> set ''[]{}ntf'' \<and> c \<noteq> CHR 0x22"
  using assms by (auto simp: token_start_def is_digit_def byte_in_def)

lemma render_head: "json_wf v \<Longrightarrow> \<exists>c cs. render v = c # cs \<and> token_start c \<and> c \<noteq> CHR '']'' \<and> c \<noteq> CHR ''}''"
proof (induction v rule: json_wf.induct)
  case (3 n)
  then show ?case using num_literal_head [of n] literal_start by fastforce
next
  case (5 vs)
  then show ?case by (cases vs) simp_all
next
  case (6 kvs)
  then show ?case by (cases kvs rule: render_fields.cases) simp_all
qed (simp_all add: quoted_def FormatBool_def)

lemma ends_number_items [simp]: "ends_number (render_items vs @ s)" "ends_number (render_fields kvs @ s)"
  by (cases vs; simp) (cases kvs rule: render_fields.cases; simp)

lemma read_literal:
  assumes "num_literal n" and "ends_number rest"
  shows "read_value (Suc k) (n @ rest) = Some (JNum n, rest)"
proof -
  obtain c cs where c: "n = c # cs" "is_digit c \<or> c = CHR ''-''" using num_literal_head [OF assms(1)] by blast
  obtain d where "scan_number (n @ rest) = Some (d, rest)" "dec_text d = n" using scan_literal [OF assms] by blast
  then show ?thesis using literal_start [OF c(2)] by (simp add: c(1))
qed

lemma read_render_field:
  assumes "valid_utf8 k" and "length (quoted k @ CHR '':'' # x) \<le> n" and "\<And>m. length x \<le> m \<Longrightarrow> read_value m (x @ rest) = Some (v, rest)"
  shows "read_field n (quoted k @ CHR '':'' # x @ rest) = Some ((k, v), rest)"
  using assms read_escape_string [OF assms(1), of "CHR '':'' # x @ rest"] by (cases n) (simp_all add: quoted_def)

lemma read_render:
  "json_wf v \<Longrightarrow> length (render v) \<le> n \<Longrightarrow> ends_number rest \<Longrightarrow> read_value n (render v @ rest) = Some (v, rest)"
  "\<forall>v \<in> set vs. json_wf v \<Longrightarrow> length (render_items vs) \<le> n \<Longrightarrow> read_items n (render_items vs @ rest) = Some (vs, rest)"
  "\<forall>e \<in> set kvs. valid_utf8 (fst e) \<and> json_wf (snd e) \<Longrightarrow> length (render_fields kvs) \<le> n \<Longrightarrow>
     read_fields n (render_fields kvs @ rest) = Some (kvs, rest)"
proof (induction v and vs and kvs arbitrary: n rest and n rest and n rest rule: render_render_items_render_fields.induct)
  case 1
  then show ?case by (cases n) simp_all
next
  case (2 b)
  then show ?case by (cases n; cases b) (simp_all add: FormatBool_def)
next
  case (3 x)
  then show ?case using read_literal num_literal_head [of x] by (cases n) auto
next
  case (4 s)
  then show ?case by (cases n) (simp_all add: quoted_def read_escape_string)
next
  case 5
  then show ?case by (cases n) simp_all
next
  case (6 v vs)
  then obtain m where m: "n = Suc m" "length (render v) \<le> m" "length (render_items vs) \<le> m" by (cases n) auto
  obtain c cs where c: "render v = c # cs" "token_start c" "c \<noteq> CHR '']''" using render_head [of v] 6(3) by auto
  have "read_value m (render v @ render_items vs @ rest) = Some (v, render_items vs @ rest)"
    using 6(1) [of m "render_items vs @ rest"] 6(3) m(2) by simp
  moreover have "read_items m (render_items vs @ rest) = Some (vs, rest)" using 6(2) [of m rest] 6(3) m(3) by simp
  ultimately show ?case using c by (simp add: m(1))
next
  case 7
  then show ?case by (cases n) simp_all
next
  case (8 k v kvs)
  then obtain m where m: "n = Suc m" "length (quoted k @ CHR '':'' # render v) \<le> m" "length (render_fields kvs) \<le> m"
    by (cases n) auto
  have "read_field m (quoted k @ CHR '':'' # render v @ render_fields kvs @ rest) = Some ((k, v), render_fields kvs @ rest)"
    using 8(1) 8(3) by (intro read_render_field [OF _ m(2)]) simp_all
  moreover have "read_fields m (render_fields kvs @ rest) = Some (kvs, rest)" using 8(2) [of m rest] 8(3) m(3) by simp
  moreover have "take 1 (skip_space (quoted k @ x)) \<noteq> ''}''" for x by (simp add: quoted_def)
  ultimately show ?case by (simp add: m(1))
next
  case 9
  then show ?case by (cases n) simp_all
next
  case (10 v vs)
  then obtain m where m: "n = Suc m" "length (render v) \<le> m" "length (render_items vs) \<le> m" by (cases n) auto
  have "read_value m (render v @ render_items vs @ rest) = Some (v, render_items vs @ rest)"
    using 10(1) [of m "render_items vs @ rest"] 10(3) m(2) by simp
  moreover have "read_items m (render_items vs @ rest) = Some (vs, rest)" using 10(2) [of m rest] 10(3) m(3) by simp
  ultimately show ?case by (simp add: m(1))
next
  case 11
  then show ?case by (cases n) simp_all
next
  case (12 k v kvs)
  then obtain m where m: "n = Suc m" "length (quoted k @ CHR '':'' # render v) \<le> m" "length (render_fields kvs) \<le> m"
    by (cases n) auto
  have "read_field m (quoted k @ CHR '':'' # render v @ render_fields kvs @ rest) = Some ((k, v), render_fields kvs @ rest)"
    using 12(1) 12(3) by (intro read_render_field [OF _ m(2)]) simp_all
  moreover have "read_fields m (render_fields kvs @ rest) = Some (kvs, rest)" using 12(2) [of m rest] 12(3) m(3) by simp
  ultimately show ?case by (simp add: m(1))
qed

lemma decode_render: "json_wf v \<Longrightarrow> json_depth v \<le> maxNestingDepth \<Longrightarrow> decode (render v) = Some v"
  using read_render(1) [of v "length (render v)" "[]"] by (simp add: decode_def skip_space_def)

text \<open>White space around a text does not matter.\<close>

lemma decode_space:
  assumes "skip_space pre = []"
  shows "decode (pre @ s) = decode s"
proof -
  have "skip_space (pre @ s) = skip_space s" using assms unfolding skip_space_def by (subst dropWhile_append2) simp_all
  then have "read_value n (pre @ s) = read_value n s" for n by (cases n) simp_all
  then have "read_value (length (pre @ s)) (pre @ s) = read_value (length s) s" using read_enough [of s "length (pre @ s)"] by simp
  then show ?thesis by (simp add: decode_def)
qed

end
