(* ===== verification/Unmarshal.thy ===== *)
theory Unmarshal
  imports Json
begin

text \<open>
  \<open>json.Unmarshal\<close> as the program uses it: a JSON value is stored into a Go value of a known type, which the
  combinators here follow: numbers, strings, structs by the tags of their fields, maps, slices and pointers.
  Null leaves a number, a string or a struct as it is and makes a map or a slice nil. A field is found by its
  name, otherwise by its name up to case, and is ignored when the struct has no such field. When a value does
  not fit, the library goes on and reports the first such error in the end; since the caller then throws the
  result away, the model stops at the error.
\<close>

section \<open>Numbers\<close>

definition ParseFloat :: "string \<Rightarrow> float64" where
  "ParseFloat n = f64_round (num_value n)"

text \<open>\<open>strconv.ParseInt(s, 10, 64)\<close> on a literal: neither a fraction nor an exponent, and in range.\<close>

definition ParseInt :: "string \<Rightarrow> int64 option" where
  "ParseInt n =
     (case scan_number n of
        Some (d, []) \<Rightarrow>
          (let i = (if dec_sign d = [] then int (read_nat (dec_int d)) else - int (read_nat (dec_int d)))
           in if dec_frac d = [] \<and> dec_exp d = [] \<and> - (2 ^ 63) \<le> i \<and> i < 2 ^ 63 then Some (word_of_int i) else None)
      | _ \<Rightarrow> None)"

section \<open>Storing a value\<close>

datatype json_error = SyntaxError | UnmarshalTypeError string string

type_synonym 'a unmarshaler = "json \<Rightarrow> 'a \<Rightarrow> json_error + 'a"

definition json_kind :: "json \<Rightarrow> string" where
  "json_kind j = (case j of JNull \<Rightarrow> ''null'' | JBool _ \<Rightarrow> ''bool'' | JNum _ \<Rightarrow> ''number'' | JStr _ \<Rightarrow> ''string''
     | JArr _ \<Rightarrow> ''array'' | JObj _ \<Rightarrow> ''object'')"

definition unm_float :: "float64 unmarshaler" where
  "unm_float j a =
     (case j of
        JNull \<Rightarrow> Inr a
      | JNum n \<Rightarrow> (case ParseFloat n of Fin q \<Rightarrow> Inr (Fin q) | _ \<Rightarrow> Inl (UnmarshalTypeError (''number '' @ n) ''float64''))
      | _ \<Rightarrow> Inl (UnmarshalTypeError (json_kind j) ''float64''))"

definition unm_int :: "string \<Rightarrow> int64 unmarshaler" where
  "unm_int ty j a =
     (case j of
        JNull \<Rightarrow> Inr a
      | JNum n \<Rightarrow> (case ParseInt n of Some i \<Rightarrow> Inr i | None \<Rightarrow> Inl (UnmarshalTypeError (''number '' @ n) ty))
      | _ \<Rightarrow> Inl (UnmarshalTypeError (json_kind j) ty))"

definition unm_string :: "string unmarshaler" where
  "unm_string j a =
     (case j of JNull \<Rightarrow> Inr a | JStr s \<Rightarrow> Inr s | _ \<Rightarrow> Inl (UnmarshalTypeError (json_kind j) ''string''))"

text \<open>What follows when nothing failed, and a loop that stops at the first error.\<close>

definition on_ok :: "('a \<Rightarrow> 'b) \<Rightarrow> json_error + 'a \<Rightarrow> json_error + 'b" where
  "on_ok f r = (case r of Inl e \<Rightarrow> Inl e | Inr x \<Rightarrow> Inr (f x))"

lemma on_ok_simps [simp]: "on_ok f (Inr x) = Inr (f x)" "on_ok f (Inl e) = Inl e"
  by (simp_all add: on_ok_def)

fun unm_all :: "('x \<Rightarrow> 'a \<Rightarrow> json_error + 'a) \<Rightarrow> 'x list \<Rightarrow> 'a \<Rightarrow> json_error + 'a" where
  "unm_all f [] a = Inr a"
| "unm_all f (x # xs) a = (case f x a of Inl e \<Rightarrow> Inl e | Inr b \<Rightarrow> unm_all f xs b)"

text \<open>
  \<open>foldName\<close>, as far as names of fields in ASCII can tell: letters in upper case, and the two characters outside
  ASCII that fold to a letter of ASCII, the long s and the Kelvin sign.
\<close>

fun foldName :: "string \<Rightarrow> string" where
  "foldName [] = []"
| "foldName (c # cs) =
     (if byte_in 97 122 c then char_of (of_char c - 32 :: nat) # foldName cs
      else if c = CHR 0xC5 \<and> take 1 cs = [CHR 0xBF] then CHR ''S'' # foldName (drop 1 cs)
      else if c = CHR 0xE2 \<and> take 2 cs = [CHR 0x84, CHR 0xAA] then CHR ''K'' # foldName (drop 2 cs)
      else c # foldName cs)"

type_synonym 'a struct_fields = "(string \<times> 'a unmarshaler) list"

definition field_for :: "'a struct_fields \<Rightarrow> string \<Rightarrow> 'a unmarshaler option" where
  "field_for fs k =
     (case map_of fs k of
        Some u \<Rightarrow> Some u
      | None \<Rightarrow> map_of (map (\<lambda>(n, u). (foldName n, u)) fs) (foldName k))"

definition unm_entry :: "'a struct_fields \<Rightarrow> string \<times> json \<Rightarrow> 'a \<Rightarrow> json_error + 'a" where
  "unm_entry fs e a = (case field_for fs (fst e) of None \<Rightarrow> Inr a | Some u \<Rightarrow> u (snd e) a)"

definition unm_struct :: "string \<Rightarrow> 'a struct_fields \<Rightarrow> 'a unmarshaler" where
  "unm_struct ty fs j a =
     (case j of
        JNull \<Rightarrow> Inr a
      | JObj kvs \<Rightarrow> unm_all (unm_entry fs) kvs a
      | _ \<Rightarrow> Inl (UnmarshalTypeError (json_kind j) ty))"

text \<open>A field of a struct keeps what was stored before as far as the new value does not replace it.\<close>

definition unm_field :: "('r \<Rightarrow> 'f) \<Rightarrow> ('f \<Rightarrow> 'r \<Rightarrow> 'r) \<Rightarrow> 'f unmarshaler \<Rightarrow> 'r unmarshaler" where
  "unm_field get put u j r = on_ok (\<lambda>f. put f r) (u j (get r))"

text \<open>An element of a map is stored anew, whatever the map had under its key.\<close>

definition unm_map :: "string \<Rightarrow> 'v \<Rightarrow> 'v unmarshaler \<Rightarrow> (string, 'v) gomap unmarshaler" where
  "unm_map ty zero u j m =
     (case j of
        JNull \<Rightarrow> Inr []
      | JObj kvs \<Rightarrow> unm_all (\<lambda>(k, v) m. on_ok (\<lambda>x. AList.update k x m) (u v zero)) kvs m
      | _ \<Rightarrow> Inl (UnmarshalTypeError (json_kind j) ty))"

text \<open>A slice into which nothing was stored before, and a pointer.\<close>

definition unm_slice :: "string \<Rightarrow> 'v \<Rightarrow> 'v unmarshaler \<Rightarrow> 'v list unmarshaler" where
  "unm_slice ty zero u j xs =
     (case j of
        JNull \<Rightarrow> Inr []
      | JArr vs \<Rightarrow> unm_all (\<lambda>v xs. on_ok (\<lambda>x. xs @ [x]) (u v zero)) vs []
      | _ \<Rightarrow> Inl (UnmarshalTypeError (json_kind j) ty))"

definition unm_pointer :: "'v \<Rightarrow> 'v unmarshaler \<Rightarrow> 'v option unmarshaler" where
  "unm_pointer zero u j p =
     (if j = JNull then Inr None
      else on_ok Some (u j (case p of None \<Rightarrow> zero | Some v \<Rightarrow> v)))"

definition json_Unmarshal :: "'a unmarshaler \<Rightarrow> string \<Rightarrow> 'a \<Rightarrow> json_error + 'a" where
  "json_Unmarshal u text a = (case decode text of None \<Rightarrow> Inl SyntaxError | Some j \<Rightarrow> u j a)"

section \<open>Lemmas\<close>

named_theorems unmarshal_simps \<open>storing the fields of a struct\<close>

lemma unm_struct_obj [unmarshal_simps]:
  "unm_struct ty fs (JObj kvs) a = unm_all (unm_entry fs) kvs a"
  by (simp add: unm_struct_def)

lemma unm_scalar [unmarshal_simps]:
  "unm_string (JStr s) a' = Inr s"
  "ParseInt n = Some i \<Longrightarrow> unm_int ty (JNum n) b = Inr i"
  "ParseFloat n = Fin q \<Longrightarrow> unm_float (JNum n) c = Inr (Fin q)"
  by (simp_all add: unm_string_def unm_int_def unm_float_def)

declare unm_entry_def [unmarshal_simps] field_for_def [unmarshal_simps] unm_field_def [unmarshal_simps]

lemma unm_slice_arr:
  assumes "\<And>v. v \<in> set vs \<Longrightarrow> u (enc v) zero = Inr v"
  shows "unm_slice ty zero u (JArr (map enc vs)) xs = Inr vs"
proof -
  let ?F = "\<lambda>v xs. on_ok (\<lambda>x. xs @ [x]) (u v zero)"
  have "unm_all ?F (map enc ys) acc = Inr (acc @ ys)" if "set ys \<subseteq> set vs" for ys acc
    using that assms by (induction ys arbitrary: acc) simp_all
  then show ?thesis by (simp add: unm_slice_def)
qed

text \<open>
  The order of the entries of an object does not matter to a struct: what ends up in a field is what its
  decoder makes of the entries that have the name of the field, up to case, one after the other.
\<close>

definition members_for :: "string \<Rightarrow> (string \<times> json) list \<Rightarrow> json list" where
  "members_for tag kvs = map snd (filter (\<lambda>e. foldName (fst e) = foldName tag) kvs)"

definition tags_distinct :: "'a struct_fields \<Rightarrow> bool" where
  "tags_distinct fs \<longleftrightarrow> distinct (map (foldName \<circ> fst) fs)"

lemma field_for_folded:
  assumes "tags_distinct fs" and "(tag, u) \<in> set fs" and "foldName k = foldName tag"
  shows "field_for fs k = Some u"
proof -
  have d: "distinct (map (foldName \<circ> fst) fs)" using assms(1) by (simp add: tags_distinct_def)
  have u': "u' = u" if "(k', u') \<in> set fs" "foldName k' = foldName k" for k' u'
    using d assms(2,3) that by (induction fs) force+
  have "(foldName k, u) \<in> set (map (\<lambda>(n, u). (foldName n, u)) fs)" using assms(2,3) by force
  moreover have "distinct (map fst (map (\<lambda>(n, u). (foldName n, u)) fs))"
    using d by (simp add: case_prod_beta o_def)
  ultimately have "map_of (map (\<lambda>(n, u). (foldName n, u)) fs) (foldName k) = Some u" by simp
  then show ?thesis using u' [of k] by (auto simp: field_for_def split: option.split dest: map_of_SomeD)
qed

lemma field_for_SomeD:
  assumes "field_for fs k = Some u"
  shows "\<exists>tag. (tag, u) \<in> set fs \<and> foldName k = foldName tag"
  using assms by (force simp: field_for_def split: option.splits dest: map_of_SomeD)

lemma unm_struct_ok:
  assumes "\<And>tag u v a. (tag, u) \<in> set fs \<Longrightarrow> v \<in> set (members_for tag kvs) \<Longrightarrow> \<exists>b. u v a = Inr b"
  shows "\<exists>b. unm_struct ty fs (JObj kvs) a = Inr b"
proof -
  have "\<exists>b. unm_entry fs e a = Inr b" if "e \<in> set kvs" for e a
  proof (cases "field_for fs (fst e)")
    case (Some u)
    then obtain tag where "(tag, u) \<in> set fs" "foldName (fst e) = foldName tag" using field_for_SomeD by blast
    then show ?thesis using assms [of tag u "snd e" a] that Some by (auto simp: unm_entry_def members_for_def)
  qed (simp add: unm_entry_def)
  then have "\<exists>b. unm_all (unm_entry fs) kvs a = Inr b"
    by (induction kvs arbitrary: a) (auto split: sum.split, metis Inl_Inr_False)
  then show ?thesis by (simp add: unm_struct_def)
qed

lemma unm_struct_view:
  assumes "tags_distinct fs" and "(tag, unm_field get put u) \<in> set fs" and "\<And>x r. get (put x r) = x"
    and "\<And>t w v a a'. (t, w) \<in> set fs \<Longrightarrow> foldName t \<noteq> foldName tag \<Longrightarrow> w v a = Inr a' \<Longrightarrow> get a' = get a"
    and "unm_struct ty fs (JObj kvs) a = Inr b"
  shows "unm_all u (members_for tag kvs) (get a) = Inr (get b)"
proof -
  have "unm_all (unm_entry fs) kvs a = Inr b" using assms(5) by (simp add: unm_struct_def)
  then show ?thesis
  proof (induction kvs arbitrary: a)
    case (Cons e kvs)
    then obtain a' where a': "unm_entry fs e a = Inr a'" "unm_all (unm_entry fs) kvs a' = Inr b"
      by (auto split: sum.splits)
    note IH = Cons.IH [OF a'(2)]
    show ?case
    proof (cases "foldName (fst e) = foldName tag")
      case True
      then have "u (snd e) (get a) = Inr (get a')"
        using a'(1) field_for_folded [OF assms(1,2) True] assms(3)
        by (auto simp: unm_entry_def unm_field_def on_ok_def split: sum.splits)
      then show ?thesis using True IH by (simp add: members_for_def)
    next
      case False
      then have "get a' = get a"
        using a'(1) assms(4) field_for_SomeD by (fastforce simp: unm_entry_def split: option.splits)
      then show ?thesis using False IH by (simp add: members_for_def)
    qed
  qed (simp add: members_for_def)
qed

lemma unm_struct_member:
  assumes "unm_struct ty fs (JObj kvs) a = Inr b" and "members_for tag kvs = [v]"
    and "tags_distinct fs" and "(tag, unm_field get put u) \<in> set fs" and "\<And>x r. get (put x r) = x"
    and "\<And>t w v a a'. (t, w) \<in> set fs \<Longrightarrow> foldName t \<noteq> foldName tag \<Longrightarrow> w v a = Inr a' \<Longrightarrow> get a' = get a"
  shows "u v (get a) = Inr (get b)"
proof -
  have "unm_all u (members_for tag kvs) (get a) = Inr (get b)"
    by (rule unm_struct_view [OF assms(3,4,5) _ assms(1)]) (rule assms(6))
  then show ?thesis using assms(2) by (simp split: sum.splits)
qed

text \<open>In a map the last entry with a name counts.\<close>

lemma unm_map_lookup:
  assumes "\<And>k v. (k, v) \<in> set kvs \<Longrightarrow> u v zero = Inr (f v)"
  obtains m' where "unm_map ty zero u (JObj kvs) m = Inr m'"
    and "\<And>k. map_of m' k = (case map_of (rev kvs) k of Some v \<Rightarrow> Some (f v) | None \<Rightarrow> map_of m k)"
    and "kvs \<noteq> [] \<Longrightarrow> m' \<noteq> []"
proof -
  let ?F = "\<lambda>(k, v) m. on_ok (\<lambda>x. AList.update k x m) (u v zero)"
  have ne: "AList.update k x m \<noteq> []" for k x and m :: "(string \<times> 'a) list" by (cases m) auto
  have "\<exists>m'. unm_all ?F kvs m = Inr m' \<and>
      (\<forall>k. map_of m' k = (case map_of (rev kvs) k of Some v \<Rightarrow> Some (f v) | None \<Rightarrow> map_of m k)) \<and>
      (kvs \<noteq> [] \<or> m \<noteq> [] \<longrightarrow> m' \<noteq> [])"
    using assms
  proof (induction kvs arbitrary: m)
    case (Cons e kvs)
    obtain k v where e: "e = (k, v)" by fastforce
    have uv: "u v zero = Inr (f v)" using Cons.prems [of k v] e by simp
    obtain m' where m': "unm_all ?F kvs (AList.update k (f v) m) = Inr m'"
      "\<forall>k'. map_of m' k' = (case map_of (rev kvs) k' of Some v' \<Rightarrow> Some (f v') | None \<Rightarrow> map_of (AList.update k (f v) m) k')"
      "m' \<noteq> []"
      using Cons.IH [of "AList.update k (f v) m"] Cons.prems ne by auto
    show ?case
      using m' uv by (intro exI [of _ m']) (auto simp: e map_add_def update_conv' split: option.split)
  qed simp
  then show ?thesis using that by (auto simp: unm_map_def)
qed

section \<open>Printing numbers\<close>

text \<open>The literal of an integer.\<close>

lemma show_nat_head: "show_nat n = c # cs \<Longrightarrow> c = CHR ''0'' \<Longrightarrow> cs = []"
proof (induction n arbitrary: cs rule: show_nat.induct)
  case (1 n)
  show ?case
  proof (cases "n < 10")
    case False
    then obtain ds where "show_nat (n div 10) = c # ds" and cs: "cs = ds @ [digit_char (n mod 10)]"
      using 1(2) show_nat_digits [of "n div 10"] by (cases "show_nat (n div 10)") (auto simp: show_nat.simps [of n])
    then have "show_nat (n div 10) = ''0''" using 1(1) [OF False] 1(3) by simp
    then have "read_nat (show_nat (n div 10)) = read_nat ''0''" by (rule arg_cong)
    then have "n div 10 = 0" unfolding read_show_nat by (simp add: read_nat_def digit_val_def)
    then show ?thesis using False by simp
  qed (use 1 in \<open>simp add: show_nat.simps [of n]\<close>)
qed

lemma scan_show_nat:
  assumes "r = [] \<or> \<not> is_digit (hd r)"
  shows "scan_digits (show_nat n @ r) = Some (show_nat n, r)" "scan_int (show_nat n @ r) = Some (show_nat n, r)"
proof -
  have all: "\<forall>c \<in> set (show_nat n). is_digit c" and ne: "show_nat n \<noteq> []"
    using show_nat_digits [of n] by (simp_all add: is_digit_def byte_in_def list_all_iff)
  then have "takeWhile is_digit (show_nat n @ r) = show_nat n" "dropWhile is_digit (show_nat n @ r) = r"
    using assms by (cases r; simp)+
  then show digits: "scan_digits (show_nat n @ r) = Some (show_nat n, r)" using ne by (simp add: scan_digits_def)
  obtain c cs where c: "show_nat n = c # cs" using ne by (cases "show_nat n") simp_all
  show "scan_int (show_nat n @ r) = Some (show_nat n, r)"
    using digits show_nat_head [OF c] by (simp add: scan_int_def c)
qed

lemma scan_show_int:
  assumes "r = [] \<or> (\<exists>k. r = ''e-'' @ show_nat k)"
  shows "scan_number (show_int i @ r) =
    Some (\<lparr>dec_sign = (if i < 0 then ''-'' else []), dec_int = show_nat (nat \<bar>i\<bar>), dec_frac = [], dec_exp = r\<rparr>, [])"
proof -
  have r: "r = [] \<or> \<not> is_digit (hd r)" using assms by (auto simp: is_digit_def byte_in_def)
  obtain c cs where c: "show_nat (nat i) = c # cs" "is_digit c"
    using show_nat_digits [of "nat i"] by (cases "show_nat (nat i)") (auto simp: is_digit_def byte_in_def)
  then have sign: "scan_sign ''-'' (show_int i @ r) = (if i < 0 then ''-'' else [], show_nat (nat \<bar>i\<bar>) @ r)"
    by (auto simp: show_int_def scan_sign_def is_digit_def byte_in_def)
  have "scan_frac r = Some ([], r)" using assms by (auto simp: scan_frac_def)
  moreover have "scan_exp r = Some (r, [])"
    using assms scan_show_nat(1) [of "[]"] by (auto simp: scan_exp_def scan_sign_def)
  ultimately show ?thesis using sign scan_show_nat(2) [OF r, of "nat \<bar>i\<bar>"] by (simp add: scan_number_def)
qed

lemma show_int_literal [simp]: "num_literal (show_int i)"
  using scan_show_int [of "[]" i] by (simp add: num_literal_def)

lemma ParseInt_show [simp]: "ParseInt (show_int (sint i)) = Some i"
proof -
  have "- (2 ^ 63) \<le> sint i" "sint i < 2 ^ 63"
    using sint_greater_eq [of i] sint_less [of i] by simp_all
  moreover have "(if sint i < 0 then - int (nat \<bar>sint i\<bar>) else int (nat \<bar>sint i\<bar>)) = sint i" by simp
  ultimately show ?thesis using scan_show_int [of "[]" "sint i"] by (simp add: ParseInt_def Let_def)
qed

text \<open>
  \<open>strconv\<close> prints a float with as many digits as it takes to read the same value back.
\<close>

definition is_f64 :: "rat \<Rightarrow> bool" where
  "is_f64 q \<longleftrightarrow> f64_round q = Fin q"

locale float_text =
  fixes fmt :: "rat \<Rightarrow> string"
  assumes fmt_literal: "num_literal (fmt q)"
    and parse_fmt: "is_f64 q \<Longrightarrow> ParseFloat (fmt q) = Fin q"

text \<open>A reference: the exact decimal expansion, which every float has, with as many places as may be needed.\<close>

definition places :: nat where
  "places = 1074"

definition ref_fmt :: "rat \<Rightarrow> string" where
  "ref_fmt q = show_int \<lfloor>q * 10 ^ places\<rfloor> @ ''e-'' @ show_nat places"

lemma round_mag_grid: "\<exists>n. round_mag x * 2 ^ places = of_int n"
proof (cases "x \<le> 0")
  case False
  let ?u = "ulp_exp x"
  have u: "0 \<le> ?u + int places" by (simp add: ulp_exp_def places_def)
  have "(2 :: rat) powi ?u * 2 ^ places = 2 powi (?u + int places)"
    by (simp add: power_int_add flip: power_int_of_nat)
  also have "\<dots> = of_int (2 ^ nat (?u + int places))" using u by (rule powi2_of_nat)
  finally have "round_mag x * 2 ^ places = of_int (rne (x / 2 powi ?u)) * of_int (2 ^ nat (?u + int places))"
    using False by (simp add: round_mag_def mult.assoc)
  then show ?thesis by (metis of_int_mult)
qed simp

lemma f64_decimal:
  assumes "is_f64 q"
  shows "of_int \<lfloor>q * 10 ^ places\<rfloor> = q * 10 ^ places"
proof -
  have "q = sgn q * round_mag \<bar>q\<bar>"
    using assms by (auto simp: is_f64_def f64_round_def Let_def split: if_splits)
  moreover obtain n where "round_mag \<bar>q\<bar> * 2 ^ places = of_int n" using round_mag_grid by blast
  moreover have "sgn q \<in> \<int>" by (simp add: sgn_if)
  ultimately have "q * 2 ^ places \<in> \<int>" by (metis Ints_mult Ints_of_int mult.assoc)
  moreover have "(5 :: rat) ^ places \<in> \<int>" by (rule Ints_power) simp
  ultimately have "q * 2 ^ places * 5 ^ places \<in> \<int>" by (rule Ints_mult)
  moreover have "q * 10 ^ places = q * 2 ^ places * 5 ^ places" by (simp flip: power_mult_distrib add: mult.assoc)
  ultimately have "q * 10 ^ places \<in> \<int>" by metis
  then show ?thesis by (metis Ints_cases floor_of_int)
qed

lemma num_value_ref: "num_value (ref_fmt q) = of_int \<lfloor>q * 10 ^ places\<rfloor> / 10 ^ places"
proof -
  let ?i = "\<lfloor>q * 10 ^ places\<rfloor>"
  have "(if ?i < 0 then - 1 else 1) * of_nat (nat \<bar>?i\<bar>) = (of_int ?i :: rat)" by simp
  moreover have "(10 :: rat) powi (- int places) = 1 / 10 ^ places" by (simp add: power_int_minus divide_inverse)
  ultimately show ?thesis
    using scan_show_int [of "''e-'' @ show_nat places" ?i]
    by (auto simp: ref_fmt_def num_value_def dec_value_def dec_power_def scan_sign_def)
qed

interpretation ref_float: float_text ref_fmt
proof
  show "num_literal (ref_fmt q)" for q
    using scan_show_int [of "''e-'' @ show_nat places" "\<lfloor>q * 10 ^ places\<rfloor>"] by (auto simp: num_literal_def ref_fmt_def)
  show "ParseFloat (ref_fmt q) = Fin q" if "is_f64 q" for q
    using that unfolding ParseFloat_def num_value_ref f64_decimal [OF that] by (simp add: is_f64_def)
qed

end
