(* ===== verification/CloudSpecs.thy ===== *)
theory CloudSpecs
  imports Unmarshal
begin

text \<open>
  \<^verbatim>\<open>src/pkg/config/public_cloud_specs.go\<close>: the table of machine types and Redis tiers that turns
  what is found in a cluster into billable quantities, its lookups, and its loading from the file
  named by the environment.
\<close>

section \<open>Data\<close>

definition Azure :: string where "Azure = ''azure''"
definition AWS :: string where "AWS = ''aws''"
definition GCP :: string where "GCP = ''gcp''"
definition CCEE :: string where "CCEE = ''sapconvergedcloud''"

lemmas provider_names = Azure_def AWS_def GCP_def CCEE_def

record Feature =
  CpuCores :: float64
  Memory :: float64

record RedisInfo =
  PriceStorageGB :: int64
  PriceCapacityUnits :: int64

record Providers =
  pv_Azure :: "(string, Feature) gomap"
  pv_AWS :: "(string, Feature) gomap"
  pv_GCP :: "(string, Feature) gomap"
  pv_OpenStack :: "(string, Feature) gomap"

record PublicCloudSpecs =
  pcs_Providers :: Providers
  pcs_Redis :: "(string, RedisInfo) gomap"

section \<open>Lookups\<close>

definition GetFeature :: "PublicCloudSpecs \<Rightarrow> string \<Rightarrow> string \<Rightarrow> Feature option" where
  "GetFeature pcs cloudProvider vmType =
     (if cloudProvider = AWS then map_of (pv_AWS (pcs_Providers pcs)) vmType
      else if cloudProvider = Azure then map_of (pv_Azure (pcs_Providers pcs)) vmType
      else if cloudProvider = GCP then map_of (pv_GCP (pcs_Providers pcs)) vmType
      else if cloudProvider = CCEE then map_of (pv_OpenStack (pcs_Providers pcs)) vmType
      else None)"

definition GetRedisInfo :: "PublicCloudSpecs \<Rightarrow> string \<Rightarrow> RedisInfo option" where
  "GetRedisInfo pcs tier = map_of (pcs_Redis pcs) tier"

section \<open>Loading\<close>

text \<open>The structs as \<open>json.Unmarshal\<close> fills them, by the tags of their fields; the zero values they start from.\<close>

definition zeroFeature :: Feature where
  "zeroFeature = \<lparr>CpuCores = Fin 0, Memory = Fin 0\<rparr>"

definition zeroRedisInfo :: RedisInfo where
  "zeroRedisInfo = \<lparr>PriceStorageGB = 0, PriceCapacityUnits = 0\<rparr>"

definition zeroSpecs :: PublicCloudSpecs where
  "zeroSpecs = \<lparr>pcs_Providers = \<lparr>pv_Azure = [], pv_AWS = [], pv_GCP = [], pv_OpenStack = []\<rparr>, pcs_Redis = []\<rparr>"

definition unm_Feature :: "Feature unmarshaler" where
  "unm_Feature = unm_struct ''config.Feature''
     [(''cpu_cores'', unm_field CpuCores (\<lambda>x r. r\<lparr>CpuCores := x\<rparr>) unm_float),
      (''memory'', unm_field Memory (\<lambda>x r. r\<lparr>Memory := x\<rparr>) unm_float)]"

definition unm_RedisInfo :: "RedisInfo unmarshaler" where
  "unm_RedisInfo = unm_struct ''config.RedisInfo''
     [(''price_storage_gb'', unm_field PriceStorageGB (\<lambda>x r. r\<lparr>PriceStorageGB := x\<rparr>) (unm_int ''int'')),
      (''price_cu'', unm_field PriceCapacityUnits (\<lambda>x r. r\<lparr>PriceCapacityUnits := x\<rparr>) (unm_int ''int''))]"

definition unm_features :: "(string, Feature) gomap unmarshaler" where
  "unm_features = unm_map ''map[string]config.Feature'' zeroFeature unm_Feature"

definition unm_tiers :: "(string, RedisInfo) gomap unmarshaler" where
  "unm_tiers = unm_map ''map[string]config.RedisInfo'' zeroRedisInfo unm_RedisInfo"

definition unm_Providers :: "Providers unmarshaler" where
  "unm_Providers = unm_struct ''config.Providers''
     [(''azure'', unm_field pv_Azure (\<lambda>x r. r\<lparr>pv_Azure := x\<rparr>) unm_features),
      (''aws'', unm_field pv_AWS (\<lambda>x r. r\<lparr>pv_AWS := x\<rparr>) unm_features),
      (''gcp'', unm_field pv_GCP (\<lambda>x r. r\<lparr>pv_GCP := x\<rparr>) unm_features),
      (''sapconvergedcloud'', unm_field pv_OpenStack (\<lambda>x r. r\<lparr>pv_OpenStack := x\<rparr>) unm_features)]"

definition unm_PublicCloudSpecs :: "PublicCloudSpecs unmarshaler" where
  "unm_PublicCloudSpecs = unm_struct ''config.PublicCloudSpecs''
     [(''providers'', unm_field pcs_Providers (\<lambda>x r. r\<lparr>pcs_Providers := x\<rparr>) unm_Providers),
      (''redis_tiers'', unm_field pcs_Redis (\<lambda>x r. r\<lparr>pcs_Redis := x\<rparr>) unm_tiers)]"

text \<open>\<open>readFile\<close> is \<open>os.ReadFile\<close>; \<open>jsonError\<close> is the Go error, with its text, of a failed decoding.\<close>

definition LoadPublicCloudSpecs ::
  "(string \<Rightarrow> go_error + string) \<Rightarrow> (json_error \<Rightarrow> go_error) \<Rightarrow> string \<Rightarrow> go_error + PublicCloudSpecs" where
  "LoadPublicCloudSpecs readFile jsonError path =
     (if path = '''' then Inl (ErrorString ''public cloud specification path is not configured'')
      else case readFile path of
        Inl err \<Rightarrow> Inl (errors_Wrapf err ''failed to read public cloud specs file'')
      | Inr specsJSON \<Rightarrow>
         (case json_Unmarshal unm_PublicCloudSpecs specsJSON zeroSpecs of
            Inl err \<Rightarrow> Inl (errors_Wrapf (jsonError err) ''failed to unmarshal public cloud specs'')
          | Inr specs \<Rightarrow>
              if length (pcs_Redis specs) = 0 then
                Inl (ErrorString ''public cloud specs do not contain Redis tiers'')
              else if length (pv_AWS (pcs_Providers specs)) = 0 then
                Inl (ErrorString ''public cloud specs do not contain AWS VM types'')
              else if length (pv_Azure (pcs_Providers specs)) = 0 then
                Inl (ErrorString ''public cloud specs do not contain Azure VM types'')
              else if length (pv_GCP (pcs_Providers specs)) = 0 then
                Inl (ErrorString ''public cloud specs do not contain GCP VM types'')
              else if length (pv_OpenStack (pcs_Providers specs)) = 0 then
                Inl (ErrorString ''public cloud specs do not contain OpenStack VM types'')
              else Inr specs))"

text \<open>What every later lookup may rely on: no table is empty.\<close>

definition specs_complete :: "PublicCloudSpecs \<Rightarrow> bool" where
  "specs_complete s \<longleftrightarrow> pcs_Redis s \<noteq> [] \<and>
     (\<forall>m \<in> {pv_AWS (pcs_Providers s), pv_Azure (pcs_Providers s), pv_GCP (pcs_Providers s),
            pv_OpenStack (pcs_Providers s)}. m \<noteq> [])"

lemma LoadPublicCloudSpecs_decoded:
  assumes "readFile path = Inr d" and "json_Unmarshal unm_PublicCloudSpecs d zeroSpecs = Inr s'"
  shows "LoadPublicCloudSpecs readFile jsonError path = Inr s
           \<longleftrightarrow> path \<noteq> '''' \<and> specs_complete s' \<and> s' = s"
  by (simp only: LoadPublicCloudSpecs_def assms sum.case specs_complete_def length_0_conv
      if_distrib [of "\<lambda>x. x = Inr s"] sum.distinct sum.inject if_bool_eq_conj simp_thms
      ball_simps) blast

lemma LoadPublicCloudSpecs_Inr:
  "LoadPublicCloudSpecs readFile jsonError path = Inr s \<longleftrightarrow>
     path \<noteq> '''' \<and> specs_complete s \<and> (\<exists>d. readFile path = Inr d \<and> json_Unmarshal unm_PublicCloudSpecs d zeroSpecs = Inr s)"
proof (cases "readFile path")
  case (Inl e)
  then show ?thesis by (simp only: LoadPublicCloudSpecs_def sum.case) simp
next
  case (Inr d)
  then show ?thesis
  proof (cases "json_Unmarshal unm_PublicCloudSpecs d zeroSpecs")
    case (Inl e)
    with Inr show ?thesis by (simp only: LoadPublicCloudSpecs_def sum.case) simp
  next
    case (Inr s')
    with \<open>readFile path = Inr d\<close> show ?thesis
      using LoadPublicCloudSpecs_decoded [of readFile path d s' jsonError s] by auto
  qed
qed

text \<open>Every provider the collector knows has at least one machine type it can price.\<close>

lemma specs_complete_priced:
  assumes "specs_complete s" and "p \<in> {AWS, Azure, GCP, CCEE}"
  shows "\<exists>vm f. GetFeature s p vm = Some f"
proof -
  have hd: "\<exists>vm f. map_of m vm = Some f" if "m \<noteq> []" for m :: "(string, Feature) gomap"
    using that by (cases m) auto
  from assms hd show ?thesis
    by (auto simp: specs_complete_def GetFeature_def provider_names)
qed

definition providers_priced :: "PublicCloudSpecs \<Rightarrow> bool" where
  "providers_priced s \<longleftrightarrow> (\<forall>p \<in> {AWS, Azure, GCP, CCEE}. \<exists>vm f. GetFeature s p vm = Some f)"

text \<open>
  C32: loading returns a specification exactly when the path is set, the file can be read, its JSON is valid and
  fits the structs, and no table of the result is empty; and then each of the four providers has a machine
  type with a price.
\<close>

theorem LoadPublicCloudSpecs_Inr_iff:
  "LoadPublicCloudSpecs readFile jsonError path = Inr s \<longleftrightarrow>
     path \<noteq> '''' \<and> specs_complete s \<and>
     (\<exists>d. readFile path = Inr d \<and> json_Unmarshal unm_PublicCloudSpecs d zeroSpecs = Inr s) \<and> providers_priced s"
  using specs_complete_priced unfolding LoadPublicCloudSpecs_Inr providers_priced_def by blast

section \<open>What a file says\<close>

text \<open>
  How a specification file is read, in words of its JSON alone. A member of an object is found by its name up to
  case, wherever it stands and whatever else the object has; it must be there once.
\<close>

definition json_entries :: "json \<Rightarrow> (string \<times> json) list" where
  "json_entries j = (case j of JObj kvs \<Rightarrow> kvs | _ \<Rightarrow> [])"

definition json_member :: "string \<Rightarrow> json \<Rightarrow> json" where
  "json_member tag j = (case members_for tag (json_entries j) of [v] \<Rightarrow> v | _ \<Rightarrow> JNull)"

definition json_number :: "string \<Rightarrow> json \<Rightarrow> string" where
  "json_number tag j = (case json_member tag j of JNum n \<Rightarrow> n | _ \<Rightarrow> [])"

definition provider_tag :: "string \<Rightarrow> string option" where
  "provider_tag p = (if p = AWS then Some ''aws'' else if p = Azure then Some ''azure'' else if p = GCP then Some ''gcp''
     else if p = CCEE then Some ''sapconvergedcloud'' else None)"

definition machine_entries :: "json \<Rightarrow> string \<Rightarrow> (string \<times> json) list" where
  "machine_entries j p = (case provider_tag p of
     None \<Rightarrow> [] | Some tag \<Rightarrow> json_entries (json_member tag (json_member ''providers'' j)))"

definition tier_entries :: "json \<Rightarrow> (string \<times> json) list" where
  "tier_entries j = json_entries (json_member ''redis_tiers'' j)"

definition feature_in :: "json \<Rightarrow> Feature" where
  "feature_in v = \<lparr>CpuCores = ParseFloat (json_number ''cpu_cores'' v), Memory = ParseFloat (json_number ''memory'' v)\<rparr>"

definition redis_in :: "json \<Rightarrow> RedisInfo" where
  "redis_in v = \<lparr>PriceStorageGB = the (ParseInt (json_number ''price_storage_gb'' v)),
     PriceCapacityUnits = the (ParseInt (json_number ''price_cu'' v))\<rparr>"

text \<open>The numbers of a machine type are floats in range, those of a tier integers in range.\<close>

definition float_member :: "string \<Rightarrow> json \<Rightarrow> bool" where
  "float_member tag v \<longleftrightarrow> json_member tag v = JNum (json_number tag v) \<and> f64_finite (ParseFloat (json_number tag v))"

definition int_member :: "string \<Rightarrow> json \<Rightarrow> bool" where
  "int_member tag v \<longleftrightarrow> json_member tag v = JNum (json_number tag v) \<and> ParseInt (json_number tag v) \<noteq> None"

definition specs_file :: "json \<Rightarrow> bool" where
  "specs_file j \<longleftrightarrow>
     (\<forall>p \<in> {AWS, Azure, GCP, CCEE}. machine_entries j p \<noteq> [] \<and>
        (\<forall>(vm, v) \<in> set (machine_entries j p). float_member ''cpu_cores'' v \<and> float_member ''memory'' v)) \<and>
     tier_entries j \<noteq> [] \<and>
     (\<forall>(tier, v) \<in> set (tier_entries j). int_member ''price_storage_gb'' v \<and> int_member ''price_cu'' v)"

lemma json_member_obj:
  assumes "json_member tag j \<noteq> JNull"
  obtains kvs where "j = JObj kvs" and "members_for tag kvs = [json_member tag j]"
  using assms by (auto simp: json_member_def json_entries_def members_for_def split: json.splits list.splits)

lemma json_entries_obj: "json_entries j \<noteq> [] \<Longrightarrow> j = JObj (json_entries j)"
  by (auto simp: json_entries_def split: json.splits)

subsection \<open>The structs\<close>

lemma spec_tags:
  "tags_distinct [(''cpu_cores'', f), (''memory'', g)]" "tags_distinct [(''price_storage_gb'', h), (''price_cu'', i)]"
  "tags_distinct [(''azure'', k), (''aws'', l), (''gcp'', m), (''sapconvergedcloud'', n)]"
  "tags_distinct [(''providers'', q), (''redis_tiers'', r)]"
  by (simp_all add: tags_distinct_def byte_in_def)

lemma unm_float_member: "float_member tag v \<Longrightarrow> unm_float (json_member tag v) a = Inr (ParseFloat (json_number tag v))"
  by (auto simp: float_member_def unm_float_def f64_finite_def split: float64.splits json.splits)

lemma unm_int_member: "int_member tag v \<Longrightarrow> unm_int ty (json_member tag v) a = Inr (the (ParseInt (json_number tag v)))"
  by (auto simp: int_member_def unm_int_def split: json.splits)

lemma unm_Feature_in:
  assumes "float_member ''cpu_cores'' v" and "float_member ''memory'' v"
  shows "unm_Feature v a = Inr (feature_in v)"
proof -
  obtain kvs where v: "v = JObj kvs" and cpu: "members_for ''cpu_cores'' kvs = [json_member ''cpu_cores'' v]"
    using json_member_obj [of "''cpu_cores''" v] assms(1) by (auto simp: float_member_def)
  have mem: "members_for ''memory'' kvs = [json_member ''memory'' v]"
    using json_member_obj [of "''memory''" v] assms(2) v by (auto simp: float_member_def)
  note floats = unm_float_member [OF assms(1)] unm_float_member [OF assms(2)]
  have "\<exists>b. unm_Feature v a = Inr b"
    unfolding unm_Feature_def v
    by (rule unm_struct_ok) (use cpu mem floats v in \<open>auto simp: unm_field_def\<close>)
  then obtain b where b: "unm_Feature v a = Inr b" by blast
  note view = unm_struct_member [OF b [unfolded unm_Feature_def v]]
  have "unm_float (json_member ''cpu_cores'' v) (CpuCores a) = Inr (CpuCores b)"
    by (rule view [OF cpu spec_tags(1)]) (auto simp: unm_field_def on_ok_def split: sum.splits)
  moreover have "unm_float (json_member ''memory'' v) (Memory a) = Inr (Memory b)"
    by (rule view [OF mem spec_tags(1)]) (auto simp: unm_field_def on_ok_def split: sum.splits)
  ultimately show ?thesis using b floats by (simp add: feature_in_def)
qed

lemma unm_RedisInfo_in:
  assumes "int_member ''price_storage_gb'' v" and "int_member ''price_cu'' v"
  shows "unm_RedisInfo v a = Inr (redis_in v)"
proof -
  obtain kvs where v: "v = JObj kvs" and gb: "members_for ''price_storage_gb'' kvs = [json_member ''price_storage_gb'' v]"
    using json_member_obj [of "''price_storage_gb''" v] assms(1) by (auto simp: int_member_def)
  have cu: "members_for ''price_cu'' kvs = [json_member ''price_cu'' v]"
    using json_member_obj [of "''price_cu''" v] assms(2) v by (auto simp: int_member_def)
  note ints = unm_int_member [OF assms(1)] unm_int_member [OF assms(2)]
  have "\<exists>b. unm_RedisInfo v a = Inr b"
    unfolding unm_RedisInfo_def v
    by (rule unm_struct_ok) (use gb cu ints v in \<open>auto simp: unm_field_def\<close>)
  then obtain b where b: "unm_RedisInfo v a = Inr b" by blast
  note view = unm_struct_member [OF b [unfolded unm_RedisInfo_def v]]
  have "unm_int ''int'' (json_member ''price_storage_gb'' v) (PriceStorageGB a) = Inr (PriceStorageGB b)"
    by (rule view [OF gb spec_tags(2)]) (auto simp: unm_field_def on_ok_def split: sum.splits)
  moreover have "unm_int ''int'' (json_member ''price_cu'' v) (PriceCapacityUnits a) = Inr (PriceCapacityUnits b)"
    by (rule view [OF cu spec_tags(2)]) (auto simp: unm_field_def on_ok_def split: sum.splits)
  ultimately show ?thesis using b ints by (simp add: redis_in_def)
qed

subsection \<open>The tables\<close>

definition machine_table :: "json \<Rightarrow> bool" where
  "machine_table t \<longleftrightarrow> json_entries t \<noteq> [] \<and>
     (\<forall>(vm, v) \<in> set (json_entries t). float_member ''cpu_cores'' v \<and> float_member ''memory'' v)"

lemma unm_features_table:
  assumes "machine_table t"
  obtains m' where "unm_features t m = Inr m'" and "m' \<noteq> []"
    and "m = [] \<Longrightarrow> map_of m' = (\<lambda>vm. map_option feature_in (map_of (rev (json_entries t)) vm))"
proof -
  have t: "t = JObj (json_entries t)" using assms by (intro json_entries_obj) (simp add: machine_table_def)
  have "unm_Feature v zeroFeature = Inr (feature_in v)" if "(vm, v) \<in> set (json_entries t)" for vm v
    using assms that by (intro unm_Feature_in) (auto simp: machine_table_def)
  then obtain m' where m': "unm_map ''map[string]config.Feature'' zeroFeature unm_Feature (JObj (json_entries t)) m = Inr m'"
    "\<And>k. map_of m' k = (case map_of (rev (json_entries t)) k of Some v \<Rightarrow> Some (feature_in v) | None \<Rightarrow> map_of m k)"
    "json_entries t \<noteq> [] \<Longrightarrow> m' \<noteq> []"
    using unm_map_lookup [of "json_entries t" unm_Feature zeroFeature feature_in] by blast
  show ?thesis
  proof (rule that)
    show "unm_features t m = Inr m'" using m'(1) t by (simp add: unm_features_def)
    show "m' \<noteq> []" using m'(3) assms by (simp add: machine_table_def)
    show "map_of m' = (\<lambda>vm. map_option feature_in (map_of (rev (json_entries t)) vm))" if "m = []"
      unfolding fun_eq_iff m'(2) that by (simp split: option.split)
  qed
qed

definition tier_table :: "json \<Rightarrow> bool" where
  "tier_table t \<longleftrightarrow> json_entries t \<noteq> [] \<and>
     (\<forall>(tier, v) \<in> set (json_entries t). int_member ''price_storage_gb'' v \<and> int_member ''price_cu'' v)"

lemma unm_tiers_table:
  assumes "tier_table t"
  obtains m' where "unm_tiers t m = Inr m'" and "m' \<noteq> []"
    and "m = [] \<Longrightarrow> map_of m' = (\<lambda>tier. map_option redis_in (map_of (rev (json_entries t)) tier))"
proof -
  have t: "t = JObj (json_entries t)" using assms by (intro json_entries_obj) (simp add: tier_table_def)
  have "unm_RedisInfo v zeroRedisInfo = Inr (redis_in v)" if "(tier, v) \<in> set (json_entries t)" for tier v
    using assms that by (intro unm_RedisInfo_in) (auto simp: tier_table_def)
  then obtain m' where m': "unm_map ''map[string]config.RedisInfo'' zeroRedisInfo unm_RedisInfo (JObj (json_entries t)) m = Inr m'"
    "\<And>k. map_of m' k = (case map_of (rev (json_entries t)) k of Some v \<Rightarrow> Some (redis_in v) | None \<Rightarrow> map_of m k)"
    "json_entries t \<noteq> [] \<Longrightarrow> m' \<noteq> []"
    using unm_map_lookup [of "json_entries t" unm_RedisInfo zeroRedisInfo redis_in] by blast
  show ?thesis
  proof (rule that)
    show "unm_tiers t m = Inr m'" using m'(1) t by (simp add: unm_tiers_def)
    show "m' \<noteq> []" using m'(3) assms by (simp add: tier_table_def)
    show "map_of m' = (\<lambda>tier. map_option redis_in (map_of (rev (json_entries t)) tier))" if "m = []"
      unfolding fun_eq_iff m'(2) that by (simp split: option.split)
  qed
qed

lemma json_member_table:
  assumes "json_entries (json_member tag j) \<noteq> []" and "j = JObj kvs"
  shows "members_for tag kvs = [json_member tag j]"
  using assms by (auto simp: json_entries_def json_member_def split: json.splits list.splits)

lemma unm_table_ok:
  "machine_table t \<Longrightarrow> \<exists>m'. unm_features t m = Inr m'" "tier_table t \<Longrightarrow> \<exists>m'. unm_tiers t m2 = Inr m'"
  by (metis unm_features_table) (metis unm_tiers_table)

definition has_features :: "(string, Feature) gomap \<Rightarrow> json \<Rightarrow> bool" where
  "has_features m t \<longleftrightarrow> m \<noteq> [] \<and> map_of m = (\<lambda>vm. map_option feature_in (map_of (rev (json_entries t)) vm))"

definition has_tiers :: "(string, RedisInfo) gomap \<Rightarrow> json \<Rightarrow> bool" where
  "has_tiers m t \<longleftrightarrow> m \<noteq> [] \<and> map_of m = (\<lambda>tier. map_option redis_in (map_of (rev (json_entries t)) tier))"

lemma unm_table_view:
  "machine_table t \<Longrightarrow> unm_features t [] = Inr m \<Longrightarrow> has_features m t"
  "tier_table t \<Longrightarrow> unm_tiers t [] = Inr m2 \<Longrightarrow> has_tiers m2 t"
  by (rule unm_features_table [of t "[]"]; simp add: has_features_def)
    (rule unm_tiers_table [of t "[]"]; simp add: has_tiers_def)

definition providers_file :: "json \<Rightarrow> bool" where
  "providers_file j \<longleftrightarrow>
     (\<forall>tag \<in> {''azure'', ''aws'', ''gcp'', ''sapconvergedcloud''}. machine_table (json_member tag j))"

lemma providers_members:
  assumes "providers_file j"
  shows "\<exists>kvs. j = JObj kvs"
    and "tag \<in> {''azure'', ''aws'', ''gcp'', ''sapconvergedcloud''} \<Longrightarrow> j = JObj kvs \<Longrightarrow>
      members_for tag kvs = [json_member tag j] \<and> machine_table (json_member tag j)"
proof -
  have "json_entries (json_member ''azure'' j) \<noteq> []"
    using assms by (simp add: providers_file_def machine_table_def)
  then have "json_member ''azure'' j \<noteq> JNull" by (auto simp: json_entries_def)
  then show "\<exists>kvs. j = JObj kvs" by (metis json_member_obj)
  show "members_for tag kvs = [json_member tag j] \<and> machine_table (json_member tag j)"
    if "tag \<in> {''azure'', ''aws'', ''gcp'', ''sapconvergedcloud''}" "j = JObj kvs"
    using assms that by (auto simp: providers_file_def machine_table_def json_member_table)
qed

lemma unm_Providers_ok:
  assumes "providers_file j"
  shows "\<exists>pv. unm_Providers j a = Inr pv"
proof -
  obtain kvs where j: "j = JObj kvs" using providers_members(1) [OF assms] by blast
  have field: "\<exists>b. unm_field get put unm_features v r = Inr b"
    if "v \<in> set (members_for tag kvs)" "tag \<in> {''azure'', ''aws'', ''gcp'', ''sapconvergedcloud''}"
    for v tag get and put :: "_ \<Rightarrow> Providers \<Rightarrow> Providers" and r
  proof -
    have "machine_table v" using that(1) providers_members(2) [OF assms that(2) j] by simp
    then obtain m where "unm_features v (get r) = Inr m" using unm_table_ok(1) by blast
    then show ?thesis by (simp add: unm_field_def)
  qed
  show ?thesis unfolding unm_Providers_def j
    by (rule unm_struct_ok) (auto intro: field)
qed

lemma unm_Providers_view:
  assumes "providers_file j" and "unm_Providers j (pcs_Providers zeroSpecs) = Inr pv"
  shows "has_features (pv_Azure pv) (json_member ''azure'' j)" "has_features (pv_AWS pv) (json_member ''aws'' j)"
    "has_features (pv_GCP pv) (json_member ''gcp'' j)" "has_features (pv_OpenStack pv) (json_member ''sapconvergedcloud'' j)"
proof -
  obtain kvs where j: "j = JObj kvs" using providers_members(1) [OF assms(1)] by blast
  have tables: "members_for tag kvs = [json_member tag j]" "machine_table (json_member tag j)"
    if "tag \<in> {''azure'', ''aws'', ''gcp'', ''sapconvergedcloud''}" for tag
    using providers_members(2) [OF assms(1) that j] by simp_all
  note view = unm_struct_member [OF assms(2) [unfolded unm_Providers_def j] tables(1) spec_tags(3)]
  have "unm_features (json_member ''azure'' j) (pv_Azure (pcs_Providers zeroSpecs)) = Inr (pv_Azure pv)"
    by (rule view) (auto simp: unm_field_def on_ok_def split: sum.splits)
  moreover have "unm_features (json_member ''aws'' j) (pv_AWS (pcs_Providers zeroSpecs)) = Inr (pv_AWS pv)"
    by (rule view) (auto simp: unm_field_def on_ok_def split: sum.splits)
  moreover have "unm_features (json_member ''gcp'' j) (pv_GCP (pcs_Providers zeroSpecs)) = Inr (pv_GCP pv)"
    by (rule view) (auto simp: unm_field_def on_ok_def split: sum.splits)
  moreover have "unm_features (json_member ''sapconvergedcloud'' j) (pv_OpenStack (pcs_Providers zeroSpecs)) = Inr (pv_OpenStack pv)"
    by (rule view) (auto simp: unm_field_def on_ok_def split: sum.splits)
  ultimately show "has_features (pv_Azure pv) (json_member ''azure'' j)" "has_features (pv_AWS pv) (json_member ''aws'' j)"
    "has_features (pv_GCP pv) (json_member ''gcp'' j)" "has_features (pv_OpenStack pv) (json_member ''sapconvergedcloud'' j)"
    using unm_table_view(1) tables(2) by (simp_all add: zeroSpecs_def)
qed

text \<open>The whole file.\<close>

lemma specs_file_tables:
  assumes "specs_file j"
  shows "providers_file (json_member ''providers'' j)" and "tier_table (json_member ''redis_tiers'' j)"
    and "\<exists>kvs. j = JObj kvs" and "j = JObj kvs \<Longrightarrow> members_for ''providers'' kvs = [json_member ''providers'' j]"
    and "j = JObj kvs \<Longrightarrow> members_for ''redis_tiers'' kvs = [json_member ''redis_tiers'' j]"
proof -
  show p: "providers_file (json_member ''providers'' j)"
    using assms by (auto simp: specs_file_def providers_file_def machine_entries_def machine_table_def provider_tag_def provider_names)
  show t: "tier_table (json_member ''redis_tiers'' j)"
    using assms by (simp add: specs_file_def tier_table_def tier_entries_def)
  then have "json_member ''redis_tiers'' j \<noteq> JNull" by (auto simp: tier_table_def json_entries_def)
  then show "\<exists>kvs. j = JObj kvs" by (metis json_member_obj)
  show "members_for ''redis_tiers'' kvs = [json_member ''redis_tiers'' j]" if "j = JObj kvs"
    using t that by (intro json_member_table) (simp_all add: tier_table_def)
  have "json_member ''providers'' j \<noteq> JNull" using providers_members(1) [OF p] by auto
  then show "members_for ''providers'' kvs = [json_member ''providers'' j]" if "j = JObj kvs"
    using that by (metis json_member_obj json.inject(5))
qed

lemma unm_specs_file:
  assumes "specs_file j"
  obtains s where "unm_PublicCloudSpecs j zeroSpecs = Inr s" and "has_tiers (pcs_Redis s) (json_member ''redis_tiers'' j)"
    and "unm_Providers (json_member ''providers'' j) (pcs_Providers zeroSpecs) = Inr (pcs_Providers s)"
proof -
  note f = specs_file_tables [OF assms]
  obtain kvs where j: "j = JObj kvs" using f(3) by blast
  note m = f(4,5) [OF j]
  have "\<exists>s. unm_PublicCloudSpecs j zeroSpecs = Inr s"
    unfolding unm_PublicCloudSpecs_def j
  proof (rule unm_struct_ok)
    show "\<exists>b. u v a = Inr b" if "(tag, u) \<in> set
      [(''providers'', unm_field pcs_Providers (\<lambda>x r. r\<lparr>pcs_Providers := x\<rparr>) unm_Providers),
       (''redis_tiers'', unm_field pcs_Redis (\<lambda>x r. r\<lparr>pcs_Redis := x\<rparr>) unm_tiers)]" "v \<in> set (members_for tag kvs)" for tag u v a
      using that m unm_Providers_ok [OF f(1), of "pcs_Providers a"] unm_table_ok(2) [OF f(2), of "pcs_Redis a"]
      by (auto simp: unm_field_def)
  qed
  then obtain s where s: "unm_PublicCloudSpecs j zeroSpecs = Inr s" by blast
  note view = unm_struct_member [OF s [unfolded unm_PublicCloudSpecs_def j] _ spec_tags(4)]
  have "unm_Providers (json_member ''providers'' j) (pcs_Providers zeroSpecs) = Inr (pcs_Providers s)"
    by (rule view [OF m(1)]) (auto simp: unm_field_def on_ok_def split: sum.splits)
  moreover have "unm_tiers (json_member ''redis_tiers'' j) (pcs_Redis zeroSpecs) = Inr (pcs_Redis s)"
    by (rule view [OF m(2)]) (auto simp: unm_field_def on_ok_def split: sum.splits)
  ultimately show ?thesis using that s unm_table_view(2) [OF f(2)] by (simp add: zeroSpecs_def)
qed

lemma LoadPublicCloudSpecs_loaded:
  assumes "path \<noteq> ''''" and "readFile path = Inr text" and "decode text = Some j" and "specs_file j"
  shows "\<exists>s. LoadPublicCloudSpecs readFile jsonError path = Inr s \<and> has_tiers (pcs_Redis s) (json_member ''redis_tiers'' j) \<and>
    unm_Providers (json_member ''providers'' j) (pcs_Providers zeroSpecs) = Inr (pcs_Providers s)"
proof -
  obtain s where s: "unm_PublicCloudSpecs j zeroSpecs = Inr s" "has_tiers (pcs_Redis s) (json_member ''redis_tiers'' j)"
    "unm_Providers (json_member ''providers'' j) (pcs_Providers zeroSpecs) = Inr (pcs_Providers s)"
    by (rule unm_specs_file [OF assms(4)])
  have "specs_complete s"
    using s(2) unm_Providers_view [OF specs_file_tables(1) [OF assms(4)] s(3)]
    by (simp add: specs_complete_def has_tiers_def has_features_def)
  moreover have "json_Unmarshal unm_PublicCloudSpecs text zeroSpecs = Inr s" using s(1) assms(3) by (simp add: json_Unmarshal_def)
  ultimately show ?thesis using assms(1,2) s(2,3) by (simp add: LoadPublicCloudSpecs_Inr)
qed

text \<open>
  C33: what is loaded is what the file says. Let the JSON of a file have the four tables of machine types, under
  the names of their providers, and the table of Redis tiers, none empty, each machine type with its two floats
  and each tier with its two integers; the members of an object may stand in any order, be spelled in any
  case and be accompanied by others. Then the features of a machine type are the numbers the file gives for its
  provider and its name, rounded to the nearest float, the prices of a tier are the integers the file gives, of
  two entries with the same name the last one counts, and nothing else is found.
\<close>

theorem LoadPublicCloudSpecs_file:
  assumes "path \<noteq> ''''" and "readFile path = Inr text" and "decode text = Some j" and "specs_file j"
  shows "\<exists>s. LoadPublicCloudSpecs readFile jsonError path = Inr s \<and>
    (\<forall>p vm. GetFeature s p vm = map_option feature_in (map_of (rev (machine_entries j p)) vm)) \<and>
    (\<forall>tier. GetRedisInfo s tier = map_option redis_in (map_of (rev (tier_entries j)) tier))"
proof -
  obtain s where s: "LoadPublicCloudSpecs readFile jsonError path = Inr s" "has_tiers (pcs_Redis s) (json_member ''redis_tiers'' j)"
    "unm_Providers (json_member ''providers'' j) (pcs_Providers zeroSpecs) = Inr (pcs_Providers s)"
    using LoadPublicCloudSpecs_loaded [where readFile = readFile, OF assms] by blast
  note pv = unm_Providers_view [OF specs_file_tables(1) [OF assms(4)] s(3), unfolded has_features_def]
  have "GetFeature s p vm = map_option feature_in (map_of (rev (machine_entries j p)) vm)" for p vm
    using pv by (simp add: GetFeature_def machine_entries_def provider_tag_def)
  moreover have "GetRedisInfo s tier = map_option redis_in (map_of (rev (tier_entries j)) tier)" for tier
    using s(2) by (simp add: GetRedisInfo_def has_tiers_def tier_entries_def)
  ultimately show ?thesis using s(1) by blast
qed

text \<open>A small file: tiers first, an unknown member, names in capitals, and a machine type given twice.\<close>

definition sampleSpecsFile :: string where \<open>
  sampleSpecsFile = ''{ "redis_tiers": {"S1": {"price_cu": 74, "price_storage_gb": 182}},
  "version": [1, true], "providers" : { "sapconvergedcloud": {"g": {"memory": 48, "cpu_cores": 12}},
    "aws":{"m4":{"cpu_cores":2,"memory":8}}, "Azure": {"a1": {"cpu_cores": 8, "memory": 8}, "a1": {"cpu_cores": 1.5, "MEMORY": 2, "gpus": 0}},
    "gcp": {"n1": {"cpu_cores": 4, "memory": 15}} } }
''\<close>

definition sampleSpecsJson :: json where
  "sampleSpecsJson = (let num = (\<lambda>k n. (k, JNum n)) in
     JObj [(''redis_tiers'', JObj [(''S1'', JObj [num ''price_cu'' ''74'', num ''price_storage_gb'' ''182''])]),
      (''version'', JArr [JNum ''1'', JBool True]),
      (''providers'', JObj [(''sapconvergedcloud'', JObj [(''g'', JObj [num ''memory'' ''48'', num ''cpu_cores'' ''12''])]),
        (''aws'', JObj [(''m4'', JObj [num ''cpu_cores'' ''2'', num ''memory'' ''8''])]),
        (''Azure'', JObj [(''a1'', JObj [num ''cpu_cores'' ''8'', num ''memory'' ''8'']),
           (''a1'', JObj [num ''cpu_cores'' ''1.5'', num ''MEMORY'' ''2'', num ''gpus'' ''0''])]),
        (''gcp'', JObj [(''n1'', JObj [num ''cpu_cores'' ''4'', num ''memory'' ''15''])])])])"

lemma sampleSpecsFile_json: "decode sampleSpecsFile = Some sampleSpecsJson"
  by code_simp

lemmas number_eval = num_value_def scan_number_def scan_sign_def scan_int_def scan_digits_def scan_frac_def scan_exp_def
  is_digit_def byte_in_def dec_value_def dec_power_def read_nat_def digit_val_def Let_def

lemma sample_values:
  "num_value ''1.5'' = 3 / 2" "num_value ''2'' = 2" "num_value ''4'' = 4" "num_value ''8'' = 8"
  "num_value ''12'' = 12" "num_value ''15'' = 15" "num_value ''48'' = 48"
  by (simp_all add: number_eval)

lemma sample_numbers:
  "ParseFloat ''1.5'' = Fin (3 / 2)" "ParseFloat ''2'' = Fin 2" "ParseFloat ''4'' = Fin 4" "ParseFloat ''8'' = Fin 8"
  "ParseFloat ''12'' = Fin 12" "ParseFloat ''15'' = Fin 15" "ParseFloat ''48'' = Fin 48"
  "ParseInt ''182'' = Some 182" "ParseInt ''74'' = Some 74"
  using f64_round_dyadic [of 3 "- 1"] f64_round_int [of 2] f64_round_int [of 4] f64_round_int [of 8]
    f64_round_int [of 12] f64_round_int [of 15] f64_round_int [of 48]
  by (simp_all add: ParseFloat_def sample_values) (simp_all add: ParseInt_def number_eval)

lemma sample_capitals:
  "char_of (77 :: nat) = CHR ''M''" "char_of (69 :: nat) = CHR ''E''" "char_of (79 :: nat) = CHR ''O''"
  "char_of (82 :: nat) = CHR ''R''" "char_of (89 :: nat) = CHR ''Y''" "char_of (65 :: nat) = CHR ''A''"
  by code_simp+

lemmas json_reading = json_entries_def json_member_def members_for_def machine_entries_def tier_entries_def
  provider_tag_def provider_names byte_in_def sample_capitals

lemma sample_entries:
  "machine_entries sampleSpecsJson Azure = [(''a1'', JObj [(''cpu_cores'', JNum ''8''), (''memory'', JNum ''8'')]),
     (''a1'', JObj [(''cpu_cores'', JNum ''1.5''), (''MEMORY'', JNum ''2''), (''gpus'', JNum ''0'')])]"
  "machine_entries sampleSpecsJson AWS = [(''m4'', JObj [(''cpu_cores'', JNum ''2''), (''memory'', JNum ''8'')])]"
  "machine_entries sampleSpecsJson GCP = [(''n1'', JObj [(''cpu_cores'', JNum ''4''), (''memory'', JNum ''15'')])]"
  "machine_entries sampleSpecsJson CCEE = [(''g'', JObj [(''memory'', JNum ''48''), (''cpu_cores'', JNum ''12'')])]"
  "tier_entries sampleSpecsJson = [(''S1'', JObj [(''price_cu'', JNum ''74''), (''price_storage_gb'', JNum ''182'')])]"
  by (simp_all add: json_reading sampleSpecsJson_def)

lemma sample_members:
  "json_member ''cpu_cores'' (JObj [(''cpu_cores'', JNum ''8''), (''memory'', JNum ''8'')]) = JNum ''8''"
  "json_member ''memory'' (JObj [(''cpu_cores'', JNum ''8''), (''memory'', JNum ''8'')]) = JNum ''8''"
  "json_member ''cpu_cores'' (JObj [(''cpu_cores'', JNum ''1.5''), (''MEMORY'', JNum ''2''), (''gpus'', JNum ''0'')]) = JNum ''1.5''"
  "json_member ''memory'' (JObj [(''cpu_cores'', JNum ''1.5''), (''MEMORY'', JNum ''2''), (''gpus'', JNum ''0'')]) = JNum ''2''"
  "json_member ''cpu_cores'' (JObj [(''cpu_cores'', JNum ''2''), (''memory'', JNum ''8'')]) = JNum ''2''"
  "json_member ''memory'' (JObj [(''cpu_cores'', JNum ''2''), (''memory'', JNum ''8'')]) = JNum ''8''"
  "json_member ''cpu_cores'' (JObj [(''cpu_cores'', JNum ''4''), (''memory'', JNum ''15'')]) = JNum ''4''"
  "json_member ''memory'' (JObj [(''cpu_cores'', JNum ''4''), (''memory'', JNum ''15'')]) = JNum ''15''"
  "json_member ''cpu_cores'' (JObj [(''memory'', JNum ''48''), (''cpu_cores'', JNum ''12'')]) = JNum ''12''"
  "json_member ''memory'' (JObj [(''memory'', JNum ''48''), (''cpu_cores'', JNum ''12'')]) = JNum ''48''"
  "json_member ''price_cu'' (JObj [(''price_cu'', JNum ''74''), (''price_storage_gb'', JNum ''182'')]) = JNum ''74''"
  "json_member ''price_storage_gb'' (JObj [(''price_cu'', JNum ''74''), (''price_storage_gb'', JNum ''182'')]) = JNum ''182''"
  by (simp_all add: json_reading)

lemma sampleSpecsJson_ok: "specs_file sampleSpecsJson"
  unfolding specs_file_def
  by (simp add: sample_entries float_member_def int_member_def json_number_def sample_members sample_numbers f64_finite_def)

theorem LoadPublicCloudSpecs_file_witness:
  "\<exists>s. LoadPublicCloudSpecs (\<lambda>_. Inr sampleSpecsFile) (\<lambda>_. ErrorString ''json'') ''specs'' = Inr s \<and>
     GetFeature s Azure ''a1'' = Some \<lparr>CpuCores = Fin (3 / 2), Memory = Fin 2\<rparr> \<and> GetFeature s AWS ''a1'' = None \<and>
     GetRedisInfo s ''S1'' = Some \<lparr>PriceStorageGB = 182, PriceCapacityUnits = 74\<rparr>"
proof -
  obtain s where "LoadPublicCloudSpecs (\<lambda>_. Inr sampleSpecsFile) (\<lambda>_. ErrorString ''json'') ''specs'' = Inr s"
    "\<forall>p vm. GetFeature s p vm = map_option feature_in (map_of (rev (machine_entries sampleSpecsJson p)) vm)"
    "\<forall>tier. GetRedisInfo s tier = map_option redis_in (map_of (rev (tier_entries sampleSpecsJson)) tier)"
    using LoadPublicCloudSpecs_file [of "''specs''" "\<lambda>_. Inr sampleSpecsFile" sampleSpecsFile sampleSpecsJson "\<lambda>_. ErrorString ''json''"]
      sampleSpecsFile_json sampleSpecsJson_ok by auto
  then show ?thesis
    by (simp add: sample_entries feature_in_def redis_in_def json_number_def sample_members sample_numbers)
qed

end
