(* ===== verification/ClusterTracking.thy ===== *)
theory ClusterTracking
  imports Prelude
begin

text \<open>
  \<^verbatim>\<open>src/pkg/process/cluster_tracking.go\<close>: whether a runtime is billed, decided by the last of its
  operations. The runtime, its status and its operations are types of the environment broker; the
  model has the fields the code reads. Instants are integers. \<open>sort.Slice\<close> is a parameter: it is not
  stable, so the place of operations with the same time is left open.
\<close>

section \<open>Runtimes of the broker\<close>

record Operation =
  op_State :: string
  op_CreatedAt :: int

text \<open>
  A status has at most one provisioning and one deprovisioning and, of the other kinds, an optional
  page of operations.
\<close>

record RuntimeStatus =
  st_Provisioning :: "Operation option"
  st_Deprovisioning :: "Operation option"
  st_UpgradingKyma :: "Operation list option"
  st_UpgradingCluster :: "Operation list option"
  st_Update :: "Operation list option"
  st_Suspension :: "Operation list option"
  st_Unsuspension :: "Operation list option"

record RuntimeDTO =
  dto_InstanceID :: string
  dto_RuntimeID :: string
  dto_GlobalAccountID :: string
  dto_SubAccountID :: string
  dto_ShootName :: string
  dto_Provider :: string
  dto_Status :: RuntimeStatus

section \<open>Model\<close>

datatype runtimeState =
    provisioning | deprovisioning | upgradingkyma | upgradingcluster | update_state | suspension | unsuspension

record simpleOperation =
  so_state :: runtimeState
  so_time :: int
  so_succeeded :: bool

text \<open>\<open>stateSucceeded\<close> is the constant \<open>kebruntime.StateSucceeded\<close> of the broker's library.\<close>

definition operationSucceeded :: "string \<Rightarrow> Operation \<Rightarrow> bool" where
  "operationSucceeded stateSucceeded operation \<longleftrightarrow> op_State operation = stateSucceeded"

definition newSimpleOperation :: "string \<Rightarrow> runtimeState \<Rightarrow> Operation \<Rightarrow> simpleOperation" where
  "newSimpleOperation stateSucceeded state operation =
     \<lparr>so_state = state, so_time = op_CreatedAt operation,
      so_succeeded = operationSucceeded stateSucceeded operation\<rparr>"

type_synonym sort_slice = "(simpleOperation \<Rightarrow> simpleOperation \<Rightarrow> bool) \<Rightarrow> simpleOperation list \<Rightarrow> simpleOperation list"

text \<open>The operations of one kind: none when the pointer is nil.\<close>

definition one_op :: "string \<Rightarrow> runtimeState \<Rightarrow> Operation option \<Rightarrow> simpleOperation list" where
  "one_op stateSucceeded state o' = (case o' of None \<Rightarrow> [] | Some op \<Rightarrow> [newSimpleOperation stateSucceeded state op])"

definition many_ops :: "string \<Rightarrow> runtimeState \<Rightarrow> Operation list option \<Rightarrow> simpleOperation list" where
  "many_ops stateSucceeded state o' =
     (case o' of None \<Rightarrow> [] | Some ops \<Rightarrow> map (newSimpleOperation stateSucceeded state) ops)"

definition sortOperations :: "sort_slice \<Rightarrow> string \<Rightarrow> RuntimeDTO \<Rightarrow> simpleOperation list" where
  "sortOperations sortSlice stateSucceeded runtime =
     (let st = dto_Status runtime;
          operations = [];
          operations = operations @ one_op stateSucceeded provisioning (st_Provisioning st);
          operations = operations @ one_op stateSucceeded deprovisioning (st_Deprovisioning st);
          operations = operations @ many_ops stateSucceeded upgradingkyma (st_UpgradingKyma st);
          operations = operations @ many_ops stateSucceeded upgradingcluster (st_UpgradingCluster st);
          operations = operations @ many_ops stateSucceeded update_state (st_Update st);
          operations = operations @ many_ops stateSucceeded suspension (st_Suspension st);
          operations = operations @ many_ops stateSucceeded unsuspension (st_Unsuspension st)
      in sortSlice (\<lambda>a b. so_time a < so_time b) operations)"

definition isRuntimeTrackable :: "sort_slice \<Rightarrow> string \<Rightarrow> RuntimeDTO \<Rightarrow> bool" where
  "isRuntimeTrackable sortSlice stateSucceeded runtime =
     (let operations = sortOperations sortSlice stateSucceeded runtime
      in if length operations = 0 then False
         else let lastOperation = operations ! (length operations - 1)
              in (case so_state lastOperation of
                    provisioning \<Rightarrow> so_succeeded lastOperation
                  | unsuspension \<Rightarrow> so_succeeded lastOperation
                  | suspension \<Rightarrow> False
                  | deprovisioning \<Rightarrow> False
                  | _ \<Rightarrow> True))"

section \<open>Sorting\<close>

text \<open>The contract of \<open>sort.Slice\<close> for a comparison by an integer key.\<close>

locale slice_sort =
  fixes sortSlice :: sort_slice
  assumes mset_sorted: "mset (sortSlice lt xs) = mset xs"
    and sorted_sorted: "sorted (map so_time (sortSlice (\<lambda>a b. so_time a < so_time b) xs))"
begin

lemma set_sorted: "set (sortSlice lt xs) = set xs"
  by (metis mset_sorted set_mset_mset)

lemma sorted_Nil: "sortSlice lt xs = [] \<longleftrightarrow> xs = []"
  by (metis mset_sorted mset_zero_iff)

text \<open>The last element is one of the largest.\<close>

lemma last_max:
  assumes "xs \<noteq> []"
  defines "ys \<equiv> sortSlice (\<lambda>a b. so_time a < so_time b) xs"
  shows "last ys \<in> set xs" and "\<forall>x \<in> set xs. so_time x \<le> so_time (last ys)"
proof -
  have ne: "ys \<noteq> []" using assms sorted_Nil by simp
  then show "last ys \<in> set xs" unfolding ys_def using set_sorted by (metis last_in_set)
  obtain as a where ys: "ys = as @ [a]" using ne by (metis append_butlast_last_id)
  have "sorted (map so_time ys)" unfolding ys_def by (rule sorted_sorted)
  then have "\<forall>x \<in> set ys. so_time x \<le> so_time (last ys)" by (auto simp: ys sorted_append)
  then show "\<forall>x \<in> set xs. so_time x \<le> so_time (last ys)" unfolding ys_def by (simp add: set_sorted)
qed

end

text \<open>Insertion sort, stable as the library's own for short slices, and its mirror image for ties.\<close>

fun insort_lt :: "('a \<Rightarrow> 'a \<Rightarrow> bool) \<Rightarrow> 'a \<Rightarrow> 'a list \<Rightarrow> 'a list" where
  "insort_lt lt x [] = [x]"
| "insort_lt lt x (y # ys) = (if lt y x then y # insort_lt lt x ys else x # y # ys)"

definition sort_stable :: "('a \<Rightarrow> 'a \<Rightarrow> bool) \<Rightarrow> 'a list \<Rightarrow> 'a list" where
  "sort_stable lt xs = foldr (insort_lt lt) xs []"

definition sort_unstable :: "('a \<Rightarrow> 'a \<Rightarrow> bool) \<Rightarrow> 'a list \<Rightarrow> 'a list" where
  "sort_unstable lt xs = sort_stable lt (rev xs)"

lemma mset_insort_lt [simp]: "mset (insort_lt lt x xs) = add_mset x (mset xs)"
  by (induction xs) auto

lemma mset_sort_stable [simp]: "mset (sort_stable lt xs) = mset xs"
  unfolding sort_stable_def by (induction xs) auto

lemma set_insort_lt [simp]: "set (insort_lt lt x xs) = insert x (set xs)"
  by (induction xs) auto

lemma sorted_insort_lt:
  "sorted (map k xs) \<Longrightarrow> sorted (map k (insort_lt (\<lambda>a b. k a < (k b :: int)) x xs))"
  by (induction xs) auto

lemma sorted_sort_stable: "sorted (map k (sort_stable (\<lambda>a b. k a < (k b :: int)) xs))"
  unfolding sort_stable_def by (induction xs) (simp_all add: sorted_insort_lt)

interpretation stable: slice_sort sort_stable
  by unfold_locales (simp_all add: sorted_sort_stable)

interpretation unstable: slice_sort sort_unstable
  by unfold_locales (simp_all add: sort_unstable_def sorted_sort_stable)

section \<open>Correctness\<close>

text \<open>The operations of a runtime, as its status holds them.\<close>

definition status_ops :: "RuntimeDTO \<Rightarrow> (runtimeState \<times> Operation) set" where
  "status_ops r = (let st = dto_Status r in
     Pair provisioning ` set_option (st_Provisioning st) \<union>
     Pair deprovisioning ` set_option (st_Deprovisioning st) \<union>
     Pair upgradingkyma ` (\<Union>l \<in> set_option (st_UpgradingKyma st). set l) \<union>
     Pair upgradingcluster ` (\<Union>l \<in> set_option (st_UpgradingCluster st). set l) \<union>
     Pair update_state ` (\<Union>l \<in> set_option (st_Update st). set l) \<union>
     Pair suspension ` (\<Union>l \<in> set_option (st_Suspension st). set l) \<union>
     Pair unsuspension ` (\<Union>l \<in> set_option (st_Unsuspension st). set l))"

definition latest :: "RuntimeDTO \<Rightarrow> (runtimeState \<times> Operation) set" where
  "latest r = {x \<in> status_ops r. \<forall>y \<in> status_ops r. op_CreatedAt (snd y) \<le> op_CreatedAt (snd x)}"

text \<open>The billing rule for the last operation.\<close>

fun billable_op :: "string \<Rightarrow> runtimeState \<times> Operation \<Rightarrow> bool" where
  "billable_op ok (state, op) \<longleftrightarrow>
     (if state \<in> {provisioning, unsuspension} then op_State op = ok else state \<notin> {suspension, deprovisioning})"

definition simple :: "string \<Rightarrow> runtimeState \<times> Operation \<Rightarrow> simpleOperation" where
  "simple ok x = newSimpleOperation ok (fst x) (snd x)"

lemma simple_sel [simp]:
  "so_state (simple ok x) = fst x" "so_time (simple ok x) = op_CreatedAt (snd x)"
  "so_succeeded (simple ok x) \<longleftrightarrow> op_State (snd x) = ok"
  by (simp_all add: simple_def newSimpleOperation_def operationSucceeded_def)

lemma set_one_op: "set (one_op ok s x) = simple ok ` Pair s ` set_option x"
  by (auto simp: one_op_def simple_def split: option.split)

lemma set_many_ops: "set (many_ops ok s x) = simple ok ` Pair s ` (\<Union>l \<in> set_option x. set l)"
  by (cases x) (simp_all add: many_ops_def simple_def image_image)

lemma set_sortOperations:
  assumes "slice_sort sortSlice"
  shows "set (sortOperations sortSlice ok r) = simple ok ` status_ops r"
  by (simp only: sortOperations_def status_ops_def Let_def slice_sort.set_sorted [OF assms] set_append
      set_one_op set_many_ops image_Un append_Nil)

lemma trackable_last:
  assumes "slice_sort sortSlice" and "status_ops r \<noteq> {}"
  shows "\<exists>x \<in> latest r. isRuntimeTrackable sortSlice ok r \<longleftrightarrow> billable_op ok x"
proof -
  let ?ops = "sortOperations sortSlice ok r"
  have set: "set ?ops = simple ok ` status_ops r" by (rule set_sortOperations [OF assms(1)])
  have ne: "?ops \<noteq> []" using set assms(2) by (metis image_is_empty set_empty)
  obtain xs where xs: "?ops = sortSlice (\<lambda>a b. so_time a < so_time b) xs"
    unfolding sortOperations_def Let_def by blast
  have "xs \<noteq> []" using ne xs slice_sort.sorted_Nil [OF assms(1)] by simp
  from slice_sort.last_max [OF assms(1) this]
  have last: "last ?ops \<in> set ?ops" "\<forall>x \<in> set ?ops. so_time x \<le> so_time (last ?ops)"
    by (simp_all add: xs slice_sort.set_sorted [OF assms(1)])
  then obtain x where x: "x \<in> status_ops r" "last ?ops = simple ok x" using set by auto
  have "x \<in> latest r" using x last(2) set by (auto simp: latest_def)
  moreover have "isRuntimeTrackable sortSlice ok r \<longleftrightarrow> billable_op ok x"
  proof -
    have nth: "?ops ! (length ?ops - 1) = simple ok x" using ne x(2) by (metis last_conv_nth)
    show ?thesis
      unfolding isRuntimeTrackable_def Let_def nth using ne by (cases x; cases "fst x") simp_all
  qed
  ultimately show ?thesis by blast
qed

lemma untrackable_empty:
  assumes "slice_sort sortSlice" and "status_ops r = {}"
  shows "\<not> isRuntimeTrackable sortSlice ok r"
proof -
  have "sortOperations sortSlice ok r = []"
    using set_sortOperations [OF assms(1), of ok r] assms(2) by simp
  then show ?thesis by (simp add: isRuntimeTrackable_def)
qed

text \<open>
  C10: whether a runtime is billed is decided by its latest operation: billed after a successful
  provisioning or unsuspension and after any update or upgrade, not billed after a suspension, a
  deprovisioning or a failed provisioning, and not billed without any operation. The answer is the
  same for every sort the library may use, provided operations that share the latest time agree.
\<close>

theorem isRuntimeTrackable_latest:
  assumes "slice_sort sortSlice"
    and "\<forall>x \<in> latest r. \<forall>y \<in> latest r. billable_op ok x = billable_op ok y"
  shows "isRuntimeTrackable sortSlice ok r \<longleftrightarrow> (\<exists>x \<in> latest r. billable_op ok x)"
proof (cases "status_ops r = {}")
  case True
  then show ?thesis using untrackable_empty [OF assms(1) True] by (simp add: latest_def)
next
  case False
  then show ?thesis using trackable_last [OF assms(1) False, of ok] assms(2) by blast
qed

definition sampleStatus :: RuntimeStatus where
  "sampleStatus = \<lparr>st_Provisioning = Some \<lparr>op_State = ''succeeded'', op_CreatedAt = 1\<rparr>,
     st_Deprovisioning = None, st_UpgradingKyma = None, st_UpgradingCluster = None, st_Update = None,
     st_Suspension = Some [\<lparr>op_State = ''succeeded'', op_CreatedAt = 5\<rparr>],
     st_Unsuspension = Some [\<lparr>op_State = ''succeeded'', op_CreatedAt = 7\<rparr>]\<rparr>"

definition sampleRuntime :: RuntimeDTO where
  "sampleRuntime = \<lparr>dto_InstanceID = ''i'', dto_RuntimeID = ''r'', dto_GlobalAccountID = ''g'',
     dto_SubAccountID = ''s'', dto_ShootName = ''shoot'', dto_Provider = ''AWS'', dto_Status = sampleStatus\<rparr>"

lemma latest_sample:
  "latest sampleRuntime = {(unsuspension, \<lparr>op_State = ''succeeded'', op_CreatedAt = 7\<rparr>)}"
  by (auto simp: latest_def status_ops_def sampleRuntime_def sampleStatus_def)

theorem isRuntimeTrackable_latest_witness: "isRuntimeTrackable sort_unstable ''succeeded'' sampleRuntime"
  using isRuntimeTrackable_latest [OF unstable.slice_sort_axioms, of sampleRuntime "''succeeded''"]
  by (simp add: latest_sample)

text \<open>
  The decision is left to the sorting algorithm when two operations share the latest time and
  disagree: there is a runtime, with a provisioning and a deprovisioning created at the same
  instant, that one correct sort makes billable and another does not.
\<close>

theorem isRuntimeTrackable_tie:
  "\<exists>r. isRuntimeTrackable sort_unstable ok r \<and> \<not> isRuntimeTrackable sort_stable ok r"
proof -
  let ?op = "\<lparr>op_State = ok, op_CreatedAt = 1\<rparr>"
  let ?r = "sampleRuntime\<lparr>dto_Status := \<lparr>st_Provisioning = Some ?op, st_Deprovisioning = Some ?op,
     st_UpgradingKyma = None, st_UpgradingCluster = None, st_Update = None, st_Suspension = None,
     st_Unsuspension = None\<rparr>\<rparr>"
  have "isRuntimeTrackable sort_unstable ok ?r \<and> \<not> isRuntimeTrackable sort_stable ok ?r"
    by (simp add: isRuntimeTrackable_def sortOperations_def one_op_def many_ops_def sort_unstable_def
        sort_stable_def newSimpleOperation_def operationSucceeded_def)
  then show ?thesis by (rule exI)
qed

end
