(* ===== verification/CacheQueue.thy ===== *)
theory CacheQueue
  imports Prelude
begin

text \<open>
  The two shared objects the poller and the workers meet in, both from libraries: the record cache
  (\<^verbatim>\<open>github.com/patrickmn/go-cache\<close>, used without expiration) and the delaying work queue
  (\<^verbatim>\<open>k8s.io/client-go/util/workqueue\<close>, created in \<^verbatim>\<open>src/pkg/queue/queue.go\<close>). The model takes their
  operations as a parameter; their documented behaviour is stated as two contracts, each met by a
  reference implementation.
\<close>

section \<open>The cache\<close>

text \<open>\<open>Add\<close> refuses a key that is present; \<open>Items\<close> is a map of all entries, in any order.\<close>

record ('c, 'v) cache_ops =
  ca_new :: 'c
  ca_Get :: "'c \<Rightarrow> string \<Rightarrow> 'v option"
  ca_Set :: "'c \<Rightarrow> string \<Rightarrow> 'v \<Rightarrow> 'c"
  ca_Add :: "'c \<Rightarrow> string \<Rightarrow> 'v \<Rightarrow> go_error + 'c"
  ca_Delete :: "'c \<Rightarrow> string \<Rightarrow> 'c"
  ca_Items :: "'c \<Rightarrow> (string, 'v) gomap"
  ca_ItemCount :: "'c \<Rightarrow> nat"

locale gocache =
  fixes C :: "('c, 'v) cache_ops"
  assumes get_new: "ca_Get C (ca_new C) k = None"
    and get_set: "ca_Get C (ca_Set C c k v) k' = (if k' = k then Some v else ca_Get C c k')"
    and add_absent: "ca_Get C c k = None \<Longrightarrow> ca_Add C c k v = Inr (ca_Set C c k v)"
    and add_present: "ca_Get C c k \<noteq> None \<Longrightarrow> isl (ca_Add C c k v)"
    and get_delete: "ca_Get C (ca_Delete C c k) k' = (if k' = k then None else ca_Get C c k')"
    and items: "gm_wf (ca_Items C c) \<and> map_of (ca_Items C c) = ca_Get C c"
    and itemCount: "ca_ItemCount C c = length (ca_Items C c)"
begin

lemma items_wf: "gm_wf (ca_Items C c)"
  using items by blast

lemma map_of_items: "map_of (ca_Items C c) k = ca_Get C c k"
  using items by metis

text \<open>The keys that are present.\<close>

lemma items_keys: "fst ` set (ca_Items C c) = dom (ca_Get C c)"
  by (metis dom_map_of_conv_image_fst items)

lemma itemCount_card: "ca_ItemCount C c = card (dom (ca_Get C c))"
  using distinct_card [OF items_wf, of c] by (simp add: itemCount items_keys [symmetric])

lemma item_iff: "(k, v) \<in> set (ca_Items C c) \<longleftrightarrow> ca_Get C c k = Some v"
  using map_of_items items_wf by (metis map_of_eq_Some_iff)

lemma get_add:
  "ca_Add C c k v = Inr c' \<Longrightarrow> ca_Get C c k = None \<and> c' = ca_Set C c k v"
  using add_absent [of c k v] add_present [of c k v] by (cases "ca_Get C c k") auto

text \<open>Deleting a list of keys.\<close>

lemma get_deletes:
  "ca_Get C (foldl (ca_Delete C) c ks) k = (if k \<in> set ks then None else ca_Get C c k)"
  by (induction ks arbitrary: c) (auto simp: get_delete)

end

text \<open>The reference cache: an association list.\<close>

definition alist_cache :: "((string, 'v) gomap, 'v) cache_ops" where
  "alist_cache = \<lparr>ca_new = [], ca_Get = map_of, ca_Set = (\<lambda>c k v. (k, v) # filter (\<lambda>e. fst e \<noteq> k) c),
     ca_Add = (\<lambda>c k v. if map_of c k = None then Inr ((k, v) # filter (\<lambda>e. fst e \<noteq> k) c)
                      else Inl (ErrorString (''Item '' @ k @ '' already exists''))),
     ca_Delete = (\<lambda>c k. filter (\<lambda>e. fst e \<noteq> k) c),
     ca_Items = AList.clearjunk, ca_ItemCount = (\<lambda>c. length (AList.clearjunk c))\<rparr>"

lemma map_of_filter_neq: "map_of (filter (\<lambda>e. fst e \<noteq> k) c) k' = (if k' = k then None else map_of c k')"
  by (induction c) auto

interpretation alist: gocache alist_cache
  by unfold_locales (auto simp: alist_cache_def map_of_filter_neq map_of_clearjunk)

section \<open>The delaying work queue\<close>

text \<open>
  \<open>Add\<close> enqueues a key unless it is already waiting to be processed; \<open>AddAfter\<close> adds it once a
  duration has passed; \<open>Get\<close> hands out a key that no one is processing, and blocks (\<open>None\<close>) when there
  is none; \<open>Done\<close> ends its processing.
\<close>

record 'q queue_ops =
  qo_new :: 'q
  qo_Add :: "'q \<Rightarrow> string \<Rightarrow> 'q"
  qo_AddAfter :: "'q \<Rightarrow> string \<Rightarrow> int64 \<Rightarrow> 'q"
  qo_Get :: "'q \<Rightarrow> (string \<times> 'q) option"
  qo_Done :: "'q \<Rightarrow> string \<Rightarrow> 'q"

text \<open>
  The contract is stated on two sets: \<open>pending\<close>, the keys that will be handed out without any
  further call, now or after their delay, and \<open>processing\<close>, the keys handed out and not yet done.
  A step \<open>tick\<close> of the clock may move a key from its delay to the queue; it loses nothing.
\<close>

locale delaying_queue =
  fixes Q :: "'q queue_ops"
    and tick :: "'q \<Rightarrow> 'q"
    and pending :: "'q \<Rightarrow> string set"
    and processing :: "'q \<Rightarrow> string set"
    and qinv :: "'q \<Rightarrow> bool"
  assumes new: "qinv (qo_new Q)" "pending (qo_new Q) = {}" "processing (qo_new Q) = {}"
    and add: "qinv q \<Longrightarrow> qinv (qo_Add Q q x) \<and> pending (qo_Add Q q x) = insert x (pending q) \<and>
                processing (qo_Add Q q x) = processing q"
    and addAfter: "qinv q \<Longrightarrow> qinv (qo_AddAfter Q q x d) \<and> pending (qo_AddAfter Q q x d) = insert x (pending q) \<and>
                processing (qo_AddAfter Q q x d) = processing q"
    and get: "qinv q \<Longrightarrow> qo_Get Q q = Some (x, q') \<Longrightarrow> qinv q' \<and> x \<in> pending q \<and> x \<notin> processing q \<and>
                processing q' = insert x (processing q) \<and> pending q - {x} \<subseteq> pending q' \<and> pending q' \<subseteq> pending q"
    and done': "qinv q \<Longrightarrow> qinv (qo_Done Q q x) \<and> pending (qo_Done Q q x) = pending q \<and>
                processing (qo_Done Q q x) = processing q - {x}"
    and tick: "qinv q \<Longrightarrow> qinv (tick q) \<and> pending (tick q) = pending q \<and> processing (tick q) = processing q"
begin

text \<open>Nothing but handing it out takes a key from the queue.\<close>

lemma adds_pending: "qinv q \<Longrightarrow> qinv (foldl (qo_Add Q) q xs) \<and> pending (foldl (qo_Add Q) q xs) = pending q \<union> set xs"
  by (induction xs arbitrary: q) (auto simp: add)

end

text \<open>
  The queue is fair: keys are handed out in the order in which they became ready, and a pending key
  that no one is processing becomes ready after some time. \<open>ready\<close> is that order.
\<close>

locale fair_queue = delaying_queue Q tick pending processing qinv
  for Q :: "'q queue_ops" and tick pending processing qinv +
  fixes ready :: "'q \<Rightarrow> string list"
  assumes ready_get: "qinv q \<Longrightarrow> qo_Get Q q = Some (x, q') \<Longrightarrow> ready q = x # ready q'"
    and ready_some: "qinv q \<Longrightarrow> ready q \<noteq> [] \<Longrightarrow> qo_Get Q q \<noteq> None"
    and ready_add: "qinv q \<Longrightarrow> \<exists>zs. ready (qo_Add Q q x) = ready q @ zs"
    and ready_addAfter: "qinv q \<Longrightarrow> \<exists>zs. ready (qo_AddAfter Q q x d) = ready q @ zs"
    and ready_done: "qinv q \<Longrightarrow> \<exists>zs. ready (qo_Done Q q x) = ready q @ zs"
    and ready_tick: "qinv q \<Longrightarrow> \<exists>zs. ready (tick q) = ready q @ zs"
    and ready_eventually: "qinv q \<Longrightarrow> x \<in> pending q \<Longrightarrow> x \<notin> processing q \<Longrightarrow> \<exists>n. x \<in> set (ready ((tick ^^ n) q))"

text \<open>
  Delays only shrink: \<open>due\<close> bounds the ticks until a pending key is ready. Every tick brings it closer,
  and no call puts it off, not even \<open>AddAfter\<close> of the same key, which keeps the earlier time.
\<close>

locale timed_queue = fair_queue Q tick pending processing qinv ready
  for Q :: "'q queue_ops" and tick pending processing qinv ready +
  fixes due :: "'q \<Rightarrow> string \<Rightarrow> nat"
  assumes due_ready: "qinv q \<Longrightarrow> x \<in> pending q \<Longrightarrow> x \<notin> processing q \<Longrightarrow> due q x = 0 \<Longrightarrow> x \<in> set (ready q)"
    and due_tick: "qinv q \<Longrightarrow> x \<in> pending q \<Longrightarrow> due (tick q) x \<le> due q x - 1"
    and due_add: "qinv q \<Longrightarrow> x \<in> pending q \<Longrightarrow> due (qo_Add Q q y) x \<le> due q x"
    and due_addAfter: "qinv q \<Longrightarrow> x \<in> pending q \<Longrightarrow> due (qo_AddAfter Q q y d) x \<le> due q x"
    and due_done: "qinv q \<Longrightarrow> x \<in> pending q \<Longrightarrow> due (qo_Done Q q y) x \<le> due q x"
    and due_get: "qinv q \<Longrightarrow> x \<in> pending q \<Longrightarrow> qo_Get Q q = Some (y, q') \<Longrightarrow> x \<noteq> y \<Longrightarrow> due q' x \<le> due q x"

subsection \<open>A reference queue\<close>

text \<open>
  The structure of the library's queue: the keys to hand out in order, the keys that need processing
  (dirty), the keys in processing, and the delayed keys with the time at which they are due.
\<close>

record ref_queue =
  rq_queue :: "string list"
  rq_dirty :: "string list"
  rq_processing :: "string list"
  rq_waiting :: "(string \<times> int) list"
  rq_now :: int

definition rq_Add :: "ref_queue \<Rightarrow> string \<Rightarrow> ref_queue" where
  "rq_Add q x =
     (if x \<in> set (rq_dirty q) then q
      else let q = q\<lparr>rq_dirty := x # rq_dirty q\<rparr>
           in if x \<in> set (rq_processing q) then q else q\<lparr>rq_queue := rq_queue q @ [x]\<rparr>)"

definition rq_AddAfter :: "ref_queue \<Rightarrow> string \<Rightarrow> int64 \<Rightarrow> ref_queue" where
  "rq_AddAfter q x d =
     (if sint d \<le> 0 then rq_Add q x
      else q\<lparr>rq_waiting := AList.update x
               (case map_of (rq_waiting q) x of None \<Rightarrow> rq_now q + sint d | Some t \<Rightarrow> min t (rq_now q + sint d))
               (rq_waiting q)\<rparr>)"

definition rq_Get :: "ref_queue \<Rightarrow> (string \<times> ref_queue) option" where
  "rq_Get q = (case rq_queue q of [] \<Rightarrow> None
     | x # xs \<Rightarrow> Some (x, q\<lparr>rq_queue := xs, rq_processing := x # rq_processing q,
                          rq_dirty := removeAll x (rq_dirty q)\<rparr>))"

definition rq_Done :: "ref_queue \<Rightarrow> string \<Rightarrow> ref_queue" where
  "rq_Done q x =
     (let was = x \<in> set (rq_processing q); q = q\<lparr>rq_processing := removeAll x (rq_processing q)\<rparr>
      in if x \<in> set (rq_dirty q) \<and> was then q\<lparr>rq_queue := rq_queue q @ [x]\<rparr> else q)"

definition rq_tick :: "ref_queue \<Rightarrow> ref_queue" where
  "rq_tick q =
     (let now = rq_now q + 1; due = filter (\<lambda>e. snd e \<le> now) (rq_waiting q)
      in foldl rq_Add (q\<lparr>rq_now := now, rq_waiting := filter (\<lambda>e. \<not> snd e \<le> now) (rq_waiting q)\<rparr>) (map fst due))"

definition ref_queue_ops :: "ref_queue queue_ops" where
  "ref_queue_ops = \<lparr>qo_new = \<lparr>rq_queue = [], rq_dirty = [], rq_processing = [], rq_waiting = [], rq_now = 0\<rparr>,
     qo_Add = rq_Add, qo_AddAfter = rq_AddAfter, qo_Get = rq_Get, qo_Done = rq_Done\<rparr>"

definition rq_inv :: "ref_queue \<Rightarrow> bool" where
  "rq_inv q \<longleftrightarrow> distinct (rq_queue q) \<and> set (rq_queue q) = set (rq_dirty q) - set (rq_processing q)"

definition rq_pending :: "ref_queue \<Rightarrow> string set" where
  "rq_pending q = set (rq_dirty q) \<union> fst ` set (rq_waiting q)"

lemma rq_Add_laws:
  "rq_inv q \<Longrightarrow> rq_inv (rq_Add q x)"
  "set (rq_dirty (rq_Add q x)) = insert x (set (rq_dirty q))"
  "rq_waiting (rq_Add q x) = rq_waiting q" "rq_processing (rq_Add q x) = rq_processing q"
  by (auto simp: rq_Add_def rq_inv_def Let_def)

lemma rq_Adds_laws:
  "rq_inv q \<Longrightarrow> rq_inv (foldl rq_Add q xs)"
  "set (rq_dirty (foldl rq_Add q xs)) = set xs \<union> set (rq_dirty q)"
  "rq_waiting (foldl rq_Add q xs) = rq_waiting q" "rq_processing (foldl rq_Add q xs) = rq_processing q"
  by (induction xs arbitrary: q) (auto simp: rq_Add_laws)

lemma rq_Get_laws:
  "rq_inv q \<Longrightarrow> rq_Get q = Some (x, q') \<Longrightarrow> rq_inv q' \<and> x \<in> set (rq_dirty q) \<and> x \<notin> set (rq_processing q) \<and>
     set (rq_processing q') = insert x (set (rq_processing q)) \<and> set (rq_dirty q') = set (rq_dirty q) - {x} \<and>
     rq_waiting q' = rq_waiting q"
proof -
  assume qinv: "rq_inv q" and get: "rq_Get q = Some (x, q')"
  then obtain xs where q: "rq_queue q = x # xs" "q' = q\<lparr>rq_queue := xs, rq_processing := x # rq_processing q,
      rq_dirty := removeAll x (rq_dirty q)\<rparr>" by (auto simp: rq_Get_def split: list.splits)
  have xs: "distinct xs" "x \<notin> set xs" "insert x (set xs) = set (rq_dirty q) - set (rq_processing q)"
    using qinv q(1) by (simp_all add: rq_inv_def)
  then have "set xs = set (rq_dirty q) - {x} - insert x (set (rq_processing q))"
    "x \<in> set (rq_dirty q)" "x \<notin> set (rq_processing q)" by blast+
  then show ?thesis using xs(1) q(2) by (simp add: rq_inv_def)
qed

lemma rq_inv_waiting [simp]: "rq_inv (q\<lparr>rq_waiting := w\<rparr>) = rq_inv q"
  by (simp add: rq_inv_def)

lemma rq_AddAfter_laws:
  "rq_inv q \<Longrightarrow> rq_inv (rq_AddAfter q x d)" "rq_pending (rq_AddAfter q x d) = insert x (rq_pending q)"
  "rq_processing (rq_AddAfter q x d) = rq_processing q"
  by (simp_all add: rq_AddAfter_def rq_Add_laws rq_pending_def dom_update)

lemma rq_Done_laws:
  "rq_inv q \<Longrightarrow> rq_inv (rq_Done q x)"
  "rq_dirty (rq_Done q x) = rq_dirty q" "rq_waiting (rq_Done q x) = rq_waiting q"
  "set (rq_processing (rq_Done q x)) = set (rq_processing q) - {x}"
  by (auto simp: rq_Done_def rq_inv_def Let_def)

lemma rq_tick_laws:
  "rq_inv q \<Longrightarrow> rq_inv (rq_tick q)" "rq_pending (rq_tick q) = rq_pending q"
  "rq_processing (rq_tick q) = rq_processing q"
proof -
  show "rq_inv (rq_tick q)" if "rq_inv q"
    unfolding rq_tick_def Let_def by (rule rq_Adds_laws(1)) (use that in \<open>simp add: rq_inv_def\<close>)
  show "rq_processing (rq_tick q) = rq_processing q" by (simp add: rq_tick_def Let_def rq_Adds_laws)
  show "rq_pending (rq_tick q) = rq_pending q"
    by (auto simp: rq_tick_def Let_def rq_pending_def rq_Adds_laws)
qed

interpretation ref_queue: delaying_queue ref_queue_ops rq_tick rq_pending "\<lambda>q. set (rq_processing q)" rq_inv
proof
  fix q :: ref_queue and x :: string and d :: int64
  assume q: "rq_inv q"
  show "rq_inv (qo_Add ref_queue_ops q x) \<and> rq_pending (qo_Add ref_queue_ops q x) = insert x (rq_pending q) \<and>
      set (rq_processing (qo_Add ref_queue_ops q x)) = set (rq_processing q)"
    using q by (simp add: ref_queue_ops_def rq_Add_laws rq_pending_def)
  show "rq_inv (qo_AddAfter ref_queue_ops q x d) \<and>
      rq_pending (qo_AddAfter ref_queue_ops q x d) = insert x (rq_pending q) \<and>
      set (rq_processing (qo_AddAfter ref_queue_ops q x d)) = set (rq_processing q)"
    using q by (simp add: ref_queue_ops_def rq_AddAfter_laws)
  show "rq_inv (qo_Done ref_queue_ops q x) \<and> rq_pending (qo_Done ref_queue_ops q x) = rq_pending q \<and>
      set (rq_processing (qo_Done ref_queue_ops q x)) = set (rq_processing q) - {x}"
    using q by (simp add: ref_queue_ops_def rq_Done_laws rq_pending_def)
  show "rq_inv (rq_tick q) \<and> rq_pending (rq_tick q) = rq_pending q \<and>
      set (rq_processing (rq_tick q)) = set (rq_processing q)"
    using q by (simp add: rq_tick_laws)
  show "rq_inv q' \<and> x \<in> rq_pending q \<and> x \<notin> set (rq_processing q) \<and>
      set (rq_processing q') = insert x (set (rq_processing q)) \<and> rq_pending q - {x} \<subseteq> rq_pending q' \<and>
      rq_pending q' \<subseteq> rq_pending q" if "qo_Get ref_queue_ops q = Some (x, q')" for q'
    using rq_Get_laws [OF q, of x q'] that by (auto simp: ref_queue_ops_def rq_pending_def)
qed (simp_all add: ref_queue_ops_def rq_inv_def rq_pending_def)

lemma rq_Add_ready: "\<exists>zs. rq_queue (rq_Add q x) = rq_queue q @ zs"
  by (simp add: rq_Add_def Let_def)

lemma rq_Adds_ready: "\<exists>zs. rq_queue (foldl rq_Add q xs) = rq_queue q @ zs"
proof (induction xs arbitrary: q)
  case (Cons x xs)
  obtain ys zs where "rq_queue (rq_Add q x) = rq_queue q @ ys"
    "rq_queue (foldl rq_Add (rq_Add q x) xs) = rq_queue (rq_Add q x) @ zs"
    using rq_Add_ready Cons.IH by meson
  then show ?case by simp
qed simp

text \<open>A waiting key is ready once its time has come.\<close>

lemma rq_tick_waiting:
  assumes "(x, t) \<in> set (rq_waiting q)"
  shows "x \<in> set (rq_dirty (rq_tick q)) \<or> ((x, t) \<in> set (rq_waiting (rq_tick q)) \<and> rq_now (rq_tick q) = rq_now q + 1)"
proof -
  have "rq_now (foldl rq_Add q xs) = rq_now q" for q xs
    by (induction xs arbitrary: q) (simp_all add: rq_Add_def Let_def)
  then show ?thesis using assms by (force simp: rq_tick_def Let_def rq_Adds_laws)
qed

lemma rq_tick_dirty: "set (rq_dirty q) \<subseteq> set (rq_dirty (rq_tick q))"
  by (auto simp: rq_tick_def Let_def rq_Adds_laws)

lemma rq_waiting_due:
  assumes "(x, t) \<in> set (rq_waiting q)"
  shows "\<exists>n. x \<in> set (rq_dirty ((rq_tick ^^ n) q))"
  using assms
proof (induction "nat (t - rq_now q)" arbitrary: q rule: less_induct)
  case less
  show ?case
  proof (cases "x \<in> set (rq_dirty (rq_tick q))")
    case True
    then show ?thesis by (intro exI [of _ 1]) simp
  next
    case False
    then have w: "(x, t) \<in> set (rq_waiting (rq_tick q))" "rq_now (rq_tick q) = rq_now q + 1"
      using rq_tick_waiting [OF less.prems] by blast+
    have "rq_now q + 1 < t"
      using False less.prems by (force simp: rq_tick_def Let_def rq_Adds_laws not_less)
    then obtain n where "x \<in> set (rq_dirty ((rq_tick ^^ n) (rq_tick q)))"
      using less.hyps [OF _ w(1)] w(2) by fastforce
    then show ?thesis by (intro exI [of _ "Suc n"]) (simp add: funpow_swap1)
  qed
qed

lemma rq_ticks_laws:
  "rq_inv q \<Longrightarrow> rq_inv ((rq_tick ^^ n) q)" "rq_processing ((rq_tick ^^ n) q) = rq_processing q"
  by (induction n) (simp_all add: rq_tick_laws)

interpretation ref_fair: fair_queue ref_queue_ops rq_tick rq_pending "\<lambda>q. set (rq_processing q)" rq_inv rq_queue
proof
  fix q :: ref_queue and x :: string and d :: int64
  assume q: "rq_inv q"
  show "rq_queue q = x # rq_queue q'" if "qo_Get ref_queue_ops q = Some (x, q')" for q'
    using that by (auto simp: ref_queue_ops_def rq_Get_def split: list.splits)
  show "qo_Get ref_queue_ops q \<noteq> None" if "rq_queue q \<noteq> []"
    using that by (simp add: ref_queue_ops_def rq_Get_def split: list.split)
  show "\<exists>zs. rq_queue (qo_Add ref_queue_ops q x) = rq_queue q @ zs"
    using rq_Add_ready by (simp add: ref_queue_ops_def)
  show "\<exists>zs. rq_queue (qo_AddAfter ref_queue_ops q x d) = rq_queue q @ zs"
    using rq_Add_ready by (simp add: ref_queue_ops_def rq_AddAfter_def)
  show "\<exists>zs. rq_queue (qo_Done ref_queue_ops q x) = rq_queue q @ zs"
    by (simp add: ref_queue_ops_def rq_Done_def Let_def)
  show "\<exists>zs. rq_queue (rq_tick q) = rq_queue q @ zs"
    using rq_Adds_ready [of "q\<lparr>rq_now := n, rq_waiting := w\<rparr>" for n w] by (simp add: rq_tick_def Let_def)
  show "\<exists>n. x \<in> set (rq_queue ((rq_tick ^^ n) q))" if x: "x \<in> rq_pending q" "x \<notin> set (rq_processing q)"
  proof -
    from x(1) consider "x \<in> set (rq_dirty ((rq_tick ^^ 0) q))" | t where "(x, t) \<in> set (rq_waiting q)"
      by (auto simp: rq_pending_def)
    then obtain n where "x \<in> set (rq_dirty ((rq_tick ^^ n) q))"
      using rq_waiting_due [of x _ q] by (cases; blast)
    then have "x \<in> set (rq_queue ((rq_tick ^^ n) q))"
      using rq_ticks_laws(1) [OF q, of n] rq_ticks_laws(2) [of n q] x(2) by (auto simp: rq_inv_def)
    then show ?thesis ..
  qed
qed

text \<open>The ticks a delayed key of the reference queue still has to wait.\<close>

definition rq_due :: "ref_queue \<Rightarrow> string \<Rightarrow> nat" where
  "rq_due q x = (if x \<in> set (rq_dirty q) then 0
     else case map_of (rq_waiting q) x of None \<Rightarrow> 0 | Some t \<Rightarrow> Suc (nat (t - rq_now q)))"

lemma rq_Add_now [simp]: "rq_now (rq_Add q x) = rq_now q"
  by (simp add: rq_Add_def Let_def)

lemma rq_Adds_now [simp]: "rq_now (foldl rq_Add q xs) = rq_now q"
  by (induction xs arbitrary: q) simp_all

lemma map_of_filter_keeps: "map_of m k = Some v \<Longrightarrow> P (k, v) \<Longrightarrow> map_of (filter P m) k = Some v"
  by (induction m) (auto split: if_splits)

lemma rq_due_add: "rq_due (rq_Add q y) x \<le> rq_due q x"
  by (simp add: rq_due_def rq_Add_laws split: option.split)

lemma rq_due_tick:
  assumes "x \<in> rq_pending q"
  shows "rq_due (rq_tick q) x \<le> rq_due q x - 1"
proof (cases "x \<in> set (rq_dirty (rq_tick q))")
  case False
  then have nd: "x \<notin> set (rq_dirty q)" using rq_tick_dirty by blast
  then obtain t where t: "map_of (rq_waiting q) x = Some t"
    using assms by (fastforce simp: rq_pending_def weak_map_of_SomeI)
  have "(x, t) \<in> set (rq_waiting q)" using t by (rule map_of_SomeD)
  then have "rq_now q + 1 < t"
    using False by (force simp: rq_tick_def Let_def rq_Adds_laws not_less)
  moreover from this have "map_of (rq_waiting (rq_tick q)) x = Some t"
    using t by (simp add: rq_tick_def Let_def rq_Adds_laws map_of_filter_keeps)
  moreover have "rq_now (rq_tick q) = rq_now q + 1" by (simp add: rq_tick_def Let_def)
  ultimately show ?thesis using nd t False by (simp add: rq_due_def)
qed (simp add: rq_due_def)

lemma rq_due_addAfter:
  assumes "x \<in> rq_pending q"
  shows "rq_due (rq_AddAfter q y d) x \<le> rq_due q x"
proof (cases "sint d \<le> 0")
  case False
  have "x \<in> set (rq_dirty q) \<or> map_of (rq_waiting q) x \<noteq> None"
    using assms by (auto simp: rq_pending_def map_of_eq_None_iff)
  then show ?thesis
    using False by (auto simp: rq_AddAfter_def rq_due_def map_of_update_apply split: option.split)
qed (simp add: rq_AddAfter_def rq_due_add)

lemma rq_due_get: "rq_inv q \<Longrightarrow> rq_Get q = Some (y, q') \<Longrightarrow> x \<noteq> y \<Longrightarrow> rq_due q' x \<le> rq_due q x"
  using rq_Get_laws [of q y q'] by (auto simp: rq_Get_def rq_due_def split: list.splits option.split)

interpretation ref_timed: timed_queue ref_queue_ops rq_tick rq_pending "\<lambda>q. set (rq_processing q)" rq_inv rq_queue rq_due
proof
  show "x \<in> set (rq_queue q)" if "rq_inv q" "x \<in> rq_pending q" "x \<notin> set (rq_processing q)" "rq_due q x = 0" for q x
    using that by (auto simp: rq_due_def rq_pending_def rq_inv_def dest!: weak_map_of_SomeI split: option.splits if_splits)
  show "rq_due (qo_Done ref_queue_ops q y) x \<le> rq_due q x" for q x y
    by (simp add: ref_queue_ops_def rq_due_def rq_Done_def Let_def split: option.split)
qed (use rq_due_tick in \<open>auto simp: ref_queue_ops_def rq_due_add rq_due_addAfter rq_due_get\<close>)

end
