(* ===== verification/ProcessState.thy ===== *)
theory ProcessState
  imports KebClient EdpClient CloudSpecs ClusterTracking CacheQueue
begin

text \<open>
  \<^verbatim>\<open>src/pkg/process/process.go\<close> (the struct and its constructor) and
  \<^verbatim>\<open>src/pkg/process/filter_clusters.go\<close>: the state the poller and the workers share, and the list of
  global accounts that are not billed. Reading the file, decoding YAML and validating a UUID are
  parameters.
\<close>

section \<open>The list of skipped accounts\<close>

record accounts =
  SkippedGlobalAccounts :: "string list"

definition readFilterFile :: "(string \<Rightarrow> go_error + string) \<Rightarrow> string \<Rightarrow> go_error + string" where
  "readFilterFile readFile file =
     (case readFile file of Inl err \<Rightarrow> Inl err | Inr content \<Rightarrow> Inr content)"

text \<open>One round of the loop: the accepted accounts and the invalid ones, in order.\<close>

definition filter_step ::
  "(string \<Rightarrow> go_error option) \<Rightarrow> (string, unit) gomap \<times> string list \<Rightarrow> string
   \<Rightarrow> (string, unit) gomap \<times> string list" where
  "filter_step validate st account =
     (case st of (skippedAccounts, invalidGlobalAccount) \<Rightarrow>
       if validate account \<noteq> None then (skippedAccounts, invalidGlobalAccount @ [account])
       else (AList.update account () skippedAccounts, invalidGlobalAccount))"

definition parseRuntimesToBeFiltered ::
  "(string \<Rightarrow> go_error + accounts) \<Rightarrow> (string \<Rightarrow> go_error option) \<Rightarrow> string
   \<Rightarrow> go_error + (string, unit) gomap" where
  "parseRuntimesToBeFiltered unmarshal validate content =
     (case unmarshal content of
        Inl err \<Rightarrow> Inl err
      | Inr accs \<Rightarrow>
         (let (skippedAccounts, invalidGlobalAccount) = foldl (filter_step validate) ([], []) (SkippedGlobalAccounts accs)
          in if 0 < length invalidGlobalAccount
             then Inl (ErrorString (''invalid global account IDs: '' @ string_join '', '' invalidGlobalAccount))
             else Inr skippedAccounts))"

section \<open>The process\<close>

text \<open>
  An item of the cache is a \<open>Record\<close>, or something else: the code casts an untyped value.
\<close>

datatype 's cache_item = RecordItem "'s Record" | OtherItem

text \<open>
  The collector, the kubeconfig provider, the cache, the queue and the logger have types of their
  own. The client factory has no state; its method is an argument where it is called.
\<close>

record ('coll, 'prov, 'log, 'c, 'q) Process =
  p_KEBClient :: keb_Client
  p_EDPClient :: edp_Client
  p_EDPCollector :: 'coll
  p_Queue :: 'q
  p_KubeconfigProvider :: 'prov
  p_Cache :: 'c
  p_PublicCloudSpecs :: PublicCloudSpecs
  p_ScrapeInterval :: int64
  p_WorkersPoolSize :: int64
  p_Logger :: 'log
  p_globalAccToBeFiltered :: "(string, unit) gomap"

text \<open>
  \<^verbatim>\<open>src/pkg/queue/queue.go\<close>: a delaying queue of client-go. The name is the label under which the provider of
  the queue's metrics, which is installed first, counts.
\<close>

definition NewQueue :: "'q queue_ops \<Rightarrow> string \<Rightarrow> 'q" where
  "NewQueue Q name = qo_new Q"

text \<open>A nil pointer is \<open>None\<close>.\<close>

definition process_New ::
  "('c, 's cache_item) cache_ops \<Rightarrow> 'q queue_ops
   \<Rightarrow> (string \<Rightarrow> go_error + string) \<Rightarrow> (string \<Rightarrow> go_error + accounts) \<Rightarrow> (string \<Rightarrow> go_error option)
   \<Rightarrow> keb_Client option \<Rightarrow> edp_Client option \<Rightarrow> 'coll option \<Rightarrow> 'prov option \<Rightarrow> PublicCloudSpecs option
   \<Rightarrow> int64 \<Rightarrow> int64 \<Rightarrow> 'log option \<Rightarrow> string \<Rightarrow> go_error + ('coll, 'prov, 'log, 'c, 'q) Process" where
  "process_New C Q readFile unmarshal validate kebClient edpClient edpCollector configProvider publicCloudSpecs
     scrapeInterval workerPoolSize logger fileName =
     (if logger = None \<or> configProvider = None \<or> publicCloudSpecs = None \<or> edpCollector = None
         \<or> edpClient = None \<or> kebClient = None
      then Inl (ErrorString ''missing required parameter'')
      else
        let cache = ca_new C;
            filterList =
              (if fileName \<noteq> '''' then
                 (case readFilterFile readFile fileName of
                    Inl err \<Rightarrow> Inl (ErrorString (''failed to read clusters to be filtered file: '' @ err_msg err))
                  | Inr content \<Rightarrow>
                     (case parseRuntimesToBeFiltered unmarshal validate content of
                        Inl err \<Rightarrow> Inl (ErrorString (''failed to parse cluster list to filter list: '' @ err_msg err))
                      | Inr l \<Rightarrow> Inr l))
               else Inr [])
        in (case filterList of
              Inl err \<Rightarrow> Inl err
            | Inr l \<Rightarrow> Inr \<lparr>p_KEBClient = the kebClient, p_EDPClient = the edpClient,
                p_EDPCollector = the edpCollector, p_Queue = NewQueue Q ''trackable-skrs'',
                p_KubeconfigProvider = the configProvider, p_Cache = cache,
                p_PublicCloudSpecs = the publicCloudSpecs, p_ScrapeInterval = scrapeInterval,
                p_WorkersPoolSize = workerPoolSize, p_Logger = the logger,
                p_globalAccToBeFiltered = l\<rparr>))"

definition skipRuntime :: "('coll, 'prov, 'log, 'c, 'q) Process \<Rightarrow> RuntimeDTO \<Rightarrow> bool" where
  "skipRuntime p runtime \<longleftrightarrow> map_of (p_globalAccToBeFiltered p) (dto_GlobalAccountID runtime) \<noteq> None"

section \<open>Correctness of the filter\<close>

lemma filter_loop:
  "foldl (filter_step validate) (m, bad) xs =
     (foldl (\<lambda>m a. AList.update a () m) m (filter (\<lambda>a. validate a = None) xs),
      bad @ filter (\<lambda>a. validate a \<noteq> None) xs)"
  by (induction xs arbitrary: m bad) (auto simp: filter_step_def)

lemma map_of_updates_unit:
  "map_of (foldl (\<lambda>m a. AList.update a () m) m xs) k = (if k \<in> set xs then Some () else map_of m k)"
  by (induction xs arbitrary: m) (auto simp: map_of_update_apply)

lemma parse_decoded:
  assumes "unmarshal content = Inr accs"
  shows "(\<exists>l. parseRuntimesToBeFiltered unmarshal validate content = Inr l)
           \<longleftrightarrow> (\<forall>a \<in> set (SkippedGlobalAccounts accs). validate a = None)"
    and "parseRuntimesToBeFiltered unmarshal validate content = Inr l \<Longrightarrow> map_of l a \<noteq> None \<longleftrightarrow>
           a \<in> set (SkippedGlobalAccounts accs)"
  using assms
  by (auto simp: parseRuntimesToBeFiltered_def filter_loop map_of_updates_unit filter_empty_conv
      split: if_splits)

lemma parse_undecoded:
  "unmarshal content = Inl e \<Longrightarrow> parseRuntimesToBeFiltered unmarshal validate content = Inl e"
  by (simp add: parseRuntimesToBeFiltered_def)

text \<open>The accounts a file lists, if it can be read and decoded.\<close>

definition listed_accounts ::
  "(string \<Rightarrow> go_error + string) \<Rightarrow> (string \<Rightarrow> go_error + accounts) \<Rightarrow> string \<Rightarrow> string list option" where
  "listed_accounts readFile unmarshal fileName =
     (if fileName = '''' then Some []
      else case readFile fileName of Inl _ \<Rightarrow> None
           | Inr content \<Rightarrow> (case unmarshal content of Inl _ \<Rightarrow> None | Inr accs \<Rightarrow> Some (SkippedGlobalAccounts accs)))"

lemma process_New_Inr:
  "process_New C Q readFile unmarshal validate kebClient edpClient edpCollector configProvider publicCloudSpecs
     scrapeInterval workerPoolSize logger fileName = Inr p \<longleftrightarrow>
   (\<exists>kc ec col prov specs log l. kebClient = Some kc \<and> edpClient = Some ec \<and> edpCollector = Some col \<and>
      configProvider = Some prov \<and> publicCloudSpecs = Some specs \<and> logger = Some log \<and>
      (if fileName = '''' then l = []
       else \<exists>content. readFile fileName = Inr content \<and> parseRuntimesToBeFiltered unmarshal validate content = Inr l) \<and>
      p = \<lparr>p_KEBClient = kc, p_EDPClient = ec, p_EDPCollector = col, p_Queue = qo_new Q,
           p_KubeconfigProvider = prov, p_Cache = ca_new C, p_PublicCloudSpecs = specs,
           p_ScrapeInterval = scrapeInterval, p_WorkersPoolSize = workerPoolSize, p_Logger = log,
           p_globalAccToBeFiltered = l\<rparr>)"
  by (auto simp: process_New_def NewQueue_def readFilterFile_def Let_def split: sum.splits)

text \<open>
  C34: a process is created with an empty cache, and it skips exactly the runtimes of the global
  accounts its filter file lists; it is not created when the file cannot be read or decoded or
  lists an account that is not a valid identifier.
\<close>

theorem process_New_filter:
  assumes "gocache C"
    and "process_New C Q readFile unmarshal validate kebClient edpClient edpCollector configProvider
           publicCloudSpecs scrapeInterval workerPoolSize logger fileName = Inr p"
  shows "\<exists>accs. listed_accounts readFile unmarshal fileName = Some accs \<and> (\<forall>a \<in> set accs. validate a = None) \<and>
           (\<forall>r. skipRuntime p r \<longleftrightarrow> dto_GlobalAccountID r \<in> set accs) \<and> (\<forall>s. ca_Get C (p_Cache p) s = None)"
proof -
  from assms(2) obtain l where p: "p_Cache p = ca_new C" "p_globalAccToBeFiltered p = l"
    and l: "if fileName = '''' then l = []
       else \<exists>content. readFile fileName = Inr content \<and> parseRuntimesToBeFiltered unmarshal validate content = Inr l"
    unfolding process_New_Inr by auto
  have "\<exists>accs. listed_accounts readFile unmarshal fileName = Some accs \<and> (\<forall>a \<in> set accs. validate a = None) \<and>
          (\<forall>a. map_of l a \<noteq> None \<longleftrightarrow> a \<in> set accs)"
  proof (cases "fileName = ''''")
    case True
    then show ?thesis using l by (simp add: listed_accounts_def)
  next
    case False
    then obtain content where c: "readFile fileName = Inr content"
      "parseRuntimesToBeFiltered unmarshal validate content = Inr l" using l by auto
    then obtain accs where "unmarshal content = Inr accs"
      using parse_undecoded [of unmarshal content _ validate] by (cases "unmarshal content") auto
    then show ?thesis using c False parse_decoded [of unmarshal content accs validate] by (auto simp: listed_accounts_def)
  qed
  then show ?thesis using p gocache.get_new [OF assms(1)] by (auto simp: skipRuntime_def)
qed

definition sampleSpecs :: PublicCloudSpecs where
  "sampleSpecs = \<lparr>pcs_Providers = \<lparr>pv_Azure = [], pv_AWS = [], pv_GCP = [], pv_OpenStack = []\<rparr>, pcs_Redis = []\<rparr>"

definition sampleEdp :: EdpConfig where
  "sampleEdp = \<lparr>edp_URL = ''u'', edp_Namespace = ''n'', edp_DataStreamName = ''d'', edp_DataStreamVersion = ''1'',
     edp_DataStreamEnv = ''e'', edp_Timeout = 1, edp_EventRetry = 3, edp_Token = ''t''\<rparr>"

definition sampleNew ::
  "go_error + (unit, unit, unit, (string, nat cache_item) gomap, ref_queue) Process" where
  "sampleNew = process_New alist_cache ref_queue_ops (\<lambda>_. Inr ''a'') (\<lambda>c. Inr \<lparr>SkippedGlobalAccounts = [c]\<rparr>)
     (\<lambda>a. if a = ''a'' then None else Some (ErrorString a))
     (Some (keb_NewClient sampleKeb sampleLogger)) (Some (edp_NewClient sampleEdp sampleLogger)) (Some ()) (Some ()) (Some sampleSpecs) 5 2 (Some ()) ''f''"

lemma sampleNew_Inr: "\<exists>p. sampleNew = Inr p"
  unfolding sampleNew_def process_New_Inr
  by (simp add: parseRuntimesToBeFiltered_def filter_step_def)

theorem process_New_filter_witness: "\<exists>p. sampleNew = Inr p \<and> ca_Get alist_cache (p_Cache p) ''s'' = None"
proof -
  obtain p where p: "sampleNew = Inr p" using sampleNew_Inr by auto
  show ?thesis
    using process_New_filter [OF alist.gocache_axioms p [unfolded sampleNew_def]] p by auto
qed

end
