(* ===== verification/KebProcessing.thy ===== *)
theory KebProcessing
  imports ProcessState
begin

text \<open>
  \<^verbatim>\<open>src/pkg/process/keb_processing.go\<close>: what a poll of the environment broker does to the cache and
  the queue. Log lines are left out. The cache \<open>C\<close> and the queue \<open>Q\<close> are the library objects of the
  process; \<open>env\<close> has the library functions the code calls on the way.
\<close>

section \<open>Model\<close>

record poll_env =
  pe_sort :: sort_slice
  pe_stateSucceeded :: string
  pe_deleted :: "metric \<Rightarrow> (string \<times> string) list \<Rightarrow> int64"

definition getOrDefault :: "Operation option \<Rightarrow> string \<Rightarrow> string" where
  "getOrDefault runtimeStatus defaultValue =
     (case runtimeStatus of Some op \<Rightarrow> op_State op | None \<Rightarrow> defaultValue)"

definition newRecord :: "RuntimeDTO \<Rightarrow> 's Record" where
  "newRecord runtime =
     \<lparr>rec_InstanceID = dto_InstanceID runtime, rec_RuntimeID = dto_RuntimeID runtime,
      rec_SubAccountID = dto_SubAccountID runtime, rec_GlobalAccountID = dto_GlobalAccountID runtime,
      rec_ShootName = dto_ShootName runtime, rec_ProviderType = ToLower (dto_Provider runtime),
      rec_ScanMap = []\<rparr>"

definition recordFetched :: "bool \<Rightarrow> RuntimeDTO \<Rightarrow> metric_call" where
  "recordFetched trackable runtime =
     recordKEBFetchedClusters trackable (dto_ShootName runtime) (dto_InstanceID runtime)
       (dto_RuntimeID runtime) (dto_SubAccountID runtime) (dto_GlobalAccountID runtime)"

text \<open>The loggers of the poller: every line names the component, and the cluster it is about.\<close>

definition namedLogger :: "('coll, 'prov, Logger, 'c, 'q) Process \<Rightarrow> Logger" where
  "namedLogger p = With ''component'' ''kmc'' (p_Logger p)"

definition namedLoggerWithRecord :: "('coll, 'prov, Logger, 'c, 'q) Process \<Rightarrow> 's Record option \<Rightarrow> Logger" where
  "namedLoggerWithRecord p record =
     (let logger = With ''component'' ''kmc'' (p_Logger p)
      in case record of
           None \<Rightarrow> logger
         | Some r \<Rightarrow> With KeyGlobalAccountID (rec_GlobalAccountID r) (With KeySubAccountID (rec_SubAccountID r)
             (With KeyShoot (rec_ShootName r) (With KeyRuntimeID (rec_RuntimeID r) logger))))"

definition namedLoggerWithRuntime :: "('coll, 'prov, Logger, 'c, 'q) Process \<Rightarrow> RuntimeDTO \<Rightarrow> Logger" where
  "namedLoggerWithRuntime p runtime =
     With KeyGlobalAccountID (dto_GlobalAccountID runtime) (With KeySubAccountID (dto_SubAccountID runtime)
       (With KeyShoot (dto_ShootName runtime) (With KeyRuntimeID (dto_RuntimeID runtime)
         (With ''component'' ''kmc'' (p_Logger p)))))"

lemma newRecord_logger: "namedLoggerWithRecord p (Some (newRecord runtime :: 's Record)) = namedLoggerWithRuntime p runtime"
  by (simp add: namedLoggerWithRecord_def namedLoggerWithRuntime_def newRecord_def)

text \<open>One round of the loop over the runtimes, on the process, the valid subaccounts and the metric calls.\<close>

definition populate_step ::
  "('c, 's cache_item) cache_ops \<Rightarrow> 'q queue_ops \<Rightarrow> poll_env
   \<Rightarrow> ('coll, 'prov, 'log, 'c, 'q) Process \<times> (string, bool) gomap \<times> metric_call list \<Rightarrow> RuntimeDTO
   \<Rightarrow> ('coll, 'prov, 'log, 'c, 'q) Process \<times> (string, bool) gomap \<times> metric_call list" where
  "populate_step C Q env st runtime =
     (case st of (p, validSubAccounts, calls) \<Rightarrow>
      if dto_SubAccountID runtime = '''' then (p, validSubAccounts, calls)
      else
        let sub = dto_SubAccountID runtime;
            validSubAccounts = AList.update sub True validSubAccounts;
            recordObj = ca_Get C (p_Cache p) sub
        in
        if skipRuntime p runtime then (p, validSubAccounts, calls)
        else if isRuntimeTrackable (pe_sort env) (pe_stateSucceeded env) runtime then
          let calls = calls @ [recordFetched True runtime]
          in (case recordObj of
                None \<Rightarrow>
                  (case ca_Add C (p_Cache p) sub (RecordItem (newRecord runtime)) of
                     Inl err \<Rightarrow> (p, validSubAccounts, calls)
                   | Inr c \<Rightarrow> (p\<lparr>p_Cache := c, p_Queue := qo_Add Q (p_Queue p) sub\<rparr>, validSubAccounts, calls))
              | Some (RecordItem record) \<Rightarrow>
                  if rec_ShootName record = dto_ShootName runtime then (p, validSubAccounts, calls)
                  else (p\<lparr>p_Cache := ca_Set C (p_Cache p) sub (RecordItem (newRecord runtime))\<rparr>,
                        validSubAccounts, calls @ snd (deleteMetrics (pe_deleted env) record))
              | Some OtherItem \<Rightarrow> (p, validSubAccounts, calls))
        else
          let calls = calls @ [recordFetched False runtime]
          in (case recordObj of
                None \<Rightarrow> (p, validSubAccounts, calls)
              | Some (RecordItem record) \<Rightarrow>
                  (p\<lparr>p_Cache := ca_Delete C (p_Cache p) sub\<rparr>, validSubAccounts,
                   calls @ snd (deleteMetrics (pe_deleted env) record))
              | Some OtherItem \<Rightarrow>
                  (p\<lparr>p_Cache := ca_Delete C (p_Cache p) sub\<rparr>, validSubAccounts, calls)))"

text \<open>
  One round of the clean-up over a snapshot of the cache. A failed cast leaves the zero record.
\<close>

definition cleanup_step ::
  "('c, 's cache_item) cache_ops \<Rightarrow> poll_env \<Rightarrow> (string, bool) gomap
   \<Rightarrow> ('coll, 'prov, 'log, 'c, 'q) Process \<times> metric_call list \<Rightarrow> string \<times> 's cache_item
   \<Rightarrow> ('coll, 'prov, 'log, 'c, 'q) Process \<times> metric_call list" where
  "cleanup_step C env validSubAccounts st entry =
     (case st of (p, calls) \<Rightarrow> case entry of (sAccID, recordObj) \<Rightarrow>
       if map_of validSubAccounts sAccID = None then
         let record = (case recordObj of RecordItem record \<Rightarrow> record | OtherItem \<Rightarrow> zeroRecord)
         in (p\<lparr>p_Cache := ca_Delete C (p_Cache p) sAccID\<rparr>,
             calls @ snd (deleteMetrics (pe_deleted env) record))
       else (p, calls))"

definition populateCacheAndQueue ::
  "('c, 's cache_item) cache_ops \<Rightarrow> 'q queue_ops \<Rightarrow> poll_env
   \<Rightarrow> ('coll, 'prov, 'log, 'c, 'q) Process \<Rightarrow> RuntimeDTO RuntimesPage
   \<Rightarrow> ('coll, 'prov, 'log, 'c, 'q) Process \<times> metric_call list" where
  "populateCacheAndQueue C Q env p runtimes =
     (let (p, validSubAccounts, calls) =
            foldl (populate_step C Q env) (p, [], [ResetVec kebFetchedClusters]) (pg_Data runtimes)
      in foldl (cleanup_step C env validSubAccounts) (p, calls) (ca_Items C (p_Cache p)))"

text \<open>
  One round of the poller: \<open>fetched\<close> is what \<open>GetAllRuntimes\<close> returned. After an error nothing
  changes until the next round.
\<close>

definition poll_round ::
  "('c, 's cache_item) cache_ops \<Rightarrow> 'q queue_ops \<Rightarrow> poll_env
   \<Rightarrow> ('coll, 'prov, 'log, 'c, 'q) Process \<Rightarrow> (go_error + RuntimeDTO RuntimesPage) \<times> effect list
   \<Rightarrow> ('coll, 'prov, 'log, 'c, 'q) Process \<times> effect list" where
  "poll_round C Q env p fetched =
     (case fetched of
        (Inl err, effs) \<Rightarrow> (p, effs)
      | (Inr runtimesPage, effs) \<Rightarrow>
         (let (p, calls) = populateCacheAndQueue C Q env p runtimesPage
          in (p, effs @ map Metric calls @
                 [Metric (recordItemsInCache (f64_of_int64 (of_nat (ca_ItemCount C (p_Cache p)))))])))"

text \<open>
  The poller: the request is made once, and a failure there ends the program (\<open>None\<close>). Each element
  of the list is the HTTP behaviour met in one round; \<open>None\<close> stands also for a round that never
  gets its pages.
\<close>

fun poll_rounds ::
  "('c, 's cache_item) cache_ops \<Rightarrow> 'q queue_ops \<Rightarrow> poll_env \<Rightarrow> RuntimeDTO RuntimesPage retry_fn
   \<Rightarrow> (string \<Rightarrow> go_error + RuntimeDTO RuntimesPage) \<Rightarrow> keb_request
   \<Rightarrow> ('coll, 'prov, 'log, 'c, 'q) Process \<Rightarrow> (http_request \<Rightarrow> nat \<Rightarrow> http_result \<times> int64) list
   \<Rightarrow> (('coll, 'prov, 'log, 'c, 'q) Process \<times> effect list) option" where
  "poll_rounds C Q env retryDo unmarshal kebReq p [] = Some (p, [])"
| "poll_rounds C Q env retryDo unmarshal kebReq p (httpDo # rest) =
     (case GetAllRuntimes retryDo (kcl_Config (p_KEBClient p)) httpDo unmarshal kebReq of
        None \<Rightarrow> None
      | Some fetched \<Rightarrow>
         (let (p, effs) = poll_round C Q env p fetched
          in (case poll_rounds C Q env retryDo unmarshal kebReq p rest of
                None \<Rightarrow> None
              | Some (p, effs') \<Rightarrow> Some (p, effs @ effs'))))"

definition pollKEBForRuntimes ::
  "('c, 's cache_item) cache_ops \<Rightarrow> 'q queue_ops \<Rightarrow> poll_env \<Rightarrow> RuntimeDTO RuntimesPage retry_fn
   \<Rightarrow> (string \<Rightarrow> go_error + RuntimeDTO RuntimesPage) \<Rightarrow> (string \<Rightarrow> go_error + url)
   \<Rightarrow> ('coll, 'prov, 'log, 'c, 'q) Process \<Rightarrow> (http_request \<Rightarrow> nat \<Rightarrow> http_result \<times> int64) list
   \<Rightarrow> (('coll, 'prov, 'log, 'c, 'q) Process \<times> effect list) option" where
  "pollKEBForRuntimes C Q env retryDo unmarshal parseRequestURI p worlds =
     (case keb_NewRequest parseRequestURI (kcl_Config (p_KEBClient p)) of
        Inl err \<Rightarrow> None
      | Inr kebReq \<Rightarrow> poll_rounds C Q env retryDo unmarshal kebReq p worlds)"

section \<open>What a poll does to one subaccount\<close>

text \<open>
  The abstract poll: the entry of one subaccount, as a function of the entry before and of a runtime
  the broker reports for it.
\<close>

definition tracked :: "poll_env \<Rightarrow> RuntimeDTO \<Rightarrow> bool" where
  "tracked env r = isRuntimeTrackable (pe_sort env) (pe_stateSucceeded env) r"

definition track_item ::
  "(RuntimeDTO \<Rightarrow> bool) \<Rightarrow> (RuntimeDTO \<Rightarrow> bool) \<Rightarrow> 's cache_item option \<Rightarrow> RuntimeDTO \<Rightarrow> 's cache_item option" where
  "track_item skip trk item r =
     (if skip r then item
      else if trk r then
        (case item of
           None \<Rightarrow> Some (RecordItem (newRecord r))
         | Some (RecordItem old) \<Rightarrow>
             if rec_ShootName old = dto_ShootName r then item else Some (RecordItem (newRecord r))
         | Some OtherItem \<Rightarrow> item)
      else None)"

definition reports :: "string \<Rightarrow> RuntimeDTO \<Rightarrow> bool" where
  "reports s r \<longleftrightarrow> dto_SubAccountID r = s \<and> s \<noteq> ''''"

lemma newRecord_sel [simp]:
  "rec_ShootName (newRecord r) = dto_ShootName r" "rec_SubAccountID (newRecord r) = dto_SubAccountID r"
  "rec_ScanMap (newRecord r) = []"
  by (simp_all add: newRecord_def)

lemma track_item_idem: "track_item skip trk (track_item skip trk item r) r = track_item skip trk item r"
  by (auto simp: track_item_def split: option.splits cache_item.splits)

text \<open>The interface of the poller to its two library objects.\<close>

locale process_libs = gocache C + delaying_queue Q tick pending processing qinv
  for C :: "('c, 's cache_item) cache_ops" and Q :: "'q queue_ops"
    and tick pending processing qinv
begin

lemma step_get:
  "ca_Get C (p_Cache (fst (populate_step C Q env (p, v, calls) r))) s =
     (if reports s r then track_item (skipRuntime p) (tracked env) (ca_Get C (p_Cache p) s) r
      else ca_Get C (p_Cache p) s)"
  by (auto simp: populate_step_def track_item_def tracked_def reports_def Let_def get_set get_delete
      add_absent split: option.split cache_item.split)

lemma step_config:
  "p_globalAccToBeFiltered (fst (populate_step C Q env (p, v, calls) r)) = p_globalAccToBeFiltered p"
  by (auto simp: populate_step_def Let_def split: option.split cache_item.split sum.split)

lemma step_skip: "skipRuntime (fst (populate_step C Q env (p, v, calls) r)) = skipRuntime p"
  by (simp add: skipRuntime_def fun_eq_iff step_config)

lemma step_valid:
  "map_of (fst (snd (populate_step C Q env (p, v, calls) r))) s \<noteq> None \<longleftrightarrow> map_of v s \<noteq> None \<or> reports s r"
  by (auto simp: populate_step_def reports_def Let_def map_of_update_apply
      split: option.split cache_item.split sum.split)

lemma step_queue:
  "p_Queue (fst (populate_step C Q env (p, v, calls) r)) =
     (if reports (dto_SubAccountID r) r \<and> \<not> skipRuntime p r \<and> tracked env r
         \<and> ca_Get C (p_Cache p) (dto_SubAccountID r) = None
      then qo_Add Q (p_Queue p) (dto_SubAccountID r) else p_Queue p)"
  by (auto simp: populate_step_def reports_def tracked_def Let_def add_absent
      split: option.split cache_item.split)

lemma populate_loop:
  "let (p', v', calls') = foldl (populate_step C Q env) (p, v, calls) rs
   in ca_Get C (p_Cache p') s =
        foldl (track_item (skipRuntime p) (tracked env)) (ca_Get C (p_Cache p) s) (filter (reports s) rs) \<and>
      (map_of v' s \<noteq> None \<longleftrightarrow> map_of v s \<noteq> None \<or> (\<exists>r \<in> set rs. reports s r)) \<and>
      skipRuntime p' = skipRuntime p"
proof (induction rs arbitrary: p v calls)
  case (Cons r rs)
  obtain p' v' calls' where st: "populate_step C Q env (p, v, calls) r = (p', v', calls')"
    by (cases "populate_step C Q env (p, v, calls) r") auto
  then show ?case
    using Cons.IH [of p' v' calls'] step_get [of env p v calls r s] step_skip [of env p v calls r]
      step_valid [of env p v calls r s]
    by (auto simp: Let_def)
qed simp

lemma cleanup_loop:
  "ca_Get C (p_Cache (fst (foldl (cleanup_step C env v) (p, calls) es))) s =
     (if s \<in> fst ` set es \<and> map_of v s = None then None else ca_Get C (p_Cache p) s)"
proof (induction es arbitrary: p calls)
  case (Cons e es)
  obtain p' calls' where st: "cleanup_step C env v (p, calls) e = (p', calls')" by fastforce
  have "ca_Get C (p_Cache p') s =
      (if s = fst e \<and> map_of v s = None then None else ca_Get C (p_Cache p) s)"
    using st by (cases e) (auto simp: cleanup_step_def Let_def get_delete split: if_splits)
  then show ?case using Cons.IH [of p' calls'] st by auto
qed simp

lemma get_populate:
  "ca_Get C (p_Cache (fst (populateCacheAndQueue C Q env p page))) s =
     (if \<exists>r \<in> set (pg_Data page). reports s r
      then foldl (track_item (skipRuntime p) (tracked env)) (ca_Get C (p_Cache p) s)
             (filter (reports s) (pg_Data page))
      else None)"
proof -
  obtain p' v' calls' where st:
    "foldl (populate_step C Q env) (p, [], [ResetVec kebFetchedClusters]) (pg_Data page) = (p', v', calls')"
    by (metis prod_cases3)
  have loop: "ca_Get C (p_Cache p') s =
      foldl (track_item (skipRuntime p) (tracked env)) (ca_Get C (p_Cache p) s) (filter (reports s) (pg_Data page))"
    "map_of v' s \<noteq> None \<longleftrightarrow> (\<exists>r \<in> set (pg_Data page). reports s r)"
    using populate_loop [of env p "[]" "[ResetVec kebFetchedClusters]" "pg_Data page" s] st by simp_all
  have "s \<notin> dom (ca_Get C (p_Cache p')) \<Longrightarrow> ca_Get C (p_Cache p') s = None" by auto
  then show ?thesis
    using loop cleanup_loop [of env v' p' calls' "ca_Items C (p_Cache p')" s] st
    by (auto simp: populateCacheAndQueue_def items_keys)
qed

end

interpretation ref_libs: process_libs alist_cache ref_queue_ops rq_tick rq_pending
  "\<lambda>q. set (rq_processing q)" rq_inv ..

text \<open>
  C7: the cache after a poll, subaccount by subaccount. A subaccount the broker does not report is
  gone. A reported one is taken through the runtimes reported for it, in order: a runtime of a skipped
  account changes nothing; a trackable one creates a record with no scans when there is none or when
  the shoot has changed and keeps the record, with its scans, otherwise; a runtime that is not
  trackable removes the record.
\<close>

theorem populate_cache_refines:
  assumes "process_libs C Q tick pending processing qinv"
  shows "ca_Get C (p_Cache (fst (populateCacheAndQueue C Q env p page))) s =
     (if \<exists>r \<in> set (pg_Data page). reports s r
      then foldl (track_item (skipRuntime p) (tracked env)) (ca_Get C (p_Cache p) s)
             (filter (reports s) (pg_Data page))
      else None)"
  using assms by (rule process_libs.get_populate)

definition sampleProcess :: "(unit, unit, unit, (string, nat cache_item) gomap, ref_queue) Process" where
  "sampleProcess = \<lparr>p_KEBClient = keb_NewClient sampleKeb sampleLogger, p_EDPClient = edp_NewClient sampleEdp sampleLogger, p_EDPCollector = (),
     p_Queue = qo_new ref_queue_ops, p_KubeconfigProvider = (), p_Cache = [], p_PublicCloudSpecs = sampleSpecs,
     p_ScrapeInterval = 5, p_WorkersPoolSize = 2, p_Logger = (), p_globalAccToBeFiltered = []\<rparr>"

definition samplePollEnv :: poll_env where
  "samplePollEnv = \<lparr>pe_sort = sort_stable, pe_stateSucceeded = ''succeeded'', pe_deleted = \<lambda>_ _. 1\<rparr>"

definition samplePage :: "RuntimeDTO RuntimesPage" where
  "samplePage = \<lparr>pg_Data = [sampleRuntime], pg_Count = 1, pg_TotalCount = 1\<rparr>"

lemma sample_tracked: "tracked samplePollEnv sampleRuntime"
  by (simp add: tracked_def samplePollEnv_def isRuntimeTrackable_def sortOperations_def sampleRuntime_def
      sampleStatus_def one_op_def many_ops_def newSimpleOperation_def operationSucceeded_def sort_stable_def)

lemma sample_reports: "reports ''s'' sampleRuntime"
  by (simp add: reports_def sampleRuntime_def)

theorem populate_cache_refines_witness:
  "ca_Get alist_cache (p_Cache (fst (populateCacheAndQueue alist_cache ref_queue_ops samplePollEnv sampleProcess samplePage))) ''s''
     = Some (RecordItem (newRecord sampleRuntime))"
  using populate_cache_refines [OF ref_libs.process_libs_axioms, of samplePollEnv sampleProcess samplePage "''s''"]
    sample_tracked sample_reports
  by (simp add: samplePage_def track_item_def skipRuntime_def sampleProcess_def alist_cache_def)

section \<open>The queue and the invariant of the cache\<close>

text \<open>What the workers rely on: every item is a record, filed under its own, non-empty subaccount.\<close>

definition item_wf :: "string \<Rightarrow> 's cache_item option \<Rightarrow> bool" where
  "item_wf s item \<longleftrightarrow> (case item of None \<Rightarrow> True
     | Some (RecordItem r) \<Rightarrow> rec_SubAccountID r = s \<and> s \<noteq> '''' | Some OtherItem \<Rightarrow> False)"

definition cache_wf :: "('c, 's cache_item) cache_ops \<Rightarrow> 'c \<Rightarrow> bool" where
  "cache_wf C c \<longleftrightarrow> (\<forall>s. item_wf s (ca_Get C c s))"

lemma cache_wf_record:
  "cache_wf C c \<Longrightarrow> ca_Get C c s = Some item \<Longrightarrow>
     \<exists>r. item = RecordItem r \<and> rec_SubAccountID r = s \<and> s \<noteq> ''''"
  by (cases item) (auto simp: cache_wf_def item_wf_def dest!: spec [of _ s])

lemma track_item_wf: "item_wf s item \<Longrightarrow> reports s r \<Longrightarrow> item_wf s (track_item skip trk item r)"
  by (auto simp: item_wf_def track_item_def reports_def split: option.splits cache_item.splits)

lemma foldl_track_wf:
  "item_wf s item \<Longrightarrow> \<forall>r \<in> set rs. reports s r \<Longrightarrow> item_wf s (foldl (track_item skip trk) item rs)"
  by (induction rs arbitrary: item) (simp_all add: track_item_wf)

context process_libs
begin

lemma populate_wf:
  "cache_wf C (p_Cache p) \<Longrightarrow> cache_wf C (p_Cache (fst (populateCacheAndQueue C Q env p page)))"
  unfolding cache_wf_def get_populate
  by (auto intro!: foldl_track_wf) (simp add: item_wf_def)

lemma cleanup_queue: "p_Queue (fst (foldl (cleanup_step C env v) (p, calls) es)) = p_Queue p"
proof (induction es arbitrary: p calls)
  case (Cons e es)
  obtain p' calls' where st: "cleanup_step C env v (p, calls) e = (p', calls')" by fastforce
  then have "p_Queue p' = p_Queue p"
    by (cases e) (auto simp: cleanup_step_def Let_def split: if_splits)
  then show ?case using Cons.IH [of p' calls'] st by simp
qed simp

text \<open>The queue only grows, and covers what the cache covers.\<close>

lemma step_cached:
  assumes "qinv (p_Queue p)"
    and "ca_Get C (p_Cache (fst (populate_step C Q env (p, v, calls) r))) s \<noteq> None"
  shows "ca_Get C (p_Cache p) s \<noteq> None \<or> s \<in> pending (p_Queue (fst (populate_step C Q env (p, v, calls) r)))"
proof (cases "ca_Get C (p_Cache p) s")
  case None
  then have r: "reports s r" "track_item (skipRuntime p) (tracked env) (ca_Get C (p_Cache p) s) r \<noteq> None"
    using assms(2) step_get [of env p v calls r s] by (auto split: if_splits)
  then have "\<not> skipRuntime p r" "tracked env r" using None by (auto simp: track_item_def split: if_splits)
  then show ?thesis using r(1) None step_queue [of env p v calls r] add [OF assms(1)] by (simp add: reports_def)
qed simp

lemma populate_loop_queue:
  "qinv (p_Queue p) \<Longrightarrow> {s. ca_Get C (p_Cache p) s \<noteq> None} \<subseteq> A \<Longrightarrow>
   let p' = fst (foldl (populate_step C Q env) (p, v, calls) rs)
   in qinv (p_Queue p') \<and> pending (p_Queue p) \<subseteq> pending (p_Queue p') \<and>
      {s. ca_Get C (p_Cache p') s \<noteq> None} \<subseteq> A \<union> pending (p_Queue p') \<and>
      processing (p_Queue p') = processing (p_Queue p)"
proof (induction rs arbitrary: p v calls A)
  case Nil
  then show ?case by auto
next
  case (Cons r rs)
  obtain p' v' calls' where st: "populate_step C Q env (p, v, calls) r = (p', v', calls')"
    by (cases "populate_step C Q env (p, v, calls) r") auto
  let ?s = "dto_SubAccountID r"
  have q: "qinv (p_Queue p')" "pending (p_Queue p) \<subseteq> pending (p_Queue p')"
    "processing (p_Queue p') = processing (p_Queue p)"
    using step_queue [of env p v calls r] st add [OF Cons.prems(1)] Cons.prems(1) by auto
  have "{s. ca_Get C (p_Cache p') s \<noteq> None} \<subseteq> A \<union> pending (p_Queue p')"
    using step_cached [OF Cons.prems(1), of env v calls r] st Cons.prems(2) by fastforce
  from Cons.IH [OF q(1) this, of v' calls'] q st show ?case by (auto simp: Let_def)
qed

lemma populate_queue:
  assumes "qinv (p_Queue p)" and "{s. ca_Get C (p_Cache p) s \<noteq> None} \<subseteq> A"
    and p'_def: "p' = fst (populateCacheAndQueue C Q env p page)"
  shows "qinv (p_Queue p')" and "pending (p_Queue p) \<subseteq> pending (p_Queue p')"
    and "{s. ca_Get C (p_Cache p') s \<noteq> None} \<subseteq> A \<union> pending (p_Queue p')"
    and "processing (p_Queue p') = processing (p_Queue p)"
proof -
  obtain p1 v1 calls1 where st:
    "foldl (populate_step C Q env) (p, [], [ResetVec kebFetchedClusters]) (pg_Data page) = (p1, v1, calls1)"
    by (metis prod_cases3)
  have p': "p' = fst (foldl (cleanup_step C env v1) (p1, calls1) (ca_Items C (p_Cache p1)))"
    by (simp add: p'_def populateCacheAndQueue_def st)
  have q: "p_Queue p' = p_Queue p1" by (simp add: p' cleanup_queue)
  have "{s. ca_Get C (p_Cache p') s \<noteq> None} \<subseteq> {s. ca_Get C (p_Cache p1) s \<noteq> None}"
    unfolding p' cleanup_loop by auto
  with populate_loop_queue [OF assms(1,2), of env "[]" "[ResetVec kebFetchedClusters]" "pg_Data page"] st q
  show "qinv (p_Queue p')" "pending (p_Queue p) \<subseteq> pending (p_Queue p')"
    "{s. ca_Get C (p_Cache p') s \<noteq> None} \<subseteq> A \<union> pending (p_Queue p')"
    "processing (p_Queue p') = processing (p_Queue p)"
    by (auto simp: Let_def)
qed

end

text \<open>
  A poll keeps the cache well formed (every item is a record filed under its own subaccount),
  takes nothing from the queue, and queues what it adds: afterwards every cached subaccount was cached
  before or is pending in the queue.
\<close>

theorem populate_invariant:
  assumes "process_libs C Q tick pending processing qinv"
    and "cache_wf C (p_Cache p)" and "qinv (p_Queue p)"
  shows "let p' = fst (populateCacheAndQueue C Q env p page)
         in cache_wf C (p_Cache p') \<and> qinv (p_Queue p') \<and> pending (p_Queue p) \<subseteq> pending (p_Queue p') \<and>
            (\<forall>s. ca_Get C (p_Cache p') s \<noteq> None \<longrightarrow> ca_Get C (p_Cache p) s \<noteq> None \<or> s \<in> pending (p_Queue p'))"
  using process_libs.populate_wf [OF assms(1), OF assms(2), of env page]
    process_libs.populate_queue [OF assms(1), OF assms(3) order_refl refl, of env page]
  by (auto simp: Let_def)

theorem populate_invariant_witness:
  "let p' = fst (populateCacheAndQueue alist_cache ref_queue_ops samplePollEnv sampleProcess samplePage)
   in cache_wf alist_cache (p_Cache p') \<and> ''s'' \<in> rq_pending (p_Queue p')"
proof -
  have "cache_wf alist_cache (p_Cache sampleProcess)" "rq_inv (p_Queue sampleProcess)"
    by (simp_all add: cache_wf_def item_wf_def sampleProcess_def alist_cache_def ref_queue_ops_def rq_inv_def)
  note inv = populate_invariant [OF ref_libs.process_libs_axioms this, of samplePollEnv samplePage]
  have "ca_Get alist_cache (p_Cache (fst (populateCacheAndQueue alist_cache ref_queue_ops samplePollEnv sampleProcess samplePage))) ''s'' \<noteq> None"
    using ref_libs.get_populate [of samplePollEnv sampleProcess samplePage "''s''"] sample_tracked sample_reports
    by (simp add: samplePage_def track_item_def skipRuntime_def sampleProcess_def split: option.split cache_item.split)
  moreover have "ca_Get alist_cache (p_Cache sampleProcess) ''s'' = None"
    by (simp add: sampleProcess_def alist_cache_def)
  ultimately show ?thesis using inv by (auto simp: Let_def)
qed

section \<open>Pages that report each subaccount once\<close>

abbreviation subaccounts :: "RuntimeDTO list \<Rightarrow> string list" where
  "subaccounts rs \<equiv> map dto_SubAccountID rs"

lemma filter_reports_unique:
  "distinct (subaccounts rs) \<Longrightarrow> r \<in> set rs \<Longrightarrow> reports s r \<Longrightarrow> filter (reports s) rs = [r]"
  by (induction rs) (auto simp: reports_def filter_empty_conv image_iff)

text \<open>The metric calls that delete the series of one record.\<close>

definition deletions :: "metric_call list \<Rightarrow> (string \<times> string) list set" where
  "deletions calls = {ml. DeletePartialMatch TotalScans ml \<in> set calls}"

lemma deletions_append [simp]: "deletions (xs @ ys) = deletions xs \<union> deletions ys"
  by (auto simp: deletions_def)

lemma deletions_calls [simp]:
  "deletions [] = {}" "deletions [recordFetched b r] = {}" "deletions [ResetVec m] = {}"
  "deletions (snd (deleteMetrics d rec)) = {matchLabels rec}"
  "deletions (recordFetched b r # calls) = deletions calls"
  by (auto simp: deletions_def recordFetched_def recordKEBFetchedClusters_def deleteMetrics_def Let_def)

context process_libs
begin

lemma get_populate_distinct:
  assumes "distinct (subaccounts (pg_Data page))" and "r \<in> set (pg_Data page)" and "reports s r"
  shows "ca_Get C (p_Cache (fst (populateCacheAndQueue C Q env p page))) s =
           track_item (skipRuntime p) (tracked env) (ca_Get C (p_Cache p) s) r"
  using assms by (auto simp: get_populate filter_reports_unique)

lemma populate_config:
  "p_globalAccToBeFiltered (fst (populateCacheAndQueue C Q env p page)) = p_globalAccToBeFiltered p"
proof -
  have loop: "p_globalAccToBeFiltered (fst (foldl (populate_step C Q env) (p, v, calls) rs)) = p_globalAccToBeFiltered p"
    for p v calls rs
  proof (induction rs arbitrary: p v calls)
    case (Cons r rs)
    then show ?case
      using step_config [of env p v calls r] by (cases "populate_step C Q env (p, v, calls) r") simp
  qed simp
  have clean: "p_globalAccToBeFiltered (fst (foldl (cleanup_step C env v) (p, calls) es)) = p_globalAccToBeFiltered p"
    for p v calls es
  proof (induction es arbitrary: p calls)
    case (Cons e es)
    obtain p' calls' where st: "cleanup_step C env v (p, calls) e = (p', calls')" by fastforce
    then have "p_globalAccToBeFiltered p' = p_globalAccToBeFiltered p"
      by (cases e) (auto simp: cleanup_step_def Let_def split: if_splits)
    then show ?case using Cons.IH [of p' calls'] st by simp
  qed simp
  show ?thesis
    using loop [of p "[]" "[ResetVec kebFetchedClusters]" "pg_Data page"]
    by (simp add: populateCacheAndQueue_def clean case_prod_beta)
qed

lemma populate_skip: "skipRuntime (fst (populateCacheAndQueue C Q env p page)) = skipRuntime p"
  by (simp add: skipRuntime_def fun_eq_iff populate_config)

text \<open>A page whose trackable subaccounts are all cached adds nothing to the queue.\<close>

lemma populate_loop_no_add:
  "distinct (subaccounts rs) \<Longrightarrow>
   \<forall>r \<in> set rs. reports (dto_SubAccountID r) r \<and> \<not> skipRuntime p r \<and> tracked env r \<longrightarrow>
     ca_Get C (p_Cache p) (dto_SubAccountID r) \<noteq> None \<Longrightarrow>
   p_Queue (fst (foldl (populate_step C Q env) (p, v, calls) rs)) = p_Queue p"
proof (induction rs arbitrary: p v calls)
  case (Cons r rs)
  obtain p' v' calls' where st: "populate_step C Q env (p, v, calls) r = (p', v', calls')"
    by (cases "populate_step C Q env (p, v, calls) r") auto
  have q: "p_Queue p' = p_Queue p" using step_queue [of env p v calls r] st Cons.prems(2) by auto
  have "\<forall>x \<in> set rs. \<not> reports (dto_SubAccountID x) r" using Cons.prems(1) by (auto simp: reports_def image_iff)
  then have get: "\<forall>x \<in> set rs. ca_Get C (p_Cache p') (dto_SubAccountID x) = ca_Get C (p_Cache p) (dto_SubAccountID x)"
    using step_get [of env p v calls r] st by simp
  have skip: "skipRuntime p' = skipRuntime p" using step_skip [of env p v calls r] st by simp
  have "p_Queue (fst (foldl (populate_step C Q env) (p', v', calls') rs)) = p_Queue p'"
    by (rule Cons.IH) (use Cons.prems get skip in auto)
  then show ?case using q st by simp
qed simp

lemma populate_no_add:
  assumes "distinct (subaccounts (pg_Data page))"
    and "\<forall>r \<in> set (pg_Data page). reports (dto_SubAccountID r) r \<and> \<not> skipRuntime p r \<and> tracked env r \<longrightarrow>
           ca_Get C (p_Cache p) (dto_SubAccountID r) \<noteq> None"
  shows "p_Queue (fst (populateCacheAndQueue C Q env p page)) = p_Queue p"
  using populate_loop_no_add [OF assms]
  by (simp add: populateCacheAndQueue_def cleanup_queue case_prod_beta)

lemma populate_idem:
  assumes "distinct (subaccounts (pg_Data page))"
    and "p' = fst (populateCacheAndQueue C Q env p page)"
  shows "ca_Get C (p_Cache (fst (populateCacheAndQueue C Q env p' page))) s = ca_Get C (p_Cache p') s"
    and "p_Queue (fst (populateCacheAndQueue C Q env p' page)) = p_Queue p'"
proof -
  have skip: "skipRuntime p' = skipRuntime p" using assms(2) populate_skip by simp
  have get: "ca_Get C (p_Cache p') s = track_item (skipRuntime p) (tracked env) (ca_Get C (p_Cache p) s) r"
    if "r \<in> set (pg_Data page)" "reports s r" for s r
    using get_populate_distinct [OF assms(1) that] assms(2) by simp
  show "ca_Get C (p_Cache (fst (populateCacheAndQueue C Q env p' page))) s = ca_Get C (p_Cache p') s"
  proof (cases "\<exists>r \<in> set (pg_Data page). reports s r")
    case True
    then obtain r where r: "r \<in> set (pg_Data page)" "reports s r" by blast
    show ?thesis
      unfolding get_populate_distinct [OF assms(1) r] get [OF r] skip by (rule track_item_idem)
  next
    case False
    then show ?thesis using assms(2) by (simp add: get_populate)
  qed
  show "p_Queue (fst (populateCacheAndQueue C Q env p' page)) = p_Queue p'"
    by (rule populate_no_add [OF assms(1)])
      (use get skip in \<open>auto simp: track_item_def split: option.split cache_item.split\<close>)
qed

end

text \<open>
  C8: polling is idempotent: when the broker reports each subaccount once, a second poll with the same
  page changes no cache entry and adds nothing to the queue.
\<close>

theorem populate_idempotent:
  assumes "process_libs C Q tick pending processing qinv"
    and "distinct (map dto_SubAccountID (pg_Data page))"
  shows "let p' = fst (populateCacheAndQueue C Q env p page); p'' = fst (populateCacheAndQueue C Q env p' page)
         in ca_Get C (p_Cache p'') s = ca_Get C (p_Cache p') s \<and> p_Queue p'' = p_Queue p'"
  unfolding Let_def by (intro conjI process_libs.populate_idem [OF assms refl])

theorem populate_idempotent_witness:
  "let p' = fst (populateCacheAndQueue alist_cache ref_queue_ops samplePollEnv sampleProcess samplePage);
       p'' = fst (populateCacheAndQueue alist_cache ref_queue_ops samplePollEnv p' samplePage)
   in p_Queue p'' = p_Queue p'"
  using populate_idempotent [OF ref_libs.process_libs_axioms, of samplePage samplePollEnv sampleProcess]
  by (simp add: Let_def samplePage_def)

section \<open>Which metrics a poll deletes\<close>

text \<open>A record that the runtimes of a page replace or remove.\<close>

definition displaced :: "('c, 's cache_item) cache_ops \<Rightarrow> poll_env \<Rightarrow> ('coll, 'prov, 'log, 'c, 'q) Process \<Rightarrow> RuntimeDTO list \<Rightarrow> 's Record set" where
  "displaced C env p rs = {old. \<exists>r \<in> set rs. reports (dto_SubAccountID r) r \<and>
     ca_Get C (p_Cache p) (dto_SubAccountID r) = Some (RecordItem old) \<and>
     track_item (skipRuntime p) (tracked env) (Some (RecordItem old)) r \<noteq> Some (RecordItem old)}"

context process_libs
begin

lemma step_deletions:
  "deletions (snd (snd (populate_step C Q env (p, v, calls) r))) = deletions calls \<union>
     (case ca_Get C (p_Cache p) (dto_SubAccountID r) of
        Some (RecordItem old) \<Rightarrow>
          if reports (dto_SubAccountID r) r \<and>
             track_item (skipRuntime p) (tracked env) (Some (RecordItem old)) r \<noteq> Some (RecordItem old)
          then {matchLabels old} else {}
      | _ \<Rightarrow> {})"
proof (cases "reports (dto_SubAccountID r) r \<and> \<not> skipRuntime p r")
  case True
  have neq: "newRecord r = old \<Longrightarrow> rec_ShootName old = dto_ShootName r" for old :: "'b Record" by auto
  show ?thesis
    using True
    by (cases "tracked env r"; cases "ca_Get C (p_Cache p) (dto_SubAccountID r)")
      (auto simp: populate_step_def track_item_def tracked_def reports_def Let_def add_absent
        split: cache_item.split dest: neq)
next
  case False
  then show ?thesis
    by (auto simp: populate_step_def track_item_def reports_def Let_def split: option.split cache_item.split)
qed

lemma populate_loop_deletions:
  "distinct (subaccounts rs) \<Longrightarrow>
   deletions (snd (snd (foldl (populate_step C Q env) (p, v, calls) rs))) =
     deletions calls \<union> matchLabels ` displaced C env p rs"
proof (induction rs arbitrary: p v calls)
  case Nil
  then show ?case by (simp add: displaced_def)
next
  case (Cons r rs)
  obtain p' v' calls' where st: "populate_step C Q env (p, v, calls) r = (p', v', calls')"
    by (cases "populate_step C Q env (p, v, calls) r") auto
  have "\<forall>x \<in> set rs. \<not> reports (dto_SubAccountID x) r" using Cons.prems(1) by (auto simp: reports_def image_iff)
  then have get: "ca_Get C (p_Cache p') (dto_SubAccountID x) = ca_Get C (p_Cache p) (dto_SubAccountID x)"
    if "x \<in> set rs" for x using step_get [of env p v calls r] st that by simp
  have skip: "skipRuntime p' = skipRuntime p" using step_skip [of env p v calls r] st by simp
  have "displaced C env p' rs = displaced C env p rs"
    unfolding displaced_def skip by (auto simp: get)
  moreover have "displaced C env p (r # rs) = displaced C env p [r] \<union> displaced C env p rs"
    by (auto simp: displaced_def)
  moreover have "deletions calls' = deletions calls \<union> matchLabels ` displaced C env p [r]"
    using step_deletions [of env p v calls r] st
    by (auto simp: displaced_def split: option.splits cache_item.splits if_splits)
  ultimately show ?case using Cons.IH [of p' v' calls'] Cons.prems st by auto
qed

lemma cleanup_deletions:
  "deletions (snd (foldl (cleanup_step C env v) (p, calls) es)) = deletions calls \<union>
     {matchLabels (case item of RecordItem r \<Rightarrow> r | OtherItem \<Rightarrow> zeroRecord) | s item.
        (s, item) \<in> set es \<and> map_of v s = None}"
proof (induction es arbitrary: p calls)
  case (Cons e es)
  obtain p' calls' where st: "cleanup_step C env v (p, calls) e = (p', calls')" by fastforce
  have "deletions calls' = deletions calls \<union>
      (if map_of v (fst e) = None
       then {matchLabels (case snd e of RecordItem r \<Rightarrow> r | OtherItem \<Rightarrow> zeroRecord)} else {})"
    using st by (cases e) (auto simp: cleanup_step_def Let_def split: if_splits)
  then show ?case using Cons.IH [of p' calls'] st by (cases e) auto
qed simp

lemma displaced_iff:
  assumes "distinct (subaccounts (pg_Data page))"
  shows "old \<in> displaced C env p (pg_Data page) \<longleftrightarrow>
    (\<exists>s. ca_Get C (p_Cache p) s = Some (RecordItem old) \<and> (\<exists>x \<in> set (pg_Data page). reports s x) \<and>
      ca_Get C (p_Cache (fst (populateCacheAndQueue C Q env p page))) s \<noteq> Some (RecordItem old))"
    (is "_ \<longleftrightarrow> (\<exists>s. ?moved s)")
proof
  note d = get_populate_distinct [OF assms, of _ _ env p]
  assume "old \<in> displaced C env p (pg_Data page)"
  then obtain r where r: "r \<in> set (pg_Data page)" "reports (dto_SubAccountID r) r"
    "ca_Get C (p_Cache p) (dto_SubAccountID r) = Some (RecordItem old)"
    "track_item (skipRuntime p) (tracked env) (Some (RecordItem old)) r \<noteq> Some (RecordItem old)"
    by (auto simp: displaced_def)
  then show "\<exists>s. ?moved s" using d [OF r(1,2)] by (intro exI [of _ "dto_SubAccountID r"]) auto
next
  note d = get_populate_distinct [OF assms, of _ _ env p]
  assume "\<exists>s. ?moved s"
  then obtain s x where x: "?moved s" "x \<in> set (pg_Data page)" "reports s x" by blast
  then show "old \<in> displaced C env p (pg_Data page)"
    using d [OF x(2,3)] by (auto simp: displaced_def reports_def intro!: bexI [of _ x])
qed

lemma populate_deletions:
  assumes "distinct (subaccounts (pg_Data page))" and "cache_wf C (p_Cache p)"
  shows "deletions (snd (populateCacheAndQueue C Q env p page)) =
    {matchLabels r | s r. ca_Get C (p_Cache p) s = Some (RecordItem r) \<and>
       ca_Get C (p_Cache (fst (populateCacheAndQueue C Q env p page))) s \<noteq> Some (RecordItem r)}"
    (is "?D = ?R")
proof -
  let ?rs = "pg_Data page" and ?get = "ca_Get C (p_Cache p)"
  let ?get' = "ca_Get C (p_Cache (fst (populateCacheAndQueue C Q env p page)))"
  obtain p1 v1 calls1 where st:
    "foldl (populate_step C Q env) (p, [], [ResetVec kebFetchedClusters]) ?rs = (p1, v1, calls1)"
    by (metis prod_cases3)
  have loop: "ca_Get C (p_Cache p1) s = foldl (track_item (skipRuntime p) (tracked env)) (?get s) (filter (reports s) ?rs)"
    "map_of v1 s = None \<longleftrightarrow> \<not> (\<exists>r \<in> set ?rs. reports s r)" for s
    using populate_loop [of env p "[]" "[ResetVec kebFetchedClusters]" ?rs s] st by auto
  have gone: "ca_Get C (p_Cache p1) s = ?get s" if "\<not> (\<exists>r \<in> set ?rs. reports s r)" for s
  proof -
    have "filter (reports s) ?rs = []" using that by (auto simp: filter_empty_conv)
    then show ?thesis using loop(1) by simp
  qed
  have recs: "ca_Get C (p_Cache p1) s = Some item \<and> \<not> (\<exists>r \<in> set ?rs. reports s r) \<longleftrightarrow>
      (\<exists>r. item = RecordItem r \<and> ?get s = Some (RecordItem r) \<and> \<not> (\<exists>r \<in> set ?rs. reports s r))" for s item
    using gone [of s] cache_wf_record [OF assms(2), of s item] by auto
  have "?D = matchLabels ` displaced C env p ?rs \<union>
      {matchLabels (case item of RecordItem r \<Rightarrow> r | OtherItem \<Rightarrow> zeroRecord) | s item.
        ca_Get C (p_Cache p1) s = Some item \<and> \<not> (\<exists>r \<in> set ?rs. reports s r)}"
    using populate_loop_deletions [OF assms(1), of env p "[]" "[ResetVec kebFetchedClusters]"] st
    by (simp add: populateCacheAndQueue_def cleanup_deletions item_iff loop(2))
  also have "\<dots> = matchLabels ` displaced C env p ?rs \<union>
      {matchLabels r | s r. ?get s = Some (RecordItem r) \<and> \<not> (\<exists>r \<in> set ?rs. reports s r)}"
    unfolding recs by auto (blast, force)
  also have "\<dots> = ?R"
  proof -
    note displaced_iff [OF assms(1), of _ env p]
    then have "matchLabels ` displaced C env p ?rs =
      {matchLabels r | s r. ?get s = Some (RecordItem r) \<and> (\<exists>x \<in> set ?rs. reports s x) \<and> ?get' s \<noteq> Some (RecordItem r)}"
      by blast
    then show ?thesis using get_populate [of env p page] by auto
  qed
  finally show ?thesis .
qed

end

text \<open>
  A poll deletes the metrics of exactly the records that leave the cache, because they are
  replaced by one for another shoot, are not trackable any more or are not reported any more; the
  metrics of a record that stays are not touched.
\<close>

theorem populate_deletes_metrics:
  assumes "process_libs C Q tick pending processing qinv"
    and "distinct (map dto_SubAccountID (pg_Data page))" and "cache_wf C (p_Cache p)"
  shows "let (p', calls) = populateCacheAndQueue C Q env p page
         in deletions calls = {matchLabels r | s r. ca_Get C (p_Cache p) s = Some (RecordItem r) \<and>
                                ca_Get C (p_Cache p') s \<noteq> Some (RecordItem r)}"
  unfolding Let_def case_prod_beta by (rule process_libs.populate_deletions [OF assms])


lemma sample_displaced:
  "let p = sampleProcess\<lparr>p_Cache := [(''x'', RecordItem (zeroRecord\<lparr>rec_SubAccountID := ''x''\<rparr>))]\<rparr>
   in cache_wf alist_cache (p_Cache p)"
  by (simp add: Let_def cache_wf_def item_wf_def alist_cache_def zeroRecord_def)

theorem populate_deletes_metrics_witness:
  "let p = sampleProcess\<lparr>p_Cache := [(''x'', RecordItem (zeroRecord\<lparr>rec_SubAccountID := ''x''\<rparr>))]\<rparr>;
       (p', calls) = populateCacheAndQueue alist_cache ref_queue_ops samplePollEnv p samplePage
   in matchLabels (zeroRecord\<lparr>rec_SubAccountID := ''x''\<rparr> :: nat Record) \<in> deletions calls"
proof -
  let ?old = "zeroRecord\<lparr>rec_SubAccountID := ''x''\<rparr> :: nat Record"
  let ?p = "sampleProcess\<lparr>p_Cache := [(''x'', RecordItem ?old)]\<rparr>"
  have gone: "ca_Get alist_cache (p_Cache (fst (populateCacheAndQueue alist_cache ref_queue_ops samplePollEnv ?p samplePage))) ''x'' = None"
    using ref_libs.get_populate [of samplePollEnv ?p samplePage "''x''"]
    by (simp add: samplePage_def sampleRuntime_def reports_def)
  have now: "ca_Get alist_cache (p_Cache ?p) ''x'' = Some (RecordItem ?old)" by (simp add: alist_cache_def)
  show ?thesis
    using populate_deletes_metrics [OF ref_libs.process_libs_axioms, of samplePage ?p samplePollEnv]
      sample_displaced gone now
    by (simp add: Let_def case_prod_beta samplePage_def) fastforce
qed

end
