(* ===== verification/QueueProcessing.thy ===== *)
theory QueueProcessing
  imports KebProcessing Resource
begin

text \<open>
  \<^verbatim>\<open>src/pkg/process/queue_processing.go\<close> and \<open>execute\<close> of \<^verbatim>\<open>src/pkg/process/process.go\<close>: what a worker
  does with a subaccount it takes from the queue. A panic of a goroutine ends the program, so it is an
  outcome of its own. Log lines are left out.
\<close>

section \<open>Model\<close>

text \<open>
  What a worker calls: the kubeconfig provider (which may panic), \<open>clientcmd.RESTConfigFromKubeConfig\<close>,
  the client factory and the collector.
\<close>

record ('prov, 'rc, 'cl, 'coll, 's) work_env =
  we_kubeconfig :: "'prov \<Rightarrow> string \<Rightarrow> ((go_error + string) \<times> 'prov \<times> metric_call list) option"
  we_restConfig :: "string \<Rightarrow> go_error + 'rc"
  we_newClients :: "'rc \<Rightarrow> go_error + 'cl"
  we_collect :: "'coll \<Rightarrow> Info \<Rightarrow> 'cl \<Rightarrow> 's ScanMap \<Rightarrow> 's ScanMap \<times> go_error option \<times> effect list"

datatype outcome = Finished bool | Panicked

definition runtimeInfo :: "'s Record \<Rightarrow> Info" where
  "runtimeInfo record =
     \<lparr>ri_InstanceID = rec_InstanceID record, ri_RuntimeID = rec_RuntimeID record,
      ri_SubAccountID = rec_SubAccountID record, ri_GlobalAccountID = rec_GlobalAccountID record,
      ri_ShootName = rec_ShootName record, ri_ProviderType = rec_ProviderType record\<rparr>"

text \<open>The logger of a worker.\<close>

definition queueProcessingLogger ::
  "('coll, 'prov, Logger, 'c, 'q) Process \<Rightarrow> 's Record option \<Rightarrow> string \<Rightarrow> int64 \<Rightarrow> Logger" where
  "queueProcessingLogger p record subAccountID identifier =
     (let logger = With KeySubAccountID subAccountID (With KeyWorkerID (show_int (sint identifier))
                     (With ''component'' ''kmc'' (p_Logger p)))
      in case record of
           None \<Rightarrow> logger
         | Some r \<Rightarrow> With KeyGlobalAccountID (rec_GlobalAccountID r) (With KeyShoot (rec_ShootName r)
             (With KeyRuntimeID (rec_RuntimeID r) logger)))"

text \<open>The record is a pointer; dereferencing nil panics, after the subaccount was queued again.\<close>

definition handleError ::
  "'q queue_ops \<Rightarrow> ('coll, 'prov, 'log, 'c, 'q) Process \<Rightarrow> 's Record option \<Rightarrow> string
   \<Rightarrow> outcome \<times> ('coll, 'prov, 'log, 'c, 'q) Process \<times> effect list" where
  "handleError Q p record subAccountID =
     (let p = p\<lparr>p_Queue := qo_AddAfter Q (p_Queue p) subAccountID (p_ScrapeInterval p)\<rparr>
      in case record of
           None \<Rightarrow> (Panicked, p, [])
         | Some r \<Rightarrow> (Finished False, p, [Metric (recordSubAccountProcessed False r)]))"

definition with_effects :: "effect list \<Rightarrow> 'o \<times> 'p \<times> effect list \<Rightarrow> effect list \<Rightarrow> 'o \<times> 'p \<times> effect list" where
  "with_effects pre r post = (case r of (out, p, effs) \<Rightarrow> (out, p, pre @ effs @ post))"

definition processSubAccountID ::
  "('c, 's cache_item) cache_ops \<Rightarrow> 'q queue_ops \<Rightarrow> ('prov, 'rc, 'cl, 'coll, 's) work_env
   \<Rightarrow> ('coll, 'prov, 'log, 'c, 'q) Process \<Rightarrow> string
   \<Rightarrow> outcome \<times> ('coll, 'prov, 'log, 'c, 'q) Process \<times> effect list" where
  "processSubAccountID C Q we p subAccountID =
     (case ca_Get C (p_Cache p) subAccountID of
        None \<Rightarrow> (Finished False, p,
                 [Metric (recordSubAccountProcessed False ((zeroRecord :: 's Record)\<lparr>rec_SubAccountID := subAccountID\<rparr>))])
      | Some OtherItem \<Rightarrow> handleError Q p (None :: 's Record option) subAccountID
      | Some (RecordItem record) \<Rightarrow>
         (case we_kubeconfig we (p_KubeconfigProvider p) (rec_RuntimeID record) of
            None \<Rightarrow> (Panicked, p, [])
          | Some (kubeConfig, prov, calls) \<Rightarrow>
             let p = p\<lparr>p_KubeconfigProvider := prov\<rparr>; pre = map Metric calls
             in (case kubeConfig of
                   Inl err \<Rightarrow> with_effects pre (handleError Q p (Some record) subAccountID) []
                 | Inr kubeConfig \<Rightarrow>
                    (case we_restConfig we kubeConfig of
                       Inl err \<Rightarrow> with_effects pre (handleError Q p (Some record) subAccountID) []
                     | Inr restClientConfig \<Rightarrow>
                        (case we_newClients we restClientConfig of
                           Inl err \<Rightarrow> with_effects pre (handleError Q p (Some record) subAccountID) []
                         | Inr clients \<Rightarrow>
                            (case we_collect we (p_EDPCollector p) (runtimeInfo record) clients (rec_ScanMap record) of
                               (newScans, Some err, effs) \<Rightarrow>
                                 with_effects (pre @ effs) (handleError Q p (Some record) subAccountID) [CloseConnections]
                             | (newScans, None, effs) \<Rightarrow>
                                 let record = record\<lparr>rec_ScanMap := newScans\<rparr>
                                 in (Finished True,
                                     p\<lparr>p_Cache := ca_Set C (p_Cache p) (rec_SubAccountID record) (RecordItem record)\<rparr>,
                                     pre @ effs @ [Metric (recordSubAccountProcessed True record),
                                       Metric (recordSubAccountProcessedTimeStamp record), CloseConnections])))))))"

text \<open>
  One round of a worker; \<open>None\<close> while the queue has nothing to hand out.
\<close>

definition execute_round ::
  "('c, 's cache_item) cache_ops \<Rightarrow> 'q queue_ops \<Rightarrow> ('prov, 'rc, 'cl, 'coll, 's) work_env
   \<Rightarrow> ('coll, 'prov, 'log, 'c, 'q) Process
   \<Rightarrow> (outcome \<times> ('coll, 'prov, 'log, 'c, 'q) Process \<times> effect list) option" where
  "execute_round C Q we p =
     (case qo_Get Q (p_Queue p) of
        None \<Rightarrow> None
      | Some (subAccountID, q) \<Rightarrow>
         (case processSubAccountID C Q we (p\<lparr>p_Queue := q\<rparr>) subAccountID of
            (Panicked, p, effs) \<Rightarrow> Some (Panicked, p, effs)
          | (Finished requeue, p, effs) \<Rightarrow>
             let p = p\<lparr>p_Queue := qo_Done Q (p_Queue p) subAccountID\<rparr>;
                 p = (if requeue then p\<lparr>p_Queue := qo_AddAfter Q (p_Queue p) subAccountID (p_ScrapeInterval p)\<rparr> else p)
             in Some (Finished requeue, p, effs)))"

section \<open>The work on one record\<close>

text \<open>
  Between loading the record and storing it the worker touches neither cache nor queue: what it does
  there depends on the record and the kubeconfig provider only.
\<close>

datatype ('prov, 's) work =
    WorkPanic
  | WorkFailed 'prov "effect list"
  | WorkDone 'prov "'s ScanMap" "effect list"

definition scan_cluster ::
  "('prov, 'rc, 'cl, 'coll, 's) work_env \<Rightarrow> 'coll \<Rightarrow> 'prov \<Rightarrow> 's Record \<Rightarrow> ('prov, 's) work" where
  "scan_cluster we coll prov record =
     (case we_kubeconfig we prov (rec_RuntimeID record) of
        None \<Rightarrow> WorkPanic
      | Some (kc, prov', calls) \<Rightarrow>
         (case Option.bind (case kc of Inl _ \<Rightarrow> None | Inr kc \<Rightarrow> Some kc)
                 (\<lambda>kc. Option.bind (case we_restConfig we kc of Inl _ \<Rightarrow> None | Inr rc \<Rightarrow> Some rc)
                   (\<lambda>rc. case we_newClients we rc of Inl _ \<Rightarrow> None | Inr cl \<Rightarrow> Some cl)) of
            None \<Rightarrow> WorkFailed prov' (map Metric calls @ [Metric (recordSubAccountProcessed False record)])
          | Some cl \<Rightarrow>
             (case we_collect we coll (runtimeInfo record) cl (rec_ScanMap record) of
                (_, Some _, effs) \<Rightarrow> WorkFailed prov' (map Metric calls @ effs @
                   [Metric (recordSubAccountProcessed False record), CloseConnections])
              | (newScans, None, effs) \<Rightarrow> WorkDone prov' newScans (map Metric calls @ effs @
                   [Metric (recordSubAccountProcessed True (record\<lparr>rec_ScanMap := newScans\<rparr>)),
                    Metric (recordSubAccountProcessedTimeStamp (record\<lparr>rec_ScanMap := newScans\<rparr>)), CloseConnections]))))"

lemma process_absent:
  "ca_Get C (p_Cache p) s = None \<Longrightarrow> \<exists>effs. processSubAccountID C Q we p s = (Finished False, p, effs)"
  by (simp add: processSubAccountID_def)

lemma process_record:
  assumes "ca_Get C (p_Cache p) s = Some (RecordItem record)"
  shows "processSubAccountID C Q we p s =
    (case scan_cluster we (p_EDPCollector p) (p_KubeconfigProvider p) record of
       WorkPanic \<Rightarrow> (Panicked, p, [])
     | WorkFailed prov effs \<Rightarrow>
         (Finished False, p\<lparr>p_KubeconfigProvider := prov, p_Queue := qo_AddAfter Q (p_Queue p) s (p_ScrapeInterval p)\<rparr>, effs)
     | WorkDone prov scans effs \<Rightarrow>
         (Finished True, p\<lparr>p_KubeconfigProvider := prov,
            p_Cache := ca_Set C (p_Cache p) (rec_SubAccountID record) (RecordItem (record\<lparr>rec_ScanMap := scans\<rparr>))\<rparr>, effs))"
  using assms
  by (auto simp: processSubAccountID_def scan_cluster_def handleError_def with_effects_def Let_def
      split: option.split sum.split prod.split)

text \<open>
  What a cycle for a record comes to, in words of what the worker calls: whether it gets clients for the cluster,
  and whether the collector reports success on them, with which scans.
\<close>

definition clients_made :: "('prov, 'rc, 'cl, 'coll, 's) work_env \<Rightarrow> 'prov \<Rightarrow> 's Record \<Rightarrow> 'cl \<Rightarrow> bool" where
  "clients_made we prov r cl \<longleftrightarrow>
     (\<exists>kc prov' calls rc. we_kubeconfig we prov (rec_RuntimeID r) = Some (Inr kc, prov', calls) \<and>
        we_restConfig we kc = Inr rc \<and> we_newClients we rc = Inr cl)"

definition cycle_succeeds :: "('prov, 'rc, 'cl, 'coll, 's) work_env \<Rightarrow> 'coll \<Rightarrow> 'prov \<Rightarrow> 's Record \<Rightarrow> 's ScanMap \<Rightarrow> bool" where
  "cycle_succeeds we coll prov r scans \<longleftrightarrow>
     (\<exists>cl sent. clients_made we prov r cl \<and> we_collect we coll (runtimeInfo r) cl (rec_ScanMap r) = (scans, None, sent))"

definition closes_if_made :: "('prov, 'rc, 'cl, 'coll, 's) work_env \<Rightarrow> 'prov \<Rightarrow> 's Record \<Rightarrow> effect list \<Rightarrow> bool" where
  "closes_if_made we prov r effs \<longleftrightarrow>
     (if \<exists>cl. clients_made we prov r cl then effs \<noteq> [] \<and> last effs = CloseConnections else CloseConnections \<notin> set effs)"

lemma cycle_unique: "cycle_succeeds we coll prov r scans \<Longrightarrow> cycle_succeeds we coll prov r = (\<lambda>scans'. scans' = scans)"
  by (auto simp: fun_eq_iff cycle_succeeds_def clients_made_def)

lemma scan_cluster_spec:
  "case scan_cluster we coll prov r of
     WorkPanic \<Rightarrow> we_kubeconfig we prov (rec_RuntimeID r) = None \<and> (\<nexists>scans. cycle_succeeds we coll prov r scans) \<and>
       closes_if_made we prov r []
   | WorkFailed prov' effs \<Rightarrow> we_kubeconfig we prov (rec_RuntimeID r) \<noteq> None \<and> (\<nexists>scans. cycle_succeeds we coll prov r scans) \<and>
       Metric (recordSubAccountProcessed False r) \<in> set effs \<and> closes_if_made we prov r effs
   | WorkDone prov' scans effs \<Rightarrow> we_kubeconfig we prov (rec_RuntimeID r) \<noteq> None \<and> cycle_succeeds we coll prov r scans \<and>
       Metric (recordSubAccountProcessed True (r\<lparr>rec_ScanMap := scans\<rparr>)) \<in> set effs \<and> closes_if_made we prov r effs"
  by (auto simp: scan_cluster_def cycle_succeeds_def clients_made_def closes_if_made_def bind_eq_Some_conv
      split: option.split sum.splits prod.split)

text \<open>A cache item that is not a record panics the worker, after the subaccount was queued again.\<close>

lemma bad_item_panics:
  "ca_Get C (p_Cache p) s = Some OtherItem \<Longrightarrow>
     processSubAccountID C Q we p s =
       (Panicked, p\<lparr>p_Queue := qo_AddAfter Q (p_Queue p) s (p_ScrapeInterval p)\<rparr>, [])"
  by (simp add: processSubAccountID_def handleError_def)

section \<open>Correctness of a worker\<close>

context process_libs
begin

lemma process_wf:
  assumes "cache_wf C (p_Cache p)" and "\<forall>i. we_kubeconfig we (p_KubeconfigProvider p) i \<noteq> None"
    and "processSubAccountID C Q we p s = (out, p', effs)"
  shows "out \<noteq> Panicked" and "cache_wf C (p_Cache p')"
    and "k \<noteq> s \<Longrightarrow> ca_Get C (p_Cache p') k = ca_Get C (p_Cache p) k"
    and "ca_Get C (p_Cache p) s = None \<Longrightarrow> out = Finished False \<and> p' = p"
    and "ca_Get C (p_Cache p) s = Some (RecordItem r) \<Longrightarrow> out = Finished True \<Longrightarrow>
           p_Queue p' = p_Queue p \<and> (\<exists>scans. ca_Get C (p_Cache p') s = Some (RecordItem (r\<lparr>rec_ScanMap := scans\<rparr>)))"
    and "ca_Get C (p_Cache p) s = Some (RecordItem r) \<Longrightarrow> out = Finished False \<Longrightarrow>
           p_Queue p' = qo_AddAfter Q (p_Queue p) s (p_ScrapeInterval p) \<and> p_Cache p' = p_Cache p"
proof -
  have np: "scan_cluster we coll (p_KubeconfigProvider p) r \<noteq> WorkPanic" for coll r
    using assms(2) by (auto simp: scan_cluster_def split: option.splits prod.splits sum.splits)
  consider (absent) "ca_Get C (p_Cache p) s = None"
    | (found) r where "ca_Get C (p_Cache p) s = Some (RecordItem r)" "rec_SubAccountID r = s" "s \<noteq> ''''"
    using cache_wf_record [OF assms(1), of s] by (cases "ca_Get C (p_Cache p) s") auto
  then have "out \<noteq> Panicked \<and> cache_wf C (p_Cache p') \<and>
    (k \<noteq> s \<longrightarrow> ca_Get C (p_Cache p') k = ca_Get C (p_Cache p) k) \<and>
    (ca_Get C (p_Cache p) s = None \<longrightarrow> out = Finished False \<and> p' = p) \<and>
    (ca_Get C (p_Cache p) s = Some (RecordItem r) \<longrightarrow> out = Finished True \<longrightarrow>
       p_Queue p' = p_Queue p \<and> (\<exists>scans. ca_Get C (p_Cache p') s = Some (RecordItem (r\<lparr>rec_ScanMap := scans\<rparr>)))) \<and>
    (ca_Get C (p_Cache p) s = Some (RecordItem r) \<longrightarrow> out = Finished False \<longrightarrow>
       p_Queue p' = qo_AddAfter Q (p_Queue p) s (p_ScrapeInterval p) \<and> p_Cache p' = p_Cache p)"
  proof cases
    case absent
    then show ?thesis using process_absent [OF absent, of Q we] assms(1,3) by auto
  next
    case (found r')
    have wf: "cache_wf C (ca_Set C (p_Cache p) s (RecordItem (r'\<lparr>rec_ScanMap := scans\<rparr>)))" for scans
      using assms(1) found by (auto simp: cache_wf_def item_wf_def get_set)
    show ?thesis
      using assms(1,3) found np [of "p_EDPCollector p" r'] wf
      unfolding process_record [OF found(1)]
      by (cases "scan_cluster we (p_EDPCollector p) (p_KubeconfigProvider p) r'") (auto simp: get_set)
  qed
  then show "out \<noteq> Panicked" "cache_wf C (p_Cache p')"
    "k \<noteq> s \<Longrightarrow> ca_Get C (p_Cache p') k = ca_Get C (p_Cache p) k"
    "ca_Get C (p_Cache p) s = None \<Longrightarrow> out = Finished False \<and> p' = p"
    "ca_Get C (p_Cache p) s = Some (RecordItem r) \<Longrightarrow> out = Finished True \<Longrightarrow>
       p_Queue p' = p_Queue p \<and> (\<exists>scans. ca_Get C (p_Cache p') s = Some (RecordItem (r\<lparr>rec_ScanMap := scans\<rparr>)))"
    "ca_Get C (p_Cache p) s = Some (RecordItem r) \<Longrightarrow> out = Finished False \<Longrightarrow>
       p_Queue p' = qo_AddAfter Q (p_Queue p) s (p_ScrapeInterval p) \<and> p_Cache p' = p_Cache p"
    by simp_all
qed

end

text \<open>
  C12: the work on a subaccount, on a well-formed cache. No other subaccount is touched, and the cache stays well
  formed. A subaccount that is not cached is dropped. For a cached one the worker panics exactly if the
  kubeconfig provider does (\<open>getJitterTTL_panics\<close> says when). It reports success exactly if it gets a kubeconfig,
  a configuration and clients, and the collector reports no error on them; then the record is stored with
  the scans the collector returned and otherwise unchanged, the queue is left to the caller, and the success is
  counted. In every other case the record is unchanged, the subaccount is queued again after the scrape
  interval, and the failure is counted. The connections are closed last whenever clients were made.
\<close>

theorem processSubAccountID_spec:
  assumes "process_libs C Q tick pending processing qinv" and "cache_wf C (p_Cache p)"
  shows "let (out, p', effs) = processSubAccountID C Q we p s; prov = p_KubeconfigProvider p; coll = p_EDPCollector p
         in cache_wf C (p_Cache p') \<and> (\<forall>k. k \<noteq> s \<longrightarrow> ca_Get C (p_Cache p') k = ca_Get C (p_Cache p) k) \<and>
            (case ca_Get C (p_Cache p) s of
               Some (RecordItem r) \<Rightarrow>
                 (out = Panicked \<longleftrightarrow> we_kubeconfig we prov (rec_RuntimeID r) = None) \<and>
                 (out = Finished True \<longleftrightarrow> (\<exists>scans. cycle_succeeds we coll prov r scans)) \<and>
                 (\<forall>scans. cycle_succeeds we coll prov r scans \<longrightarrow> p_Queue p' = p_Queue p \<and>
                    ca_Get C (p_Cache p') s = Some (RecordItem (r\<lparr>rec_ScanMap := scans\<rparr>)) \<and>
                    Metric (recordSubAccountProcessed True (r\<lparr>rec_ScanMap := scans\<rparr>)) \<in> set effs) \<and>
                 (out = Finished False \<longrightarrow> p_Cache p' = p_Cache p \<and>
                    p_Queue p' = qo_AddAfter Q (p_Queue p) s (p_ScrapeInterval p) \<and>
                    Metric (recordSubAccountProcessed False r) \<in> set effs) \<and>
                 closes_if_made we prov r effs
             | _ \<Rightarrow> out = Finished False \<and> p' = p)"
proof -
  note get_set = gocache.get_set [OF process_libs.axioms(1) [OF assms(1)]]
  consider (absent) "ca_Get C (p_Cache p) s = None"
    | (found) r where "ca_Get C (p_Cache p) s = Some (RecordItem r)" "rec_SubAccountID r = s" "s \<noteq> ''''"
    using cache_wf_record [OF assms(2), of s] by (cases "ca_Get C (p_Cache p) s") auto
  then show ?thesis
  proof cases
    case absent
    then show ?thesis using process_absent [OF absent, of Q we] assms(2) by auto
  next
    case (found r)
    have wf: "cache_wf C (ca_Set C (p_Cache p) s (RecordItem (r\<lparr>rec_ScanMap := scans\<rparr>)))" for scans
      using assms(2) found by (auto simp: cache_wf_def item_wf_def get_set)
    show ?thesis
      using assms(2) found wf scan_cluster_spec [where coll = "p_EDPCollector p" and prov = "p_KubeconfigProvider p" and we = we and r = r]
      unfolding process_record [OF found(1)]
      by (cases "scan_cluster we (p_EDPCollector p) (p_KubeconfigProvider p) r")
        (auto simp: get_set Let_def dest: cycle_unique)
  qed
qed

definition sampleWork :: "(unit, unit, unit, unit, nat) work_env" where
  "sampleWork = \<lparr>we_kubeconfig = \<lambda>_ _. Some (Inr ''kc'', (), []), we_restConfig = \<lambda>_. Inr (),
     we_newClients = \<lambda>_. Inr (), we_collect = \<lambda>_ _ _ _. ([(''node'', 5)], None, [])\<rparr>"

text \<open>The state after the first poll of the sample broker.\<close>

definition polledProcess :: "(unit, unit, unit, (string, nat cache_item) gomap, ref_queue) Process" where
  "polledProcess = sampleProcess\<lparr>p_Cache := [(''s'', RecordItem (newRecord sampleRuntime))],
     p_Queue := qo_Add ref_queue_ops (qo_new ref_queue_ops) ''s''\<rparr>"

lemma polled_wf: "cache_wf alist_cache (p_Cache polledProcess)"
  by (simp add: cache_wf_def item_wf_def polledProcess_def alist_cache_def sampleRuntime_def)

theorem processSubAccountID_spec_witness:
  "let (out, p', effs) = processSubAccountID alist_cache ref_queue_ops sampleWork polledProcess ''s''
   in out = Finished True \<and> ca_Get alist_cache (p_Cache p') ''s'' =
        Some (RecordItem ((newRecord sampleRuntime)\<lparr>rec_ScanMap := [(''node'', 5)]\<rparr>)) \<and> last effs = CloseConnections"
proof -
  let ?r = "newRecord sampleRuntime :: nat Record"
  have made: "clients_made sampleWork () ?r ()" by (simp add: clients_made_def sampleWork_def)
  then have "cycle_succeeds sampleWork () () ?r [(''node'', 5)]" by (auto simp: cycle_succeeds_def sampleWork_def)
  moreover have "ca_Get alist_cache (p_Cache polledProcess) ''s'' = Some (RecordItem ?r)"
    by (simp add: polledProcess_def alist_cache_def)
  ultimately show ?thesis
    using processSubAccountID_spec [OF ref_libs.process_libs_axioms polled_wf, of sampleWork "''s''"] made
    by (auto simp: Let_def closes_if_made_def)
qed

lemma execute_round_runs:
  "qo_Get Q (p_Queue p) = Some (s, q) \<Longrightarrow> \<exists>out p' effs. execute_round C Q we p = Some (out, p', effs)"
  by (cases "processSubAccountID C Q we (p\<lparr>p_Queue := q\<rparr>) s";
      cases "fst (processSubAccountID C Q we (p\<lparr>p_Queue := q\<rparr>) s)")
    (simp_all add: execute_round_def Let_def)

text \<open>
  A worker that runs alone loses nothing: if every cached subaccount is pending in the queue
  before it takes one, then every cached subaccount is pending after the round, and the cache stays
  well formed.
\<close>

theorem execute_round_keeps_pending:
  assumes "process_libs C Q tick pending processing qinv" and "cache_wf C (p_Cache p)"
    and "\<forall>i. we_kubeconfig we (p_KubeconfigProvider p) i \<noteq> None" and "qinv (p_Queue p)"
    and "\<forall>s. ca_Get C (p_Cache p) s \<noteq> None \<longrightarrow> s \<in> pending (p_Queue p)"
    and "execute_round C Q we p = Some (out, p', effs)"
  shows "out \<noteq> Panicked \<and> cache_wf C (p_Cache p') \<and> qinv (p_Queue p') \<and>
         (\<forall>s. ca_Get C (p_Cache p') s \<noteq> None \<longrightarrow> s \<in> pending (p_Queue p'))"
proof -
  from assms(6) obtain s q where get: "qo_Get Q (p_Queue p) = Some (s, q)"
    by (auto simp: execute_round_def split: option.splits)
  note Q = process_libs.axioms(2) [OF assms(1)]
  note q = delaying_queue.get [OF Q, OF assms(4) get]
  obtain out1 p1 effs1 where run: "processSubAccountID C Q we (p\<lparr>p_Queue := q\<rparr>) s = (out1, p1, effs1)"
    by (metis prod_cases3)
  have wf: "cache_wf C (p_Cache (p\<lparr>p_Queue := q\<rparr>))" using assms(2) by simp
  have kc: "\<forall>i. we_kubeconfig we (p_KubeconfigProvider (p\<lparr>p_Queue := q\<rparr>)) i \<noteq> None" using assms(3) by simp
  note w = process_libs.process_wf [OF assms(1), OF wf kc run]
  have q': "qinv q" using q by blast
  note qdone = delaying_queue.done' [OF Q] and after = delaying_queue.addAfter [OF Q]
  have others: "\<forall>k. k = s \<or> ca_Get C (p_Cache p1) k = None \<or> k \<in> pending q"
    using w(3) q assms(5) by fastforce
  consider (absent) "ca_Get C (p_Cache p) s = None" | (kept) r where "ca_Get C (p_Cache p) s = Some (RecordItem r)"
    using cache_wf_record [OF assms(2), of s] by (cases "ca_Get C (p_Cache p) s") auto
  then show ?thesis
  proof cases
    case absent
    then have "out1 = Finished False" "p1 = p\<lparr>p_Queue := q\<rparr>" using w(4) by auto
    moreover from this have "\<forall>k. ca_Get C (p_Cache p) k = None \<or> k \<in> pending q"
      using others absent by (metis Process.select_convs(6) Process.surjective Process.update_convs(4))
    ultimately show ?thesis
      using assms(6) get run q' wf by (auto simp: execute_round_def qdone) (metis option.distinct(1))
  next
    case (kept r)
    from w(1) consider "out1 = Finished True" | "out1 = Finished False" by (cases out1) auto
    then show ?thesis
    proof cases
      case 1
      then show ?thesis
        using assms(6) get run others q' w(2) w(5) [of r] kept by (auto simp: execute_round_def qdone after)
    next
      case 2
      then show ?thesis
        using assms(6) get run others q' w(2) w(6) [of r] kept by (auto simp: execute_round_def qdone after)
    qed
  qed
qed

lemma polled_pending:
  "rq_inv (p_Queue polledProcess)"
  "\<forall>s. ca_Get alist_cache (p_Cache polledProcess) s \<noteq> None \<longrightarrow> s \<in> rq_pending (p_Queue polledProcess)"
  using ref_queue.add [OF ref_queue.new(1), of "''s''"] by (simp_all add: polledProcess_def alist_cache_def)

theorem execute_round_keeps_pending_witness:
  "\<exists>out p' effs. execute_round alist_cache ref_queue_ops sampleWork polledProcess = Some (out, p', effs) \<and>
     cache_wf alist_cache (p_Cache p')"
proof -
  have "\<exists>s q. qo_Get ref_queue_ops (p_Queue polledProcess) = Some (s, q)"
    by (simp add: polledProcess_def ref_queue_ops_def rq_Get_def rq_Add_def)
  then obtain s q where "qo_Get ref_queue_ops (p_Queue polledProcess) = Some (s, q)" by blast
  from execute_round_runs [OF this, of alist_cache sampleWork]
  obtain out p' effs where run: "execute_round alist_cache ref_queue_ops sampleWork polledProcess = Some (out, p', effs)"
    by blast
  have "\<forall>i. we_kubeconfig sampleWork (p_KubeconfigProvider polledProcess) i \<noteq> None" by (simp add: sampleWork_def)
  from execute_round_keeps_pending [OF ref_libs.process_libs_axioms polled_wf this polled_pending run] run
  show ?thesis by blast
qed

end
