(* ===== verification/Concurrency.thy ===== *)
theory Concurrency
  imports QueueProcessing
begin

text \<open>
  The poller and the workers together (\<open>Start\<close> of \<^verbatim>\<open>src/pkg/process/process.go\<close>): goroutines that
  share the cache, the queue and the kubeconfig provider without any lock of their own. A step is one
  operation on a shared object, which the libraries make atomic; between two steps of a goroutine any
  other may run. The program counters below name the places between those operations. While a worker
  looks up the kubeconfig, scans the cluster and sends the event, the kubeconfig provider is the only
  shared object it uses, so that this work is one step.
\<close>

section \<open>States\<close>

datatype 's worker =
    Idle
  | Loading string
  | Working string "'s Record"
  | Failing string
  | Storing string "'s Record"
  | Finishing string bool
  | Requeueing string
  | Crashed

text \<open>
  The poller in the loop over the runtimes: at the top of a round, after \<open>Cache.Get\<close> with what it
  returned, and after \<open>Cache.Add\<close> with the subaccount still to be queued; in the clean-up: with the
  rest of its snapshot.
\<close>

datatype 's poller =
    Resting
  | Polling "RuntimeDTO list" "(string, bool) gomap"
  | Deciding RuntimeDTO "'s cache_item option" "RuntimeDTO list" "(string, bool) gomap"
  | Queueing string "RuntimeDTO list" "(string, bool) gomap"
  | Sweeping "(string \<times> 's cache_item) list" "(string, bool) gomap"

record ('coll, 'prov, 'log, 'c, 'q, 's) system =
  sys_proc :: "('coll, 'prov, 'log, 'c, 'q) Process"
  sys_poller :: "'s poller"
  sys_workers :: "'s worker list"

section \<open>Steps of the poller\<close>

text \<open>What the poller does with a runtime once it knows the cached item: the cache, and whether to queue.\<close>

definition decide ::
  "('c, 's cache_item) cache_ops \<Rightarrow> poll_env \<Rightarrow> ('coll, 'prov, 'log, 'c, 'q) Process \<Rightarrow> RuntimeDTO
   \<Rightarrow> 's cache_item option \<Rightarrow> 'c \<times> bool" where
  "decide C env p r item =
     (let c = p_Cache p; sub = dto_SubAccountID r
      in if skipRuntime p r then (c, False)
         else if tracked env r then
           (case item of
              None \<Rightarrow> (case ca_Add C c sub (RecordItem (newRecord r)) of Inl _ \<Rightarrow> (c, False) | Inr c' \<Rightarrow> (c', True))
            | Some (RecordItem old) \<Rightarrow>
                if rec_ShootName old = dto_ShootName r then (c, False)
                else (ca_Set C c sub (RecordItem (newRecord r)), False)
            | Some OtherItem \<Rightarrow> (c, False))
         else (case item of None \<Rightarrow> (c, False) | Some _ \<Rightarrow> (ca_Delete C c sub, False)))"

inductive poller_step ::
  "('c, 's cache_item) cache_ops \<Rightarrow> 'q queue_ops \<Rightarrow> poll_env
   \<Rightarrow> ('coll, 'prov, 'log, 'c, 'q) Process \<times> 's poller
   \<Rightarrow> ('coll, 'prov, 'log, 'c, 'q) Process \<times> 's poller \<Rightarrow> bool"
  for C Q env where
  poll_start: "poller_step C Q env (p, Resting) (p, Polling rs [])"
| poll_empty: "dto_SubAccountID r = '''' \<Longrightarrow>
    poller_step C Q env (p, Polling (r # rs) v) (p, Polling rs v)"
| poll_get: "dto_SubAccountID r \<noteq> '''' \<Longrightarrow>
    poller_step C Q env (p, Polling (r # rs) v)
      (p, Deciding r (ca_Get C (p_Cache p) (dto_SubAccountID r)) rs (AList.update (dto_SubAccountID r) True v))"
| poll_decide: "decide C env p r item = (c, queue) \<Longrightarrow>
    poller_step C Q env (p, Deciding r item rs v)
      (p\<lparr>p_Cache := c\<rparr>, if queue then Queueing (dto_SubAccountID r) rs v else Polling rs v)"
| poll_queue: "poller_step C Q env (p, Queueing s rs v) (p\<lparr>p_Queue := qo_Add Q (p_Queue p) s\<rparr>, Polling rs v)"
| poll_snapshot: "poller_step C Q env (p, Polling [] v) (p, Sweeping (ca_Items C (p_Cache p)) v)"
| poll_sweep: "poller_step C Q env (p, Sweeping (e # es) v)
    ((if map_of v (fst e) = None then p\<lparr>p_Cache := ca_Delete C (p_Cache p) (fst e)\<rparr> else p), Sweeping es v)"
| poll_rest: "poller_step C Q env (p, Sweeping [] v) (p, Resting)"

section \<open>Steps of a worker\<close>

inductive worker_step ::
  "('c, 's cache_item) cache_ops \<Rightarrow> 'q queue_ops \<Rightarrow> ('prov, 'rc, 'cl, 'coll, 's) work_env
   \<Rightarrow> ('coll, 'prov, 'log, 'c, 'q) Process \<times> 's worker
   \<Rightarrow> ('coll, 'prov, 'log, 'c, 'q) Process \<times> 's worker \<Rightarrow> bool"
  for C Q we where
  work_take: "qo_Get Q (p_Queue p) = Some (s, q) \<Longrightarrow>
    worker_step C Q we (p, Idle) (p\<lparr>p_Queue := q\<rparr>, Loading s)"
| work_absent: "ca_Get C (p_Cache p) s = None \<Longrightarrow>
    worker_step C Q we (p, Loading s) (p, Finishing s False)"
| work_load: "ca_Get C (p_Cache p) s = Some (RecordItem r) \<Longrightarrow>
    worker_step C Q we (p, Loading s) (p, Working s r)"
| work_bad: "ca_Get C (p_Cache p) s = Some OtherItem \<Longrightarrow>
    worker_step C Q we (p, Loading s)
      (p\<lparr>p_Queue := qo_AddAfter Q (p_Queue p) s (p_ScrapeInterval p)\<rparr>, Crashed)"
| work_panic: "scan_cluster we (p_EDPCollector p) (p_KubeconfigProvider p) r = WorkPanic \<Longrightarrow>
    worker_step C Q we (p, Working s r) (p, Crashed)"
| work_failed: "scan_cluster we (p_EDPCollector p) (p_KubeconfigProvider p) r = WorkFailed prov effs \<Longrightarrow>
    worker_step C Q we (p, Working s r) (p\<lparr>p_KubeconfigProvider := prov\<rparr>, Failing s)"
| work_retry: "worker_step C Q we (p, Failing s)
    (p\<lparr>p_Queue := qo_AddAfter Q (p_Queue p) s (p_ScrapeInterval p)\<rparr>, Finishing s False)"
| work_done: "scan_cluster we (p_EDPCollector p) (p_KubeconfigProvider p) r = WorkDone prov scans effs \<Longrightarrow>
    worker_step C Q we (p, Working s r)
      (p\<lparr>p_KubeconfigProvider := prov\<rparr>, Storing s (r\<lparr>rec_ScanMap := scans\<rparr>))"
| work_store: "worker_step C Q we (p, Storing s r)
    (p\<lparr>p_Cache := ca_Set C (p_Cache p) (rec_SubAccountID r) (RecordItem r)\<rparr>, Finishing s True)"
| work_finish: "worker_step C Q we (p, Finishing s requeue)
    (p\<lparr>p_Queue := qo_Done Q (p_Queue p) s\<rparr>, if requeue then Requeueing s else Idle)"
| work_requeue: "worker_step C Q we (p, Requeueing s)
    (p\<lparr>p_Queue := qo_AddAfter Q (p_Queue p) s (p_ScrapeInterval p)\<rparr>, Idle)"

section \<open>The system\<close>

text \<open>
  The clock of the queue runs on its own. What the outside world answers may change from step to step:
  \<open>E\<close> and \<open>W\<close> are the environments that poller and workers may meet.
\<close>

inductive system_step ::
  "('c, 's cache_item) cache_ops \<Rightarrow> 'q queue_ops \<Rightarrow> ('q \<Rightarrow> 'q) \<Rightarrow> poll_env set \<Rightarrow> ('prov, 'rc, 'cl, 'coll, 's) work_env set
   \<Rightarrow> ('coll, 'prov, 'log, 'c, 'q, 's) system \<Rightarrow> ('coll, 'prov, 'log, 'c, 'q, 's) system \<Rightarrow> bool"
  for C Q tick E W where
  sys_poll: "env \<in> E \<Longrightarrow> poller_step C Q env (sys_proc S, sys_poller S) (p, po) \<Longrightarrow>
    system_step C Q tick E W S (S\<lparr>sys_proc := p, sys_poller := po\<rparr>)"
| sys_work: "we \<in> W \<Longrightarrow> i < length (sys_workers S) \<Longrightarrow> worker_step C Q we (sys_proc S, sys_workers S ! i) (p, w) \<Longrightarrow>
    system_step C Q tick E W S (S\<lparr>sys_proc := p, sys_workers := (sys_workers S)[i := w]\<rparr>)"
| sys_tick: "system_step C Q tick E W S
    (S\<lparr>sys_proc := (sys_proc S)\<lparr>p_Queue := tick (p_Queue (sys_proc S))\<rparr>\<rparr>)"

text \<open>\<open>Start\<close>: an empty cache and queue, the poller about to poll, every worker idle.\<close>

definition system_start ::
  "('coll, 'prov, 'log, 'c, 'q) Process \<Rightarrow> ('coll, 'prov, 'log, 'c, 'q, 's) system" where
  "system_start p = \<lparr>sys_proc = p, sys_poller = Resting,
     sys_workers = replicate (nat (sint (p_WorkersPoolSize p))) Idle\<rparr>"

abbreviation reachable where
  "reachable C Q tick E W p \<equiv> (system_step C Q tick E W)\<^sup>*\<^sup>* (system_start p)"

inductive_cases poller_stepE: "poller_step C Q env (p, po) (p', po')"
inductive_cases worker_stepE: "worker_step C Q we (p, w) (p', w')"
inductive_cases system_stepE: "system_step C Q tick E W S S'"

section \<open>The invariant\<close>

text \<open>The subaccount a worker is processing, in the sense of the queue, and the one it still has to
  put back or to find gone.\<close>

fun held_by :: "'s worker \<Rightarrow> string option" where
  "held_by (Loading s) = Some s"
| "held_by (Working s _) = Some s"
| "held_by (Failing s) = Some s"
| "held_by (Storing s _) = Some s"
| "held_by (Finishing s _) = Some s"
| "held_by _ = None"

fun owed_by :: "'s worker \<Rightarrow> string option" where
  "owed_by (Loading s) = Some s"
| "owed_by (Working s _) = Some s"
| "owed_by (Failing s) = Some s"
| "owed_by (Storing s _) = Some s"
| "owed_by (Finishing s requeue) = (if requeue then Some s else None)"
| "owed_by (Requeueing s) = Some s"
| "owed_by _ = None"

fun owed_by_poller :: "'s poller \<Rightarrow> string option" where
  "owed_by_poller (Queueing s _ _) = Some s"
| "owed_by_poller _ = None"

definition cached :: "('c, 's cache_item) cache_ops \<Rightarrow> ('coll, 'prov, 'log, 'c, 'q) Process \<Rightarrow> string \<Rightarrow> bool" where
  "cached C p s \<longleftrightarrow> ca_Get C (p_Cache p) s \<noteq> None"

text \<open>
  Every cached subaccount is pending, or a goroutine is about to see to it. Only the poller deletes,
  so what it found when it looked is still there when it acts.
\<close>

definition covered ::
  "('c, 's cache_item) cache_ops \<Rightarrow> ('q \<Rightarrow> string set) \<Rightarrow> ('coll, 'prov, 'log, 'c, 'q, 's) system \<Rightarrow> bool" where
  "covered C pending S \<longleftrightarrow>
     (\<forall>s. cached C (sys_proc S) s \<longrightarrow>
        s \<in> pending (p_Queue (sys_proc S)) \<or> Some s \<in> owed_by ` set (sys_workers S) \<or>
        owed_by_poller (sys_poller S) = Some s) \<and>
     (\<forall>r item rs v. sys_poller S = Deciding r (Some item) rs v \<longrightarrow> cached C (sys_proc S) (dto_SubAccountID r))"

definition worker_wf :: "'s worker \<Rightarrow> bool" where
  "worker_wf w \<longleftrightarrow> (case w of Working s r \<Rightarrow> rec_SubAccountID r = s \<and> s \<noteq> ''''
     | Storing s r \<Rightarrow> rec_SubAccountID r = s \<and> s \<noteq> '''' | Crashed \<Rightarrow> False | _ \<Rightarrow> True)"

definition poller_wf :: "'s poller \<Rightarrow> bool" where
  "poller_wf po \<longleftrightarrow> (case po of Deciding r _ _ _ \<Rightarrow> dto_SubAccountID r \<noteq> '''' | _ \<Rightarrow> True)"

definition data_wf :: "('c, 's cache_item) cache_ops \<Rightarrow> ('coll, 'prov, 'log, 'c, 'q, 's) system \<Rightarrow> bool" where
  "data_wf C S \<longleftrightarrow> cache_wf C (p_Cache (sys_proc S)) \<and> poller_wf (sys_poller S) \<and> list_all worker_wf (sys_workers S)"

text \<open>
  A set of provider states the kubeconfig provider does not leave and in which it never panics.
\<close>

definition provider_safe :: "('prov, 'rc, 'cl, 'coll, 's) work_env \<Rightarrow> ('prov \<Rightarrow> bool) \<Rightarrow> bool" where
  "provider_safe we okp \<longleftrightarrow> (\<forall>prov i. okp prov \<longrightarrow>
     (case we_kubeconfig we prov i of None \<Rightarrow> False | Some (_, prov', _) \<Rightarrow> okp prov'))"

text \<open>No two workers process the same subaccount.\<close>

definition exclusive ::
  "('q \<Rightarrow> string set) \<Rightarrow> ('coll, 'prov, 'log, 'c, 'q, 's) system \<Rightarrow> bool" where
  "exclusive processing S \<longleftrightarrow>
     (\<forall>i < length (sys_workers S). \<forall>s. held_by (sys_workers S ! i) = Some s \<longrightarrow>
        s \<in> processing (p_Queue (sys_proc S)) \<and>
        (\<forall>j < length (sys_workers S). held_by (sys_workers S ! j) = Some s \<longrightarrow> j = i))"

definition sys_inv where
  "sys_inv C pending processing qinv okp S \<longleftrightarrow>
     okp (p_KubeconfigProvider (sys_proc S)) \<and> qinv (p_Queue (sys_proc S)) \<and> data_wf C S \<and> covered C pending S \<and> exclusive processing S"

lemma scan_cluster_provider:
  assumes "provider_safe we okp" and "okp prov"
  shows "case scan_cluster we coll prov r of
           WorkPanic \<Rightarrow> False | WorkFailed prov' _ \<Rightarrow> okp prov' | WorkDone prov' _ _ \<Rightarrow> okp prov'"
  using assms(1) [unfolded provider_safe_def, rule_format, OF assms(2), of "rec_RuntimeID r"]
  by (cases "we_kubeconfig we prov (rec_RuntimeID r)") (auto simp: scan_cluster_def split: option.split prod.split)

context process_libs
begin

lemma poller_provider:
  "poller_step C Q env (p, po) (p', po') \<Longrightarrow> p_KubeconfigProvider p' = p_KubeconfigProvider p"
  by (auto elim!: poller_stepE split: if_splits)

lemma poller_queue:
  assumes "poller_step C Q env (p, po) (p', po')" and "qinv (p_Queue p)"
  shows "qinv (p_Queue p')" "pending (p_Queue p) \<subseteq> pending (p_Queue p')" "processing (p_Queue p') = processing (p_Queue p)"
    "owed_by_poller po = Some s \<Longrightarrow> s \<in> pending (p_Queue p')"
  using assms by (auto elim!: poller_stepE simp: add split: if_splits)

lemma decide_wf:
  assumes "cache_wf C (p_Cache p)" and "dto_SubAccountID r \<noteq> ''''"
  shows "cache_wf C (fst (decide C env p r item))"
  using assms add_absent [of "p_Cache p" "dto_SubAccountID r" "RecordItem (newRecord r)"]
    add_present [of "p_Cache p" "dto_SubAccountID r" "RecordItem (newRecord r)"]
  by (cases "ca_Get C (p_Cache p) (dto_SubAccountID r)")
    (auto simp: decide_def cache_wf_def item_wf_def Let_def get_set get_delete
      split: option.splits cache_item.splits sum.splits)

lemma delete_wf: "cache_wf C c \<Longrightarrow> cache_wf C (ca_Delete C c k)"
  by (simp add: cache_wf_def item_wf_def get_delete)

lemma poller_data:
  assumes "poller_step C Q env (p, po) (p', po')" and "cache_wf C (p_Cache p)" and "poller_wf po"
  shows "cache_wf C (p_Cache p')" "poller_wf po'"
  using assms decide_wf [OF assms(2)]
  by (auto elim!: poller_stepE simp: poller_wf_def delete_wf dest!: arg_cong [where f = fst])

text \<open>What a decision adds to the cache is cached already, or queued next.\<close>

lemma decide_cached:
  assumes "decide C env p r item = (c, queue)" and "ca_Get C c s \<noteq> None" and "ca_Get C (p_Cache p) s = None"
    and "item \<noteq> None \<Longrightarrow> ca_Get C (p_Cache p) (dto_SubAccountID r) \<noteq> None"
  shows "queue \<and> s = dto_SubAccountID r"
  using assms add_absent [of "p_Cache p" "dto_SubAccountID r" "RecordItem (newRecord r)"]
    add_present [of "p_Cache p" "dto_SubAccountID r" "RecordItem (newRecord r)"]
  by (cases "ca_Get C (p_Cache p) (dto_SubAccountID r)")
    (auto simp: decide_def Let_def get_set get_delete split: option.splits cache_item.splits sum.splits if_splits)

lemma poller_cached:
  assumes "poller_step C Q env (p, po) (p', po')" and "cached C p' s"
    and "\<And>r item rs v. po = Deciding r (Some item) rs v \<Longrightarrow> cached C p (dto_SubAccountID r)"
  shows "cached C p s \<or> owed_by_poller po' = Some s"
  using assms
proof cases
  case (poll_decide r item c queue rs v)
  show ?thesis
  proof (cases "ca_Get C (p_Cache p) s")
    case None
    have "queue \<and> s = dto_SubAccountID r"
      by (rule decide_cached [OF \<open>decide C env p r item = (c, queue)\<close> _ None])
        (use poll_decide assms in \<open>auto simp: cached_def\<close>)
    then show ?thesis using poll_decide by simp
  qed (simp add: cached_def)
qed (auto simp: cached_def get_delete split: if_splits)

lemma worker_queue:
  assumes "worker_step C Q we (p, w) (p', w')" and "qinv (p_Queue p)"
  shows "qinv (p_Queue p')"
    and "s \<in> pending (p_Queue p) \<Longrightarrow> s \<in> pending (p_Queue p') \<or> owed_by w' = Some s"
    and "owed_by w = Some s \<Longrightarrow> s \<in> pending (p_Queue p') \<or> owed_by w' = Some s \<or> \<not> cached C p s \<or> w' = Crashed"
  using assms get [OF assms(2)] by (auto elim!: worker_stepE simp: add addAfter done' cached_def split: if_splits)

lemma worker_cached:
  assumes "worker_step C Q we (p, w) (p', w')" and "worker_wf w"
  shows "cached C p' s \<Longrightarrow> cached C p s \<or> owed_by w' = Some s"
    and "cached C p s \<Longrightarrow> cached C p' s"
  using assms by (auto elim!: worker_stepE simp: cached_def get_set worker_wf_def split: if_splits)

lemma worker_data:
  assumes "worker_step C Q we (p, w) (p', w')" and "worker_wf w" and "cache_wf C (p_Cache p)"
    and "provider_safe we okp" and "okp (p_KubeconfigProvider p)"
  shows "cache_wf C (p_Cache p')" and "worker_wf w'" and "okp (p_KubeconfigProvider p')"
proof -
  have np: "scan_cluster we coll (p_KubeconfigProvider p) r \<noteq> WorkPanic" for coll r
    using scan_cluster_provider [OF assms(4,5), of coll r] by auto
  have np': "okp prov"
    if "scan_cluster we coll (p_KubeconfigProvider p) r = WorkFailed prov effs \<or>
        scan_cluster we coll (p_KubeconfigProvider p) r = WorkDone prov scans effs" for coll r prov scans effs
    using scan_cluster_provider [OF assms(4,5), of coll r] that by auto
  show "okp (p_KubeconfigProvider p')"
    using assms(1,5) by (auto elim!: worker_stepE split: if_splits intro: np' [OF disjI1] np' [OF disjI2])
  show "cache_wf C (p_Cache p')"
    using assms(1-3) by (auto elim!: worker_stepE simp: cache_wf_def item_wf_def get_set worker_wf_def)
  show "worker_wf w'"
    using assms(1-3) np by (auto elim!: worker_stepE simp: worker_wf_def dest: cache_wf_record [OF assms(3)] split: if_splits)
qed

lemma worker_processing:
  assumes "worker_step C Q we (p, w) (p', w')" and "qinv (p_Queue p)"
  shows "processing (p_Queue p) - set_option (held_by w) \<subseteq> processing (p_Queue p')"
    and "held_by w' = Some s \<Longrightarrow> held_by w = Some s \<or> s \<notin> processing (p_Queue p) \<and> s \<in> processing (p_Queue p')"
    and "held_by w' = Some s \<Longrightarrow> s \<in> processing (p_Queue p) \<Longrightarrow> s \<in> processing (p_Queue p')"
  using assms get [OF assms(2)] by (auto elim!: worker_stepE simp: add addAfter done' split: if_splits)

end

section \<open>Preservation\<close>

lemma distinct_map_filter:
  "(\<And>i j s. i < length xs \<Longrightarrow> j < length xs \<Longrightarrow> f (xs ! i) = Some s \<Longrightarrow> f (xs ! j) = Some s \<Longrightarrow> i = j)
     \<Longrightarrow> distinct (List.map_filter f xs)"
proof (induction xs)
  case (Cons x xs)
  have "distinct (List.map_filter f xs)"
    by (rule Cons.IH) (use Cons.prems [of "Suc _" "Suc _"] in auto)
  moreover have "s \<notin> set (List.map_filter f xs)" if x: "f x = Some s" for s
  proof
    assume "s \<in> set (List.map_filter f xs)"
    then obtain j where "j < length xs" "f (xs ! j) = Some s"
      by (auto simp: List.map_filter_def in_set_conv_nth)
    then show False using Cons.prems [of 0 "Suc j" s] x by simp
  qed
  ultimately show ?case by (auto split: option.split)
qed simp

lemma owed_update:
  "Some s \<in> owed_by ` set ws \<Longrightarrow> owed_by (ws ! i) = Some s \<or> Some s \<in> owed_by ` set (ws[i := w])"
  by (auto simp: in_set_conv_nth) (metis image_eqI nth_list_update_neq nth_mem length_list_update)

context process_libs
begin

lemma poll_preserves:
  assumes "poller_step C Q env (sys_proc S, sys_poller S) (p, po)" and "sys_inv C pending processing qinv okp S"
  shows "sys_inv C pending processing qinv okp (S\<lparr>sys_proc := p, sys_poller := po\<rparr>)"
proof -
  have inv: "qinv (p_Queue (sys_proc S))" "data_wf C S" "covered C pending S" "exclusive processing S"
    using assms(2) by (simp_all add: sys_inv_def)
  note q = poller_queue [OF assms(1) inv(1)]
  have "cache_wf C (p_Cache (sys_proc S))" "poller_wf (sys_poller S)" using inv(2) by (simp_all add: data_wf_def)
  note d = poller_data [OF assms(1) this]
  have found: "cached C (sys_proc S) (dto_SubAccountID r)" if "sys_poller S = Deciding r (Some item) rs v" for r item rs v
    using inv(3) that by (auto simp: covered_def)
  have still: "cached C p (dto_SubAccountID r)" if "po = Deciding r (Some item) rs v" for r item rs v
    using assms(1) that by (auto elim!: poller_stepE simp: cached_def split: if_splits) (metis)
  have "covered C pending (S\<lparr>sys_proc := p, sys_poller := po\<rparr>)"
    unfolding covered_def
  proof (intro conjI allI impI)
    fix s
    assume "cached C (sys_proc (S\<lparr>sys_proc := p, sys_poller := po\<rparr>)) s"
    then have "cached C (sys_proc S) s \<or> owed_by_poller po = Some s"
      using poller_cached [OF assms(1) _ found] by simp
    then show "s \<in> pending (p_Queue (sys_proc (S\<lparr>sys_proc := p, sys_poller := po\<rparr>))) \<or>
        Some s \<in> owed_by ` set (sys_workers (S\<lparr>sys_proc := p, sys_poller := po\<rparr>)) \<or>
        owed_by_poller (sys_poller (S\<lparr>sys_proc := p, sys_poller := po\<rparr>)) = Some s"
      using inv(3) q(2,4) by (auto simp: covered_def)
  qed (use still in auto)
  then show ?thesis
    using inv q(1,3) d assms(2) poller_provider [OF assms(1)] by (simp add: sys_inv_def data_wf_def exclusive_def)
qed

lemma work_covered:
  assumes "worker_step C Q we (sys_proc S, sys_workers S ! i) (p, w)" and "i < length (sys_workers S)"
    and "qinv (p_Queue (sys_proc S))" and "covered C pending S" and "worker_wf (sys_workers S ! i)" and "w \<noteq> Crashed"
  shows "covered C pending (S\<lparr>sys_proc := p, sys_workers := (sys_workers S)[i := w]\<rparr>)"
proof -
  note q = worker_queue [OF assms(1,3)] and c = worker_cached [OF assms(1,5)]
  have new: "Some s \<in> owed_by ` set ((sys_workers S)[i := w])" if "owed_by w = Some s" for s
    using that set_update_memI [OF assms(2), of w] by (metis imageI)
  have "s \<in> pending (p_Queue p) \<or> Some s \<in> owed_by ` set ((sys_workers S)[i := w]) \<or>
      owed_by_poller (sys_poller S) = Some s" if "cached C p s" for s
  proof (cases "cached C (sys_proc S) s")
    case True
    then consider "s \<in> pending (p_Queue (sys_proc S))" | "owed_by (sys_workers S ! i) = Some s"
      | "Some s \<in> owed_by ` set ((sys_workers S)[i := w])" | "owed_by_poller (sys_poller S) = Some s"
      using assms(4) owed_update [of s "sys_workers S" i w] by (auto simp: covered_def)
    then show ?thesis using q(2,3) [of s] new [of s] True assms(6) by cases auto
  next
    case False
    then show ?thesis using c(1) [OF that] new by blast
  qed
  then show ?thesis using assms(4) c(2) by (auto simp: covered_def)
qed

lemma work_exclusive:
  assumes "worker_step C Q we (sys_proc S, sys_workers S ! i) (p, w)" and "i < length (sys_workers S)"
    and "qinv (p_Queue (sys_proc S))" and "exclusive processing S"
  shows "exclusive processing (S\<lparr>sys_proc := p, sys_workers := (sys_workers S)[i := w]\<rparr>)"
proof -
  let ?ws = "sys_workers S" and ?P = "processing (p_Queue (sys_proc S))"
  note r = worker_processing [OF assms(1,3)]
  have ex: "s \<in> ?P" "\<And>k. k < length ?ws \<Longrightarrow> held_by (?ws ! k) = Some s \<Longrightarrow> k = j"
    if "j < length ?ws" "held_by (?ws ! j) = Some s" for j s
    using assms(4) that unfolding exclusive_def by blast+
  have other: "s \<in> processing (p_Queue p)" "held_by w \<noteq> Some s"
    if "j < length ?ws" "j \<noteq> i" "held_by (?ws ! j) = Some s" for j s
  proof -
    have "held_by (?ws ! i) \<noteq> Some s" using ex(2) [OF that(1,3), of i] that(2) assms(2) by auto
    then show "s \<in> processing (p_Queue p)" "held_by w \<noteq> Some s"
      using r(1) r(2) [of s] ex(1) [OF that(1,3)] by auto
  qed
  have own: "s \<in> processing (p_Queue p)" if "held_by w = Some s" for s
    using r(2,3) [OF that] ex(1) [OF assms(2), of s] by auto
  have held: "j = i \<and> held_by w = Some s \<or> j \<noteq> i \<and> held_by (?ws ! j) = Some s"
    if "held_by (?ws[i := w] ! j) = Some s" for j s
    using that assms(2) by (cases "j = i") simp_all
  show ?thesis
    unfolding exclusive_def
  proof (intro allI impI conjI)
    fix j s
    assume j: "j < length (sys_workers (S\<lparr>sys_proc := p, sys_workers := ?ws[i := w]\<rparr>))"
      "held_by (sys_workers (S\<lparr>sys_proc := p, sys_workers := ?ws[i := w]\<rparr>) ! j) = Some s"
    then show "s \<in> processing (p_Queue (sys_proc (S\<lparr>sys_proc := p, sys_workers := ?ws[i := w]\<rparr>)))"
      using held [of j s] other(1) [of j s] own by auto
    fix k
    assume "k < length (sys_workers (S\<lparr>sys_proc := p, sys_workers := ?ws[i := w]\<rparr>))"
      "held_by (sys_workers (S\<lparr>sys_proc := p, sys_workers := ?ws[i := w]\<rparr>) ! k) = Some s"
    then show "k = j"
      using j held [of j s] held [of k s] other(2) [of j s] other(2) [of k s] ex(2) [of j s k] by auto
  qed
qed

lemma work_preserves:
  assumes "worker_step C Q we (sys_proc S, sys_workers S ! i) (p, w)" and "i < length (sys_workers S)"
    and "sys_inv C pending processing qinv okp S" and "provider_safe we okp"
  shows "sys_inv C pending processing qinv okp (S\<lparr>sys_proc := p, sys_workers := (sys_workers S)[i := w]\<rparr>)"
proof -
  have inv: "qinv (p_Queue (sys_proc S))" "data_wf C S" "covered C pending S" "exclusive processing S"
    using assms(3) by (simp_all add: sys_inv_def)
  have wf: "worker_wf (sys_workers S ! i)" "cache_wf C (p_Cache (sys_proc S))"
    using inv(2) assms(2) by (simp_all add: data_wf_def list_all_length)
  have okp: "okp (p_KubeconfigProvider (sys_proc S))" using assms(3) by (simp add: sys_inv_def)
  note d = worker_data [OF assms(1) wf assms(4) okp]
  have "w \<noteq> Crashed" using d(2) by (auto simp: worker_wf_def)
  with work_covered [OF assms(1,2) inv(1,3) wf(1)] work_exclusive [OF assms(1,2) inv(1,4)] show ?thesis
    using inv(2) d worker_queue(1) [OF assms(1) inv(1)] assms(2)
    by (simp add: sys_inv_def data_wf_def list_all_length nth_list_update)
qed

lemma tick_preserves:
  assumes "sys_inv C pending processing qinv okp S"
  shows "sys_inv C pending processing qinv okp (S\<lparr>sys_proc := (sys_proc S)\<lparr>p_Queue := tick (p_Queue (sys_proc S))\<rparr>\<rparr>)"
  using assms tick [of "p_Queue (sys_proc S)"]
  by (simp add: sys_inv_def data_wf_def covered_def exclusive_def cached_def)

lemma step_preserves:
  assumes "system_step C Q tick E W S S'" and "sys_inv C pending processing qinv okp S"
    and "\<forall>we \<in> W. provider_safe we okp"
  shows "sys_inv C pending processing qinv okp S'"
  using assms by (auto elim!: system_stepE intro: poll_preserves work_preserves tick_preserves)

lemma start_inv:
  assumes "\<forall>s. ca_Get C (p_Cache p) s = None" and "qinv (p_Queue p)" and "okp (p_KubeconfigProvider p)"
  shows "sys_inv C pending processing qinv okp (system_start p)"
  using assms
  by (simp add: sys_inv_def system_start_def data_wf_def covered_def exclusive_def cached_def cache_wf_def
      item_wf_def poller_wf_def worker_wf_def list_all_iff)

lemma reachable_inv:
  assumes "reachable C Q tick E W p S"
    and "\<forall>s. ca_Get C (p_Cache p) s = None" and "qinv (p_Queue p)"
    and "\<forall>we \<in> W. provider_safe we okp" and "okp (p_KubeconfigProvider p)"
  shows "sys_inv C pending processing qinv okp S"
  using assms(1)
proof (induction rule: rtranclp_induct)
  case base
  show ?case using start_inv [OF assms(2,3), of okp] assms(5) by blast
next
  case (step S S')
  then show ?case using step_preserves assms(4) by blast
qed

end

text \<open>
  C6: however the poller and the workers interleave, no cached subaccount is ever lost: in every
  reachable state it is pending in the queue, or some goroutine is in the middle of an operation that
  will put it there or find it gone. This is what the poller relies on when it replaces a record
  without queueing it.
\<close>

theorem no_subaccount_lost:
  assumes "process_libs C Q tick pending processing qinv"
    and "reachable C Q tick E W p S"
    and "\<forall>s. ca_Get C (p_Cache p) s = None" and "qinv (p_Queue p)"
    and "\<forall>we \<in> W. provider_safe we okp" and "okp (p_KubeconfigProvider p)"
    and "ca_Get C (p_Cache (sys_proc S)) s \<noteq> None"
  shows "s \<in> pending (p_Queue (sys_proc S)) \<or> (\<exists>w \<in> set (sys_workers S). owed_by w = Some s) \<or>
         owed_by_poller (sys_poller S) = Some s"
  using process_libs.reachable_inv [OF assms(1-6)] assms(7)
  unfolding sys_inv_def covered_def cached_def by (metis imageE)

text \<open>
  C13: two workers never process the same subaccount at the same time.
\<close>

theorem workers_exclusive:
  assumes "process_libs C Q tick pending processing qinv"
    and "reachable C Q tick E W p S"
    and "\<forall>s. ca_Get C (p_Cache p) s = None" and "qinv (p_Queue p)"
    and "\<forall>we \<in> W. provider_safe we okp" and "okp (p_KubeconfigProvider p)"
  shows "distinct (List.map_filter held_by (sys_workers S))"
  using process_libs.reachable_inv [OF assms] unfolding sys_inv_def exclusive_def
  by (intro distinct_map_filter) blast

text \<open>
  No reachable state has a crashed worker or a malformed cache: every item a worker can meet is a
  record of the subaccount it is filed under, so the cast in \<open>processSubAccountID\<close> never fails and
  \<open>handleError\<close> is never called without a record.
\<close>

theorem no_worker_crashes:
  assumes "process_libs C Q tick pending processing qinv"
    and "reachable C Q tick E W p S"
    and "\<forall>s. ca_Get C (p_Cache p) s = None" and "qinv (p_Queue p)"
    and "\<forall>we \<in> W. provider_safe we okp" and "okp (p_KubeconfigProvider p)"
  shows "cache_wf C (p_Cache (sys_proc S)) \<and> Crashed \<notin> set (sys_workers S)"
  using process_libs.reachable_inv [OF assms]
  by (auto simp: sys_inv_def data_wf_def list_all_iff worker_wf_def)

section \<open>A sample run\<close>

text \<open>The poller adds the sample subaccount, and the first worker takes it.\<close>

definition sampleSystem :: "nat poller \<Rightarrow> nat worker list
    \<Rightarrow> (unit, unit, unit, (string, nat cache_item) gomap, ref_queue) Process
    \<Rightarrow> (unit, unit, unit, (string, nat cache_item) gomap, ref_queue, nat) system" where
  "sampleSystem po ws p = \<lparr>sys_proc = p, sys_poller = po, sys_workers = ws\<rparr>"

definition sampleTaken :: ref_queue where
  "sampleTaken = \<lparr>rq_queue = [], rq_dirty = [], rq_processing = [''s''], rq_waiting = [], rq_now = 0\<rparr>"

lemma sample_take: "qo_Get ref_queue_ops (p_Queue polledProcess) = Some (''s'', sampleTaken)"
  by (simp add: polledProcess_def ref_queue_ops_def rq_Get_def rq_Add_def sampleTaken_def)

lemma sample_decide:
  "decide alist_cache samplePollEnv sampleProcess sampleRuntime None =
     ([(''s'', RecordItem (newRecord sampleRuntime))], True)"
  using sample_tracked
  by (simp add: decide_def skipRuntime_def sampleProcess_def Let_def alist_cache_def)
    (simp add: sampleRuntime_def)

abbreviation sample_step where
  "sample_step \<equiv> system_step alist_cache ref_queue_ops rq_tick {samplePollEnv} {sampleWork}"

lemma sample_poll:
  assumes "poller_step alist_cache ref_queue_ops samplePollEnv (p, po) (p', po')"
  shows "sample_step (sampleSystem po ws p) (sampleSystem po' ws p')"
  using system_step.sys_poll [of samplePollEnv "{samplePollEnv}" alist_cache ref_queue_ops "sampleSystem po ws p" p' po' rq_tick "{sampleWork}"] assms
  by (simp add: sampleSystem_def)

lemma sample_run:
  "reachable alist_cache ref_queue_ops rq_tick {samplePollEnv} {sampleWork} sampleProcess
     (sampleSystem (Polling [] [(''s'', True)]) [Loading ''s'', Idle] (polledProcess\<lparr>p_Queue := sampleTaken\<rparr>))"
proof -
  let ?ws = "[Idle, Idle]" and ?v = "[(''s'', True)]"
  have start: "system_start sampleProcess = sampleSystem Resting ?ws sampleProcess"
    by (simp add: system_start_def sampleSystem_def sampleProcess_def numeral_2_eq_2)
  have 1: "sample_step (sampleSystem Resting ?ws sampleProcess) (sampleSystem (Polling [sampleRuntime] []) ?ws sampleProcess)"
    by (rule sample_poll) (rule poll_start)
  have 2: "sample_step (sampleSystem (Polling [sampleRuntime] []) ?ws sampleProcess)
      (sampleSystem (Deciding sampleRuntime None [] ?v) ?ws sampleProcess)"
    using poll_get [of sampleRuntime alist_cache ref_queue_ops samplePollEnv sampleProcess "[]" "[]"]
    by (intro sample_poll) (simp add: sampleRuntime_def sampleProcess_def alist_cache_def)
  have 3: "sample_step (sampleSystem (Deciding sampleRuntime None [] ?v) ?ws sampleProcess)
      (sampleSystem (Queueing ''s'' [] ?v) ?ws (sampleProcess\<lparr>p_Cache := [(''s'', RecordItem (newRecord sampleRuntime))]\<rparr>))"
    using poll_decide [OF sample_decide, of ref_queue_ops "[]" ?v]
    by (intro sample_poll) (simp add: sampleRuntime_def)
  have 4: "sample_step
      (sampleSystem (Queueing ''s'' [] ?v) ?ws (sampleProcess\<lparr>p_Cache := [(''s'', RecordItem (newRecord sampleRuntime))]\<rparr>))
      (sampleSystem (Polling [] ?v) ?ws polledProcess)"
    using poll_queue [of alist_cache ref_queue_ops samplePollEnv
        "sampleProcess\<lparr>p_Cache := [(''s'', RecordItem (newRecord sampleRuntime))]\<rparr>" "''s''" "[]" ?v]
    by (intro sample_poll) (simp add: polledProcess_def sampleProcess_def)
  have 5: "sample_step (sampleSystem (Polling [] ?v) ?ws polledProcess)
      (sampleSystem (Polling [] ?v) [Loading ''s'', Idle] (polledProcess\<lparr>p_Queue := sampleTaken\<rparr>))"
    using system_step.sys_work [of sampleWork "{sampleWork}" 0 "sampleSystem (Polling [] ?v) ?ws polledProcess" alist_cache
        ref_queue_ops "polledProcess\<lparr>p_Queue := sampleTaken\<rparr>" "Loading ''s''" rq_tick "{samplePollEnv}"]
      work_take [of ref_queue_ops polledProcess "''s''" sampleTaken alist_cache sampleWork, OF sample_take]
    by (simp add: sampleSystem_def)
  show ?thesis
    unfolding start using 1 2 3 4 5 by (meson converse_rtranclp_into_rtranclp rtranclp.rtrancl_refl)
qed

lemma sample_start:
  "\<forall>s. ca_Get alist_cache (p_Cache sampleProcess) s = None" "rq_inv (p_Queue sampleProcess)"
  "\<forall>we \<in> {sampleWork}. provider_safe we (\<lambda>_. True)" "(\<lambda>_. True) (p_KubeconfigProvider sampleProcess)"
  by (simp_all add: provider_safe_def sampleProcess_def alist_cache_def ref_queue_ops_def rq_inv_def sampleWork_def)

theorem no_subaccount_lost_witness:
  "let S = sampleSystem (Polling [] [(''s'', True)]) [Loading ''s'', Idle] (polledProcess\<lparr>p_Queue := sampleTaken\<rparr>)
   in ''s'' \<in> rq_pending (p_Queue (sys_proc S)) \<or> (\<exists>w \<in> set (sys_workers S). owed_by w = Some ''s'') \<or>
      owed_by_poller (sys_poller S) = Some ''s''"
  unfolding Let_def
  by (rule no_subaccount_lost [where okp = "\<lambda>_. True", OF ref_libs.process_libs_axioms sample_run sample_start(1-3) TrueI])
    (simp add: sampleSystem_def polledProcess_def alist_cache_def)

theorem workers_exclusive_witness:
  "let S = sampleSystem (Polling [] [(''s'', True)]) [Loading ''s'', Idle] (polledProcess\<lparr>p_Queue := sampleTaken\<rparr>)
   in distinct (List.map_filter held_by (sys_workers S))"
  unfolding Let_def by (rule workers_exclusive [where okp = "\<lambda>_. True", OF ref_libs.process_libs_axioms sample_run sample_start(1-3) TrueI])

theorem no_worker_crashes_witness: "cache_wf alist_cache (p_Cache polledProcess)"
  using no_worker_crashes [where okp = "\<lambda>_. True", OF ref_libs.process_libs_axioms sample_run sample_start(1-3) TrueI] by (simp add: sampleSystem_def)

section \<open>The sequential functions are runs\<close>

text \<open>
  The functions that translate the code one goroutine at a time, and the step relations above, agree:
  without interference the steps of a goroutine compose to the function.
\<close>

lemma populate_step_run:
  assumes "populate_step C Q env (p, v, calls) r = (p', v', calls')"
  shows "(poller_step C Q env)\<^sup>*\<^sup>* (p, Polling (r # rs) v) (p', Polling rs v')"
proof (cases "dto_SubAccountID r = ''''")
  case True
  then have "p' = p" "v' = v" using assms by (simp_all add: populate_step_def)
  then show ?thesis using poll_empty [OF True, of C Q env p rs v] by blast
next
  case False
  let ?s = "dto_SubAccountID r" and ?v = "AList.update (dto_SubAccountID r) True v"
  let ?item = "ca_Get C (p_Cache p) ?s"
  obtain c queue where d: "decide C env p r ?item = (c, queue)" by fastforce
  have v': "v' = ?v"
    using assms False by (auto simp: populate_step_def Let_def split: if_splits option.splits cache_item.splits sum.splits)
  have p': "p' = (if queue then p\<lparr>p_Cache := c, p_Queue := qo_Add Q (p_Queue p) ?s\<rparr> else p\<lparr>p_Cache := c\<rparr>)"
    using assms False d
    by (auto simp: populate_step_def decide_def tracked_def Let_def split: if_splits option.splits cache_item.splits sum.splits)
  have "(poller_step C Q env)\<^sup>*\<^sup>* (p, Polling (r # rs) v)
      (p\<lparr>p_Cache := c\<rparr>, if queue then Queueing ?s rs ?v else Polling rs ?v)"
    using poll_get [OF False, of C Q env p rs v] poll_decide [OF d, of Q rs ?v]
    by (meson converse_rtranclp_into_rtranclp r_into_rtranclp)
  moreover have "(poller_step C Q env)\<^sup>*\<^sup>*
      (p\<lparr>p_Cache := c\<rparr>, if queue then Queueing ?s rs ?v else Polling rs ?v) (p', Polling rs v')"
    using poll_queue [of C Q env "p\<lparr>p_Cache := c\<rparr>" ?s rs ?v] by (auto simp: p' v')
  ultimately show ?thesis by (rule rtranclp_trans)
qed

lemma populate_loop_run:
  "(poller_step C Q env)\<^sup>*\<^sup>* (p, Polling rs v)
     (fst (foldl (populate_step C Q env) (p, v, calls) rs),
      Polling [] (fst (snd (foldl (populate_step C Q env) (p, v, calls) rs))))"
proof (induction rs arbitrary: p v calls)
  case (Cons r rs)
  obtain p' v' calls' where st: "populate_step C Q env (p, v, calls) r = (p', v', calls')"
    by (metis prod_cases3)
  from populate_step_run [OF st, of rs] Cons.IH [of p' v' calls'] show ?case
    by (simp add: st)
qed simp

lemma cleanup_run:
  "(poller_step C Q env)\<^sup>*\<^sup>* (p, Sweeping es v) (fst (foldl (cleanup_step C env v) (p, calls) es), Sweeping [] v)"
proof (induction es arbitrary: p calls)
  case (Cons e es)
  obtain p' calls' where st: "cleanup_step C env v (p, calls) e = (p', calls')" by fastforce
  then have "p' = (if map_of v (fst e) = None then p\<lparr>p_Cache := ca_Delete C (p_Cache p) (fst e)\<rparr> else p)"
    by (cases e) (auto simp: cleanup_step_def Let_def split: if_splits)
  then have "poller_step C Q env (p, Sweeping (e # es) v) (p', Sweeping es v)"
    using poll_sweep [of C Q env p e es v] by simp
  with Cons.IH [of p' calls'] show ?case by (simp add: st)
qed simp

lemma process_run:
  assumes "processSubAccountID C Q we p s = (Finished requeue, p', effs)"
  shows "(worker_step C Q we)\<^sup>*\<^sup>* (p, Loading s) (p', Finishing s requeue)"
proof (cases "ca_Get C (p_Cache p) s")
  case None
  then show ?thesis
    using process_absent [OF None, of Q we] assms work_absent [OF None, of Q we] by auto
next
  case (Some item)
  then obtain r where r: "ca_Get C (p_Cache p) s = Some (RecordItem r)"
    using assms by (cases item) (auto simp: processSubAccountID_def handleError_def Let_def)
  have "(worker_step C Q we)\<^sup>*\<^sup>* (p, Working s r) (p', Finishing s requeue)"
  proof (cases "scan_cluster we (p_EDPCollector p) (p_KubeconfigProvider p) r")
    case (WorkFailed prov effs')
    with assms process_record [OF r, of Q we] work_failed [OF WorkFailed, of C Q s]
      work_retry [of C Q we "p\<lparr>p_KubeconfigProvider := prov\<rparr>" s]
    show ?thesis by auto
  next
    case (WorkDone prov scans effs')
    with assms process_record [OF r, of Q we] work_done [OF WorkDone, of C Q s]
      work_store [of C Q we "p\<lparr>p_KubeconfigProvider := prov\<rparr>" s "r\<lparr>rec_ScanMap := scans\<rparr>"]
    show ?thesis by auto
  qed (use assms process_record [OF r, of Q we] in simp)
  with work_load [OF r, of Q we] show ?thesis
    by (rule converse_rtranclp_into_rtranclp)
qed

lemma execute_round_run:
  assumes "execute_round C Q we p = Some (Finished requeue, p', effs)"
  shows "(worker_step C Q we)\<^sup>*\<^sup>* (p, Idle) (p', Idle)"
proof -
  from assms obtain s q where get: "qo_Get Q (p_Queue p) = Some (s, q)"
    by (auto simp: execute_round_def split: option.splits)
  obtain out p1 effs1 where run: "processSubAccountID C Q we (p\<lparr>p_Queue := q\<rparr>) s = (out, p1, effs1)"
    by (metis prod_cases3)
  with assms get have out: "out = Finished requeue" by (cases out) (auto simp: execute_round_def Let_def)
  let ?p2 = "p1\<lparr>p_Queue := qo_Done Q (p_Queue p1) s\<rparr>"
  have p': "p' = (if requeue then ?p2\<lparr>p_Queue := qo_AddAfter Q (p_Queue ?p2) s (p_ScrapeInterval ?p2)\<rparr> else ?p2)"
    using assms get run out by (auto simp: execute_round_def Let_def)
  have "worker_step C Q we (p, Idle) (p\<lparr>p_Queue := q\<rparr>, Loading s)" using get by (rule work_take)
  moreover have "(worker_step C Q we)\<^sup>*\<^sup>* (p\<lparr>p_Queue := q\<rparr>, Loading s) (p1, Finishing s requeue)"
    using run out process_run by blast
  moreover have "worker_step C Q we (p1, Finishing s requeue) (?p2, if requeue then Requeueing s else Idle)"
    by (rule work_finish)
  moreover have "(worker_step C Q we)\<^sup>*\<^sup>* (?p2, if requeue then Requeueing s else Idle) (p', Idle)"
    using work_requeue [of C Q we ?p2 s] by (auto simp: p')
  ultimately show ?thesis
    by (meson converse_rtranclp_into_rtranclp rtranclp.rtrancl_into_rtrancl rtranclp_trans)
qed

lemma populate_run:
  "(poller_step C Q env)\<^sup>*\<^sup>* (p, Resting) (fst (populateCacheAndQueue C Q env p page), Resting)"
proof -
  let ?calls = "[ResetVec kebFetchedClusters]"
  obtain p1 v1 calls1 where st: "foldl (populate_step C Q env) (p, [], ?calls) (pg_Data page) = (p1, v1, calls1)"
    by (metis prod_cases3)
  let ?p2 = "fst (foldl (cleanup_step C env v1) (p1, calls1) (ca_Items C (p_Cache p1)))"
  have "poller_step C Q env (p, Resting) (p, Polling (pg_Data page) [])" by (rule poll_start)
  moreover have "(poller_step C Q env)\<^sup>*\<^sup>* (p, Polling (pg_Data page) []) (p1, Polling [] v1)"
    using populate_loop_run [of C Q env p "pg_Data page" "[]" ?calls] st by simp
  moreover have "poller_step C Q env (p1, Polling [] v1) (p1, Sweeping (ca_Items C (p_Cache p1)) v1)" by (rule poll_snapshot)
  moreover note cleanup_run [of C Q env p1 "ca_Items C (p_Cache p1)" v1 calls1]
  moreover have "poller_step C Q env (?p2, Sweeping [] v1) (?p2, Resting)" by (rule poll_rest)
  ultimately show ?thesis
    by (simp add: populateCacheAndQueue_def st)
qed

lemma lift_poller_run:
  assumes "env \<in> E" and "(poller_step C Q env)\<^sup>*\<^sup>* (sys_proc S, sys_poller S) (p, po)"
  shows "(system_step C Q tick E W)\<^sup>*\<^sup>* S (S\<lparr>sys_proc := p, sys_poller := po\<rparr>)"
  using assms(2)
proof (induction "(p, po)" arbitrary: p po rule: rtranclp_induct)
  case base
  then show ?case by simp
next
  case (step y)
  obtain p' po' where y: "y = (p', po')" by fastforce
  let ?S = "S\<lparr>sys_proc := p', sys_poller := po'\<rparr>"
  have "system_step C Q tick E W ?S (?S\<lparr>sys_proc := p, sys_poller := po\<rparr>)"
    by (rule sys_poll [OF assms(1)]) (use step.hyps(2) y in simp)
  with step.hyps(3) [OF y] show ?case by simp
qed


section \<open>The stored scans\<close>

text \<open>
  A property of scan maps that holds of the empty map and of every map a successful collection returns
  holds of every stored map.
\<close>

definition scans_ok :: "('s ScanMap \<Rightarrow> bool) \<Rightarrow> ('c, 's cache_item) cache_ops
    \<Rightarrow> ('coll, 'prov, 'log, 'c, 'q, 's) system \<Rightarrow> bool" where
  "scans_ok P C S \<longleftrightarrow>
     (\<forall>s r. ca_Get C (p_Cache (sys_proc S)) s = Some (RecordItem r) \<longrightarrow> P (rec_ScanMap r)) \<and>
     (\<forall>s r. Working s r \<in> set (sys_workers S) \<or> Storing s r \<in> set (sys_workers S) \<longrightarrow> P (rec_ScanMap r))"

lemma scan_cluster_scans:
  assumes "scan_cluster we coll prov r = WorkDone prov' scans effs"
  shows "\<exists>cl effs'. we_collect we coll (runtimeInfo r) cl (rec_ScanMap r) = (scans, None, effs')"
  using assms by (auto simp: scan_cluster_def split: option.splits prod.splits)

context process_libs
begin

lemma poller_scans:
  assumes "poller_step C Q env (p, po) (p', po')" and "P []"
    and "\<And>s r. ca_Get C (p_Cache p) s = Some (RecordItem r) \<Longrightarrow> P (rec_ScanMap r)"
    and "ca_Get C (p_Cache p') s = Some (RecordItem r)"
  shows "P (rec_ScanMap r)"
  using assms
proof cases
  case (poll_decide rt item c queue rs v)
  have "ca_Get C c s = Some (RecordItem r)" using poll_decide assms(4) by simp
  then have "ca_Get C (p_Cache p) s = Some (RecordItem r) \<or> r = newRecord rt"
    using \<open>decide C env p rt item = (c, queue)\<close>
    by (auto simp: decide_def Let_def get_set get_delete dest!: get_add
        split: if_splits option.splits cache_item.splits sum.splits)
  then show ?thesis using assms(2,3) by auto
qed (auto simp: get_delete split: if_splits)

lemma worker_scans:
  assumes "worker_step C Q we (p, w) (p', w')"
    and "\<And>coll info cl prev scans effs. P prev \<Longrightarrow> we_collect we coll info cl prev = (scans, None, effs) \<Longrightarrow> P scans"
    and "\<And>s r. ca_Get C (p_Cache p) s = Some (RecordItem r) \<Longrightarrow> P (rec_ScanMap r)"
    and "\<And>s r. w = Working s r \<or> w = Storing s r \<Longrightarrow> P (rec_ScanMap r)"
  shows "ca_Get C (p_Cache p') s = Some (RecordItem r) \<Longrightarrow> P (rec_ScanMap r)"
    and "w' = Working s r \<or> w' = Storing s r \<Longrightarrow> P (rec_ScanMap r)"
proof -
  have new: "P scans" if "w = Working s r" "scan_cluster we coll prov r = WorkDone prov' scans effs"
    for s r coll prov prov' scans effs
    using scan_cluster_scans [OF that(2)] assms(2,4) that(1) by blast
  show "ca_Get C (p_Cache p') s = Some (RecordItem r) \<Longrightarrow> P (rec_ScanMap r)"
    using assms(1,3,4) by (auto elim!: worker_stepE simp: get_set split: if_splits)
  show "w' = Working s r \<or> w' = Storing s r \<Longrightarrow> P (rec_ScanMap r)"
    using assms(1,3) new by (auto elim!: worker_stepE split: if_splits)
qed

lemma reachable_scans:
  assumes "reachable C Q tick E W p S" and "\<forall>s. ca_Get C (p_Cache p) s = None" and "P []"
    and "\<And>we coll info cl prev scans effs. we \<in> W \<Longrightarrow> P prev \<Longrightarrow> we_collect we coll info cl prev = (scans, None, effs) \<Longrightarrow> P scans"
  shows "scans_ok P C S"
  using assms(1)
proof (induction rule: rtranclp_induct)
  case base
  show ?case using assms(2) by (auto simp: scans_ok_def system_start_def)
next
  case (step S S')
  have get: "P (rec_ScanMap r)" if "ca_Get C (p_Cache (sys_proc S)) s = Some (RecordItem r)" for s r
    using step.IH that unfolding scans_ok_def by blast
  have working: "P (rec_ScanMap r)" if "Working s r \<in> set (sys_workers S) \<or> Storing s r \<in> set (sys_workers S)" for s r
    using step.IH that unfolding scans_ok_def by blast
  from step.hyps(2) show ?case
  proof cases
    case (sys_poll env p' po')
    then show ?thesis
      using poller_scans [OF sys_poll(3), of P] assms(3) get working by (auto simp: scans_ok_def)
  next
    case (sys_work we i p' w')
    have own: "P (rec_ScanMap r)" if "sys_workers S ! i = Working s r \<or> sys_workers S ! i = Storing s r" for s r
      using working [of s r] that sys_work(3) by (metis nth_mem)
    have w1: "P (rec_ScanMap r)" if "ca_Get C (p_Cache p') s = Some (RecordItem r)" for s r
      by (rule worker_scans(1) [where P = P, OF sys_work(4) _ _ _ that]) (use assms(4) [OF sys_work(2)] get own in blast)+
    have w2: "P (rec_ScanMap r)" if "w' = Working s r \<or> w' = Storing s r" for s r
      by (rule worker_scans(2) [where P = P, OF sys_work(4) _ _ _ that]) (use assms(4) [OF sys_work(2)] get own in blast)+
    have "P (rec_ScanMap r)"
      if "Working s r \<in> set ((sys_workers S)[i := w']) \<or> Storing s r \<in> set ((sys_workers S)[i := w'])" for s r
      using that w2 [of s r] working [of s r] set_update_subset_insert [of "sys_workers S" i w'] by blast
    then show ?thesis using w1 sys_work(1) by (auto simp: scans_ok_def)
  next
    case sys_tick
    then show ?thesis using step.IH by (simp add: scans_ok_def)
  qed
qed

end

end
