(* ===== verification/Liveness.thy ===== *)
theory Liveness
  imports Concurrency
begin

text \<open>
  Progress of the poller and the workers over a fair queue: from every reachable state every cached subaccount can
  be brought to a worker.
\<close>

section \<open>The order of the queue\<close>

locale fair_libs = process_libs C Q tick pending processing qinv + fair_queue Q tick pending processing qinv ready
  for C :: "('c, 's cache_item) cache_ops" and Q :: "'q queue_ops" and tick pending processing qinv ready
begin

lemma poller_ready:
  assumes "poller_step C Q env (p, po) (p', po')" and "qinv (p_Queue p)"
  shows "\<exists>zs. ready (p_Queue p') = ready (p_Queue p) @ zs"
  using assms ready_add by (auto elim!: poller_stepE split: if_splits)

lemma worker_ready:
  assumes "worker_step C Q we (p, w) (p', w')" and "qinv (p_Queue p)"
  shows "(\<exists>y. w = Idle \<and> w' = Loading y \<and> ready (p_Queue p) = y # ready (p_Queue p')) \<or>
         (\<exists>zs. ready (p_Queue p') = ready (p_Queue p) @ zs)"
  using assms ready_get ready_addAfter ready_done by (auto elim!: worker_stepE split: if_splits)

end

interpretation ref_fair_libs: fair_libs alist_cache ref_queue_ops rq_tick rq_pending
  "\<lambda>q. set (rq_processing q)" rq_inv rq_queue
  by unfold_locales

section \<open>Every cached subaccount can be brought to a worker\<close>

text \<open>The keys the queue counts as being processed are held by workers.\<close>

definition held_inv :: "('q \<Rightarrow> string set) \<Rightarrow> ('coll, 'prov, 'log, 'c, 'q, 's) system \<Rightarrow> bool" where
  "held_inv processing S \<longleftrightarrow>
     (\<forall>s \<in> processing (p_Queue (sys_proc S)). Some s \<in> held_by ` set (sys_workers S))"

text \<open>How many steps a worker is away from being idle, at most.\<close>

fun stage :: "'s worker \<Rightarrow> nat" where
  "stage Idle = 0"
| "stage (Requeueing s) = 1"
| "stage (Finishing s requeue) = 2"
| "stage (Failing s) = 3"
| "stage (Storing s r) = 3"
| "stage (Working s r) = 4"
| "stage (Loading s) = 5"
| "stage Crashed = 0"

lemma held_update:
  "Some s \<in> held_by ` set ws \<Longrightarrow> held_by (ws ! i) \<noteq> Some s \<Longrightarrow> Some s \<in> held_by ` set (ws[i := w])"
  by (auto simp: in_set_conv_nth) (metis image_eqI nth_list_update_neq nth_mem length_list_update)

context fair_libs
begin

lemma worker_processing_back:
  assumes "worker_step C Q we (p, w) (p', w')" and "qinv (p_Queue p)" and "w' \<noteq> Crashed"
    and "s \<in> processing (p_Queue p')"
  shows "held_by w' = Some s \<or> s \<in> processing (p_Queue p) \<and> held_by w \<noteq> Some s"
  using assms get [OF assms(2)] by (auto elim!: worker_stepE simp: addAfter done' split: if_splits)

lemma step_held:
  assumes "system_step C Q tick E W S S'" and "sys_inv C pending processing qinv okp S" and "\<forall>we \<in> W. provider_safe we okp"
    and "held_inv processing S"
  shows "held_inv processing S'"
  using assms(1)
proof cases
  case (sys_poll env p po)
  then show ?thesis
    using assms(2,4) poller_queue(3) [OF sys_poll(3)] by (auto simp: held_inv_def sys_inv_def)
next
  case (sys_work we i p w)
  have q: "qinv (p_Queue (sys_proc S))" using assms(2) by (simp add: sys_inv_def)
  have "sys_inv C pending processing qinv okp S'" using step_preserves [OF assms(1,2,3)] .
  then have "w \<noteq> Crashed"
    using sys_work(1,3) set_update_memI [OF sys_work(3), of w] by (auto simp: sys_inv_def data_wf_def list_all_iff worker_wf_def)
  note held = worker_processing_back [OF sys_work(4) q this]
  have "Some s \<in> held_by ` set ((sys_workers S)[i := w])" if "s \<in> processing (p_Queue p)" for s
    using held [OF that] held_update [of s "sys_workers S" i w] set_update_memI [OF sys_work(3), of w] assms(4)
    by (metis (mono_tags, lifting) held_inv_def imageI)
  then show ?thesis using sys_work(1) by (simp add: held_inv_def)
next
  case sys_tick
  then show ?thesis using assms(2,4) tick by (auto simp: held_inv_def sys_inv_def)
qed

text \<open>A worker that is not idle has a next step, which brings it closer to being idle.\<close>

lemma worker_next:
  assumes "worker_wf w" and "cache_wf C (p_Cache p)" and "provider_safe we okp" and "okp (p_KubeconfigProvider p)"
    and "w \<noteq> Idle"
  shows "\<exists>p' w'. worker_step C Q we (p, w) (p', w') \<and> stage w' < stage w"
proof (cases w)
  case (Loading s)
  then show ?thesis
    using work_absent [of C p s Q we] work_load [of C p s _ Q we] cache_wf_record [OF assms(2), of s]
    by (cases "ca_Get C (p_Cache p) s") fastforce+
next
  case (Working s r)
  then show ?thesis
    using scan_cluster_provider [OF assms(3,4), of "p_EDPCollector p" r] work_failed [of we p r _ _ C Q s]
      work_done [of we p r _ _ _ C Q s]
    by (cases "scan_cluster we (p_EDPCollector p) (p_KubeconfigProvider p) r") fastforce+
next
  case (Failing s)
  then show ?thesis using work_retry [of C Q we p s] by fastforce
next
  case (Storing s r)
  then show ?thesis using work_store [of C Q we p s r] by fastforce
next
  case (Finishing s requeue)
  then show ?thesis using work_finish [of C Q we p s requeue] by (cases requeue) fastforce+
next
  case (Requeueing s)
  then show ?thesis using work_requeue [of C Q we p s] by fastforce
qed (use assms in \<open>simp_all add: worker_wf_def\<close>)

lemma worker_completes:
  assumes "sys_inv C pending processing qinv okp S" and "\<forall>we \<in> W. provider_safe we okp" and "wenv \<in> W" and "i < length (sys_workers S)"
  shows "\<exists>S' zs. (system_step C Q tick E W)\<^sup>*\<^sup>* S S' \<and> sys_inv C pending processing qinv okp S' \<and>
           length (sys_workers S') = length (sys_workers S) \<and> sys_workers S' ! i = Idle \<and>
           ready (p_Queue (sys_proc S')) = ready (p_Queue (sys_proc S)) @ zs"
  using assms(1,4)
proof (induction "stage (sys_workers S ! i)" arbitrary: S rule: less_induct)
  case less
  let ?w = "sys_workers S ! i"
  show ?case
  proof (cases "?w = Idle")
    case True
    then show ?thesis using less.prems(1) by (intro exI [of _ S] exI [of _ "[]"]) simp
  next
    case False
    have inv: "worker_wf ?w" "cache_wf C (p_Cache (sys_proc S))" "okp (p_KubeconfigProvider (sys_proc S))"
      "qinv (p_Queue (sys_proc S))"
      using less.prems by (simp_all add: sys_inv_def data_wf_def list_all_length)
    then obtain p w where st: "worker_step C Q wenv (sys_proc S, ?w) (p, w)" "stage w < stage ?w"
      using worker_next [OF inv(1,2) bspec [OF assms(2,3)] inv(3) False] by blast
    let ?S = "S\<lparr>sys_proc := p, sys_workers := (sys_workers S)[i := w]\<rparr>"
    have step: "system_step C Q tick E W S ?S" using assms(3) less.prems(2) st(1) by (rule sys_work)
    obtain zs where zs: "ready (p_Queue p) = ready (p_Queue (sys_proc S)) @ zs"
      using worker_ready [OF st(1) inv(4)] False by blast
    obtain S' zs' where run: "(system_step C Q tick E W)\<^sup>*\<^sup>* ?S S'" "sys_inv C pending processing qinv okp S'"
      "length (sys_workers S') = length (sys_workers S)" "sys_workers S' ! i = Idle"
      "ready (p_Queue (sys_proc S')) = ready (p_Queue p) @ zs'"
      using less.hyps [of ?S] less.prems(2) st(2) step_preserves [OF step less.prems(1) assms(2)] by auto
    then show ?thesis
      using converse_rtranclp_into_rtranclp [OF step run(1)] zs
      by (intro exI [of _ S'] exI [of _ "zs @ zs'"]) simp
  qed
qed

text \<open>One worker is enough to work off the queue up to a ready subaccount.\<close>

lemma head_taken:
  assumes "sys_inv C pending processing qinv okp S" and "\<forall>we \<in> W. provider_safe we okp" and "wenv \<in> W" and "0 < length (sys_workers S)"
    and "ready (p_Queue (sys_proc S)) = x # xs"
  shows "\<exists>S' zs. (system_step C Q tick E W)\<^sup>*\<^sup>* S S' \<and> sys_inv C pending processing qinv okp S' \<and>
           length (sys_workers S') = length (sys_workers S) \<and> Loading x \<in> set (sys_workers S') \<and>
           ready (p_Queue (sys_proc S')) = xs @ zs"
proof -
  obtain S1 zs where S1: "(system_step C Q tick E W)\<^sup>*\<^sup>* S S1" "sys_inv C pending processing qinv okp S1"
    "length (sys_workers S1) = length (sys_workers S)" "sys_workers S1 ! 0 = Idle"
    "ready (p_Queue (sys_proc S1)) = x # xs @ zs"
    using worker_completes [OF assms(1-4), of E] assms(5) by auto
  have q: "qinv (p_Queue (sys_proc S1))" using S1(2) by (simp add: sys_inv_def)
  obtain y q' where taken: "qo_Get Q (p_Queue (sys_proc S1)) = Some (y, q')"
    using ready_some [OF q] S1(5) by auto
  have y: "y = x" "ready q' = xs @ zs" using ready_get [OF q taken] S1(5) by simp_all
  let ?S = "S1\<lparr>sys_proc := (sys_proc S1)\<lparr>p_Queue := q'\<rparr>, sys_workers := (sys_workers S1)[0 := Loading y]\<rparr>"
  have step: "system_step C Q tick E W S1 ?S"
    using assms(4) S1(3,4) work_take [OF taken, of C wenv] by (intro sys_work [OF assms(3)]) simp_all
  have "Loading x \<in> set (sys_workers ?S)"
    using set_update_memI [of 0 "sys_workers S1"] assms(4) S1(3) y(1) by simp
  then show ?thesis
    using rtranclp.rtrancl_into_rtrancl [OF S1(1) step] step_preserves [OF step S1(2) assms(2)] S1(3) y(2)
    by (intro exI [of _ ?S] exI [of _ zs]) simp
qed

lemma ready_taken:
  assumes "\<forall>we \<in> W. provider_safe we okp" and "wenv \<in> W"
  shows "sys_inv C pending processing qinv okp S \<Longrightarrow> 0 < length (sys_workers S) \<Longrightarrow>
     ready (p_Queue (sys_proc S)) = xs @ s # ys \<Longrightarrow>
     \<exists>S'. (system_step C Q tick E W)\<^sup>*\<^sup>* S S' \<and> Loading s \<in> set (sys_workers S')"
proof (induction xs arbitrary: S ys)
  case Nil
  then show ?case using head_taken [OF Nil(1) assms Nil(2), of s ys E] by auto
next
  case (Cons x xs)
  obtain S1 zs where S1: "(system_step C Q tick E W)\<^sup>*\<^sup>* S S1" "sys_inv C pending processing qinv okp S1"
    "length (sys_workers S1) = length (sys_workers S)" "ready (p_Queue (sys_proc S1)) = xs @ s # ys @ zs"
    using head_taken [OF Cons.prems(1) assms Cons.prems(2), of x "xs @ s # ys" E] Cons.prems(3) by auto
  with Cons.IH [of S1 "ys @ zs"] Cons.prems(2) show ?case by (metis rtranclp_trans)
qed

lemma ticks_run:
  "sys_inv C pending processing qinv okp S \<Longrightarrow>
     (system_step C Q tick E W)\<^sup>*\<^sup>* S (S\<lparr>sys_proc := (sys_proc S)\<lparr>p_Queue := (tick ^^ n) (p_Queue (sys_proc S))\<rparr>\<rparr>) \<and>
     sys_inv C pending processing qinv okp (S\<lparr>sys_proc := (sys_proc S)\<lparr>p_Queue := (tick ^^ n) (p_Queue (sys_proc S))\<rparr>\<rparr>)"
proof (induction n)
  case (Suc n)
  let ?S = "S\<lparr>sys_proc := (sys_proc S)\<lparr>p_Queue := (tick ^^ n) (p_Queue (sys_proc S))\<rparr>\<rparr>"
  have "system_step C Q tick E W ?S (?S\<lparr>sys_proc := (sys_proc ?S)\<lparr>p_Queue := tick (p_Queue (sys_proc ?S))\<rparr>\<rparr>)"
    by (rule sys_tick)
  with tick_preserves [of okp ?S] Suc show ?case by (auto intro: rtranclp.rtrancl_into_rtrancl)
qed simp

lemma pending_taken:
  assumes "sys_inv C pending processing qinv okp S" and "\<forall>we \<in> W. provider_safe we okp" and "wenv \<in> W" and "0 < length (sys_workers S)"
    and "held_inv processing S" and "s \<in> pending (p_Queue (sys_proc S))"
  shows "\<exists>S'. (system_step C Q tick E W)\<^sup>*\<^sup>* S S' \<and> Some s \<in> held_by ` set (sys_workers S')"
proof (cases "s \<in> processing (p_Queue (sys_proc S))")
  case True
  then show ?thesis using assms(5) by (auto simp: held_inv_def)
next
  case False
  have "qinv (p_Queue (sys_proc S))" using assms(1) by (simp add: sys_inv_def)
  then obtain n where n: "s \<in> set (ready ((tick ^^ n) (p_Queue (sys_proc S))))"
    using ready_eventually assms(6) False by blast
  let ?S = "S\<lparr>sys_proc := (sys_proc S)\<lparr>p_Queue := (tick ^^ n) (p_Queue (sys_proc S))\<rparr>\<rparr>"
  obtain xs ys where "ready (p_Queue (sys_proc ?S)) = xs @ s # ys" using n by (auto dest: split_list)
  moreover note ticks = ticks_run [OF assms(1), of E W n]
  ultimately obtain S' where "(system_step C Q tick E W)\<^sup>*\<^sup>* ?S S'" "Loading s \<in> set (sys_workers S')"
    using ready_taken [OF assms(2,3) conjunct2 [OF ticks], of xs s ys E] assms(4) by auto
  moreover have "(system_step C Q tick E W)\<^sup>*\<^sup>* S ?S" using ticks by blast
  ultimately have "(system_step C Q tick E W)\<^sup>*\<^sup>* S S'" "Loading s \<in> set (sys_workers S')" by (auto intro: rtranclp_trans)
  then show ?thesis by (metis held_by.simps(1) imageI)
qed

lemma reachable_held:
  assumes "reachable C Q tick E W p S" and "\<forall>s. ca_Get C (p_Cache p) s = None" and "qinv (p_Queue p)"
    and "\<forall>we \<in> W. provider_safe we okp" and "okp (p_KubeconfigProvider p)" and "processing (p_Queue p) = {}"
  shows "held_inv processing S \<and> length (sys_workers S) = nat (sint (p_WorkersPoolSize p))"
  using assms(1)
proof (induction rule: rtranclp_induct)
  case base
  show ?case using assms(6) by (simp add: held_inv_def system_start_def)
next
  case (step S S')
  then show ?case
    using step_held [OF step.hyps(2) reachable_inv [OF step.hyps(1) assms(2-5)] assms(4)]
    by (auto elim!: system_stepE)
qed

lemma cached_taken:
  assumes inv: "sys_inv C pending processing qinv okp S" and safe: "\<forall>we \<in> W. provider_safe we okp"
    and world: "wenv \<in> W" and penv: "env \<in> E"
    and ws: "0 < length (sys_workers S)" and held: "held_inv processing S" and c: "cached C (sys_proc S) s"
  shows "\<exists>S'. (system_step C Q tick E W)\<^sup>*\<^sup>* S S' \<and> Some s \<in> held_by ` set (sys_workers S')"
proof -
  have via: ?thesis
    if step: "system_step C Q tick E W S S1" and "length (sys_workers S1) = length (sys_workers S)"
      and "s \<in> pending (p_Queue (sys_proc S1))" for S1
    using pending_taken [OF step_preserves [OF step inv safe] safe world _ step_held [OF step inv safe held]] that ws
    by (metis converse_rtranclp_into_rtranclp)
  have q: "qinv (p_Queue (sys_proc S))" using inv by (simp add: sys_inv_def)
  from inv c consider "s \<in> pending (p_Queue (sys_proc S))" | "Some s \<in> owed_by ` set (sys_workers S)"
    | "owed_by_poller (sys_poller S) = Some s"
    unfolding sys_inv_def covered_def by blast
  then show ?thesis
  proof cases
    case 1
    then show ?thesis using pending_taken [OF inv safe world ws held] by blast
  next
    case 2
    then obtain i where i: "i < length (sys_workers S)" "owed_by (sys_workers S ! i) = Some s"
      by (auto simp: in_set_conv_nth)
    show ?thesis
    proof (cases "held_by (sys_workers S ! i) = Some s")
      case True
      then show ?thesis using i(1) by (metis imageI nth_mem rtranclp.rtrancl_refl)
    next
      case False
      then have "sys_workers S ! i = Requeueing s"
        using i(2) by (cases "sys_workers S ! i") (auto split: if_splits)
      then have "worker_step C Q wenv (sys_proc S, sys_workers S ! i)
          ((sys_proc S)\<lparr>p_Queue := qo_AddAfter Q (p_Queue (sys_proc S)) s (p_ScrapeInterval (sys_proc S))\<rparr>, Idle)"
        using work_requeue [of C Q wenv "sys_proc S" s] by simp
      from via [OF sys_work [OF world i(1) this]] show ?thesis using addAfter [OF q] by simp
    qed
  next
    case 3
    then obtain rs v where "sys_poller S = Queueing s rs v" by (cases "sys_poller S") auto
    then have "poller_step C Q env (sys_proc S, sys_poller S)
        ((sys_proc S)\<lparr>p_Queue := qo_Add Q (p_Queue (sys_proc S)) s\<rparr>, Polling rs v)"
      using poll_queue [of C Q env "sys_proc S" s rs v] by simp
    from via [OF sys_poll [OF penv this]] show ?thesis using add [OF q] by simp
  qed
qed

end

text \<open>
  Nothing can block a cached subaccount for good: with at least one worker, from every reachable
  state the system can go on to a state in which a worker is processing it.
\<close>

theorem subaccount_processable:
  assumes "fair_libs C Q tick pending processing qinv ready"
    and "reachable C Q tick E W p S"
    and "\<forall>s. ca_Get C (p_Cache p) s = None" and "qinv (p_Queue p)"
    and "\<forall>we \<in> W. provider_safe we okp" and "okp (p_KubeconfigProvider p)"
    and "processing (p_Queue p) = {}" and "0 < sint (p_WorkersPoolSize p)"
    and "ca_Get C (p_Cache (sys_proc S)) s \<noteq> None" and "wenv \<in> W" and "env \<in> E"
  shows "\<exists>S'. (system_step C Q tick E W)\<^sup>*\<^sup>* S S' \<and> Some s \<in> held_by ` set (sys_workers S')"
proof -
  have libs: "process_libs C Q tick pending processing qinv" using assms(1) fair_libs.axioms(1) by blast
  note h = fair_libs.reachable_held [OF assms(1-7)]
  show ?thesis
    by (rule fair_libs.cached_taken [OF assms(1) process_libs.reachable_inv [OF libs assms(2-6)] assms(5) assms(10,11)])
      (use h assms(8,9) in \<open>simp_all add: cached_def\<close>)
qed

section \<open>Witnesses\<close>

theorem subaccount_processable_witness:
  "\<exists>S'. (system_step alist_cache ref_queue_ops rq_tick {samplePollEnv} {sampleWork})\<^sup>*\<^sup>*
      (sampleSystem (Polling [] [(''s'', True)]) [Loading ''s'', Idle] (polledProcess\<lparr>p_Queue := sampleTaken\<rparr>)) S' \<and>
    Some ''s'' \<in> held_by ` set (sys_workers S')"
  by (rule subaccount_processable [where okp = "\<lambda>_. True" and wenv = sampleWork and env = samplePollEnv,
        OF ref_fair_libs.fair_libs_axioms sample_run sample_start(1-3) TrueI])
    (simp_all add: sampleSystem_def polledProcess_def alist_cache_def sampleProcess_def ref_queue_ops_def)

end
