(* ===== verification/Fairness.thy ===== *)
theory Fairness
  imports Liveness
begin

text \<open>
  Liveness under fair scheduling: infinite runs in which no goroutine that can go on is passed over for
  ever, and time goes on. In such a run every cached subaccount is scanned again and again, until a poll
  removes it.
\<close>

section \<open>Fair runs\<close>

datatype actor = Poller | Worker nat | Clock

fun actor_step ::
  "('c, 's cache_item) cache_ops \<Rightarrow> 'q queue_ops \<Rightarrow> ('q \<Rightarrow> 'q) \<Rightarrow> poll_env set \<Rightarrow> ('prov, 'rc, 'cl, 'coll, 's) work_env set
   \<Rightarrow> actor \<Rightarrow> ('coll, 'prov, 'log, 'c, 'q, 's) system \<Rightarrow> ('coll, 'prov, 'log, 'c, 'q, 's) system \<Rightarrow> bool" where
  "actor_step C Q tick E W Poller S S' =
     (\<exists>env \<in> E. \<exists>p po. poller_step C Q env (sys_proc S, sys_poller S) (p, po) \<and> S' = S\<lparr>sys_proc := p, sys_poller := po\<rparr>)"
| "actor_step C Q tick E W (Worker i) S S' =
     (i < length (sys_workers S) \<and>
      (\<exists>we \<in> W. \<exists>p w. worker_step C Q we (sys_proc S, sys_workers S ! i) (p, w) \<and>
         S' = S\<lparr>sys_proc := p, sys_workers := (sys_workers S)[i := w]\<rparr>))"
| "actor_step C Q tick E W Clock S S' =
     (S' = S\<lparr>sys_proc := (sys_proc S)\<lparr>p_Queue := tick (p_Queue (sys_proc S))\<rparr>\<rparr>)"

lemma system_step_actor: "system_step C Q tick E W S S' \<longleftrightarrow> (\<exists>a. actor_step C Q tick E W a S S')"
proof
  assume "system_step C Q tick E W S S'"
  then show "\<exists>a. actor_step C Q tick E W a S S'"
  proof cases
    case (sys_poll env p po)
    then show ?thesis by (intro exI [of _ Poller]) auto
  next
    case (sys_work we i p w)
    then show ?thesis by (intro exI [of _ "Worker i"]) auto
  next
    case sys_tick
    then show ?thesis by (intro exI [of _ Clock]) simp
  qed
next
  assume "\<exists>a. actor_step C Q tick E W a S S'"
  then obtain a where "actor_step C Q tick E W a S S'" ..
  then show "system_step C Q tick E W S S'"
    by (cases a) (auto intro: sys_poll sys_work sys_tick)
qed

lemma worker_actorE:
  assumes "actor_step C Q tick E W (Worker i) S S'"
  obtains we p w where "i < length (sys_workers S)" "we \<in> W" "worker_step C Q we (sys_proc S, sys_workers S ! i) (p, w)"
    "S' = S\<lparr>sys_proc := p, sys_workers := (sys_workers S)[i := w]\<rparr>"
  using assms that unfolding actor_step.simps by blast

text \<open>
  A run is a sequence of states with the actor of each step. It is weakly fair: from any point on every
  actor moves, or is at some point unable to.
\<close>

definition fair_from ::
  "('c, 's cache_item) cache_ops \<Rightarrow> 'q queue_ops \<Rightarrow> ('q \<Rightarrow> 'q) \<Rightarrow> poll_env set \<Rightarrow> ('prov, 'rc, 'cl, 'coll, 's) work_env set
   \<Rightarrow> ('coll, 'prov, 'log, 'c, 'q, 's) system \<Rightarrow> (nat \<Rightarrow> ('coll, 'prov, 'log, 'c, 'q, 's) system) \<Rightarrow> (nat \<Rightarrow> actor) \<Rightarrow> bool" where
  "fair_from C Q tick E W S run acts \<longleftrightarrow>
     run 0 = S \<and> (\<forall>n. actor_step C Q tick E W (acts n) (run n) (run (Suc n))) \<and>
     (\<forall>a n. \<exists>m \<ge> n. acts m = a \<or> (\<nexists>S'. actor_step C Q tick E W a (run m) S'))"

lemma run_reachable: "fair_from C Q tick E W (system_start p) run acts \<Longrightarrow> reachable C Q tick E W p (run n)"
proof (induction n)
  case 0
  then show ?case by (simp add: fair_from_def)
next
  case (Suc n)
  then have "system_step C Q tick E W (run n) (run (Suc n))"
    unfolding system_step_actor fair_from_def by blast
  with Suc show ?case by (meson rtranclp.rtrancl_into_rtrancl)
qed

section \<open>Every state continues to a fair run\<close>

text \<open>The actors in turn; one that cannot move leaves its turn to the clock.\<close>

definition turn :: "nat \<Rightarrow> nat \<Rightarrow> actor" where
  "turn N n = (let k = n mod (N + 2) in if k < N then Worker k else if k = N then Poller else Clock)"

lemma turn_k: "k < N + 2 \<Longrightarrow> \<exists>m \<ge> n. turn N m = (if k < N then Worker k else if k = N then Poller else Clock)"
  using mod_mult_self2 [of k "N + 2" n] by (intro exI [of _ "k + (N + 2) * n"]) (simp add: turn_def Let_def trans_le_add2)

lemma turn_returns: "\<exists>m \<ge> n. turn N m = (case a of Worker i \<Rightarrow> if i < N then Worker i else Clock | _ \<Rightarrow> a)"
proof (cases a)
  case (Worker i)
  then show ?thesis using turn_k [of i N n] turn_k [of "N + 1" N n] by (cases "i < N") simp_all
qed (use turn_k [of N N n] turn_k [of "N + 1" N n] in simp_all)

lemma fair_from_exists:
  fixes S :: "('coll, 'prov, 'log, 'c, 'q, 's) system"
  shows "\<exists>run acts. fair_from C Q tick E W S run acts"
proof -
  let ?N = "length (sys_workers S)"
  let ?act = "\<lambda>n S. if \<exists>S'. actor_step C Q tick E W (turn ?N n) S S' then turn ?N n else Clock"
  define run where "run = rec_nat S (\<lambda>n S. SOME S'. actor_step C Q tick E W (?act n S) S S')"
  have "\<exists>S'. actor_step C Q tick E W (?act n S) S S'" for n and S :: "('coll, 'prov, 'log, 'c, 'q, 's) system"
    by auto
  then have step: "actor_step C Q tick E W (?act n (run n)) (run n) (run (Suc n))" for n
    unfolding run_def by (simp add: someI_ex)
  have len: "length (sys_workers (run n)) = ?N" for n
  proof (induction n)
    case (Suc n)
    then show ?case using step [of n] by (cases "?act n (run n)") auto
  qed (simp add: run_def)
  have "\<exists>m \<ge> n. ?act m (run m) = a \<or> (\<nexists>S'. actor_step C Q tick E W a (run m) S')" for a n
  proof -
    obtain m where "n \<le> m" "turn ?N m = (case a of Worker i \<Rightarrow> if i < ?N then Worker i else Clock | _ \<Rightarrow> a)"
      using turn_returns by blast
    then show ?thesis using len [of m] by (intro exI [of _ m]) (auto split: actor.splits if_splits)
  qed
  moreover have "run 0 = S" by (simp add: run_def)
  ultimately have "fair_from C Q tick E W S run (\<lambda>n. ?act n (run n))"
    using step unfolding fair_from_def by blast
  then show ?thesis by blast
qed

lemma fair_from_Cons:
  assumes "actor_step C Q tick E W a S (run 0)" and "fair_from C Q tick E W (run 0) run acts"
  shows "fair_from C Q tick E W S (case_nat S run) (case_nat a acts)"
proof -
  have "\<exists>m \<ge> n. case_nat a acts m = b \<or> (\<nexists>S'. actor_step C Q tick E W b (case_nat S run m) S')" for b n
  proof -
    obtain m where "n \<le> m" "acts m = b \<or> (\<nexists>S'. actor_step C Q tick E W b (run m) S')"
      using assms(2) unfolding fair_from_def by blast
    then show ?thesis by (intro exI [of _ "Suc m"]) simp
  qed
  moreover have "actor_step C Q tick E W (case_nat a acts n) (case_nat S run n) (case_nat S run (Suc n))" for n
    using assms unfolding fair_from_def by (cases n) simp_all
  ultimately show ?thesis unfolding fair_from_def by simp
qed

lemma fair_through:
  assumes "(system_step C Q tick E W)\<^sup>*\<^sup>* S S'"
  shows "\<exists>run acts k. fair_from C Q tick E W S run acts \<and> run k = S'"
  using assms
proof (induction rule: converse_rtranclp_induct)
  case base
  obtain run acts where "fair_from C Q tick E W S' run acts" using fair_from_exists by blast
  then show ?case by (intro exI [of _ run] exI [of _ acts] exI [of _ 0]) (simp add: fair_from_def)
next
  case (step S T)
  then obtain run acts k a where run: "fair_from C Q tick E W T run acts" "run k = S'" "actor_step C Q tick E W a S T"
    unfolding system_step_actor by blast
  then have "run 0 = T" by (simp add: fair_from_def)
  with fair_from_Cons [of C Q tick E W a S run acts] run show ?case
    by (intro exI [of _ "case_nat S run"] exI [of _ "case_nat a acts"] exI [of _ "Suc k"]) simp
qed

section \<open>Progress by a helpful actor\<close>

text \<open>
  While the goal is not reached, the claim \<open>P\<close> holds, the actor \<open>a\<close> can move, no step increases the
  measure and every step of \<open>a\<close> decreases it. Then the goal is reached.
\<close>

lemma helpful_actor:
  fixes f :: "nat \<Rightarrow> nat"
  assumes fair: "\<forall>n. \<exists>m \<ge> n. acts m = a \<or> \<not> en m"
    and en: "\<And>n. P n \<Longrightarrow> \<not> G n \<Longrightarrow> en n"
    and keep: "\<And>n. P n \<Longrightarrow> \<not> G n \<Longrightarrow> G (Suc n) \<or> P (Suc n) \<and> f (Suc n) \<le> f n"
    and dec: "\<And>n. P n \<Longrightarrow> \<not> G n \<Longrightarrow> acts n = a \<Longrightarrow> G (Suc n) \<or> f (Suc n) < f n"
    and "P n"
  shows "\<exists>m \<ge> n. G m"
  using \<open>P n\<close>
proof (induction "f n" arbitrary: n rule: less_induct)
  case less
  show ?case
  proof (rule ccontr)
    assume none: "\<not> (\<exists>m \<ge> n. G m)"
    have inv: "P m \<and> f m \<le> f n" if "n \<le> m" for m
      using that
    proof (induction m rule: dec_induct)
      case base
      show ?case using less.prems by simp
    next
      case (step m)
      then show ?case using keep [of m] none by fastforce
    qed
    obtain m where m: "n \<le> m" "acts m = a" using fair en inv none by blast
    then have "P (Suc m)" "f (Suc m) < f n" using dec [of m] inv [of m] inv [of "Suc m"] none by fastforce+
    then obtain k where "Suc m \<le> k" "G k" using less.hyps by blast
    with none m(1) show False by auto
  qed
qed

section \<open>Steps and one subaccount\<close>

locale timed_libs = fair_libs C Q tick pending processing qinv ready + timed_queue Q tick pending processing qinv ready due
  for C :: "('c, 's cache_item) cache_ops" and Q :: "'q queue_ops" and tick pending processing qinv ready due

interpretation ref_timed_libs: timed_libs alist_cache ref_queue_ops rq_tick rq_pending
  "\<lambda>q. set (rq_processing q)" rq_inv rq_queue rq_due
  by unfold_locales

definition unheld :: "string \<Rightarrow> ('coll, 'prov, 'log, 'c, 'q, 's) system \<Rightarrow> bool" where
  "unheld s S \<longleftrightarrow> Some s \<notin> held_by ` set (sys_workers S)"

definition taken :: "string \<Rightarrow> ('coll, 'prov, 'log, 'c, 'q, 's) system \<Rightarrow> bool" where
  "taken s S \<longleftrightarrow> Loading s \<in> set (sys_workers S)"

definition scans :: "string \<Rightarrow> ('coll, 'prov, 'log, 'c, 'q, 's) system \<Rightarrow> bool" where
  "scans s S \<longleftrightarrow> (\<exists>r. Working s r \<in> set (sys_workers S))"

lemma worker_hold: "worker_step C Q we (p, w) (p', w') \<Longrightarrow> held_by w' = Some s \<Longrightarrow> held_by w = Some s \<or> w' = Loading s"
  by (auto elim!: worker_stepE split: if_splits)

lemma worker_stage: "worker_step C Q we (p, w) (p', w') \<Longrightarrow> w \<noteq> Idle \<Longrightarrow> stage w' < stage w"
  by (auto elim!: worker_stepE)

lemma stage_bound: "stage w \<le> 5"
  by (cases w) simp_all

lemma taken_update [simp]: "i < length ws \<Longrightarrow> Loading s \<in> set (ws[i := Loading s])"
  by (rule set_update_memI)

lemma unheld_step:
  assumes "actor_step C Q tick E W a S S'" and "unheld s S"
  shows "unheld s S' \<or> taken s S'"
proof (cases a)
  case (Worker i)
  from assms(1) [unfolded Worker] obtain we p w where st: "i < length (sys_workers S)" "we \<in> W"
    "worker_step C Q we (sys_proc S, sys_workers S ! i) (p, w)"
    "S' = S\<lparr>sys_proc := p, sys_workers := (sys_workers S)[i := w]\<rparr>"
    by (rule worker_actorE)
  have "w = Loading s" if "held_by w = Some s"
    using worker_hold [OF st(3) that] assms(2) st(1) unfolding unheld_def by (metis imageI nth_mem)
  then show ?thesis
    using assms(2) st(1,4) set_update_subset_insert [of "sys_workers S" i w]
    by (fastforce simp: unheld_def taken_def)
qed (use assms in \<open>auto simp: unheld_def\<close>)

text \<open>The position of a ready key.\<close>

definition ahead :: "string \<Rightarrow> string list \<Rightarrow> nat" where
  "ahead s xs = length (takeWhile (\<lambda>x. x \<noteq> s) xs)"

lemma ahead_append [simp]: "s \<in> set xs \<Longrightarrow> ahead s (xs @ ys) = ahead s xs"
  unfolding ahead_def by (induction xs) auto

lemma ahead_Cons [simp]: "ahead s (x # xs) = (if x = s then 0 else Suc (ahead s xs))"
  by (simp add: ahead_def)

context timed_libs
begin

lemma worker_pending_kept:
  assumes "worker_step C Q we (p, w) (p', w')" and "qinv (p_Queue p)" and "s \<in> pending (p_Queue p)" and "w' \<noteq> Loading s"
  shows "s \<in> pending (p_Queue p') \<and> due (p_Queue p') s \<le> due (p_Queue p) s"
  using assms(1)
proof cases
  case (work_take x q)
  then have "x \<noteq> s" using assms(4) by auto
  then show ?thesis using get [OF assms(2)] due_get [OF assms(2,3)] work_take assms(3) by fastforce
qed (use assms(2,3) due_done [OF assms(2,3)] due_addAfter [OF assms(2,3)] in \<open>simp_all add: addAfter done'\<close>)

lemma poller_pending_kept:
  assumes "poller_step C Q env (p, po) (p', po')" and "qinv (p_Queue p)" and "s \<in> pending (p_Queue p)"
  shows "s \<in> pending (p_Queue p') \<and> due (p_Queue p') s \<le> due (p_Queue p) s"
  using assms due_add [OF assms(2,3)] by (auto elim!: poller_stepE simp: add split: if_splits)

lemma pending_step:
  assumes "actor_step C Q tick E W a S S'" and "qinv (p_Queue (sys_proc S))" and "s \<in> pending (p_Queue (sys_proc S))"
    and "\<not> taken s S'"
  shows "s \<in> pending (p_Queue (sys_proc S')) \<and> due (p_Queue (sys_proc S')) s \<le> due (p_Queue (sys_proc S)) s"
proof (cases a)
  case Poller
  then show ?thesis using assms(1) poller_pending_kept [OF _ assms(2,3)] by auto
next
  case (Worker i)
  from assms(1) [unfolded Worker] obtain we p w where st: "i < length (sys_workers S)" "we \<in> W"
    "worker_step C Q we (sys_proc S, sys_workers S ! i) (p, w)"
    "S' = S\<lparr>sys_proc := p, sys_workers := (sys_workers S)[i := w]\<rparr>"
    by (rule worker_actorE)
  moreover have "w \<noteq> Loading s" using assms(4) st(1,4) by (auto simp: taken_def)
  ultimately show ?thesis using worker_pending_kept [OF st(3) assms(2,3)] by simp
next
  case Clock
  then show ?thesis using assms tick [OF assms(2)] due_tick [OF assms(2,3)] by auto
qed

lemma ready_step:
  assumes "actor_step C Q tick E W a S S'" and "qinv (p_Queue (sys_proc S))" and "s \<in> set (ready (p_Queue (sys_proc S)))"
    and "\<not> taken s S'"
  shows "s \<in> set (ready (p_Queue (sys_proc S'))) \<and>
    ahead s (ready (p_Queue (sys_proc S'))) \<le> ahead s (ready (p_Queue (sys_proc S))) \<and>
    (\<forall>i. a = Worker i \<longrightarrow> sys_workers S ! i = Idle \<longrightarrow>
       ahead s (ready (p_Queue (sys_proc S'))) < ahead s (ready (p_Queue (sys_proc S))))"
proof (cases a)
  case Poller
  then obtain env p po where "poller_step C Q env (sys_proc S, sys_poller S) (p, po)" "sys_proc S' = p"
    using assms(1) by auto
  then show ?thesis using poller_ready [OF _ assms(2)] assms(3) Poller by fastforce
next
  case (Worker i)
  from assms(1) [unfolded Worker] obtain we p w where st: "i < length (sys_workers S)" "we \<in> W"
    "worker_step C Q we (sys_proc S, sys_workers S ! i) (p, w)"
    "S' = S\<lparr>sys_proc := p, sys_workers := (sys_workers S)[i := w]\<rparr>"
    by (rule worker_actorE)
  have nl: "w \<noteq> Loading s" using assms(4) st(1,4) by (auto simp: taken_def)
  have idle: "\<exists>y. w = Loading y" if "sys_workers S ! i = Idle" using st(3) that by (auto elim!: worker_stepE)
  show ?thesis
    using worker_ready [OF st(3) assms(2)]
  proof (elim disjE exE conjE)
    fix y assume "w = Loading y" "ready (p_Queue (sys_proc S)) = y # ready (p_Queue p)"
    then show ?thesis using st(4) nl assms(3) by auto
  next
    fix zs assume zs: "ready (p_Queue p) = ready (p_Queue (sys_proc S)) @ zs"
    moreover have "sys_workers S ! i \<noteq> Idle"
    proof
      assume "sys_workers S ! i = Idle"
      with st(3) obtain y where "qo_Get Q (p_Queue (sys_proc S)) = Some (y, p_Queue p)"
        by (auto elim!: worker_stepE)
      from arg_cong [OF ready_get [OF assms(2) this], of length] zs show False by simp
    qed
    ultimately show ?thesis using st(4) assms(3) Worker by simp
  qed
next
  case Clock
  then show ?thesis using assms(1,3) ready_tick [OF assms(2)] by fastforce
qed

end

section \<open>Progress of one subaccount\<close>

text \<open>What the proofs below use of a fair run of the system.\<close>

definition live_run where
  "live_run C Q tick pending processing qinv okp E W run acts \<longleftrightarrow>
     (\<forall>n. actor_step C Q tick E W (acts n) (run n) (run (Suc n))) \<and>
     (\<forall>a n. \<exists>m \<ge> n. acts m = a \<or> \<not> (\<exists>S'. actor_step C Q tick E W a (run m) S')) \<and>
     (\<forall>n. sys_inv C pending processing qinv okp (run n) \<and> held_inv processing (run n) \<and> 0 < length (sys_workers (run n))) \<and>
     (\<forall>we \<in> W. provider_safe we okp) \<and> E \<noteq> {} \<and> W \<noteq> {}"

lemma live_runD:
  assumes "live_run C Q tick pending processing qinv okp E W run acts"
  shows "actor_step C Q tick E W (acts n) (run n) (run (Suc n))"
    and "\<forall>n. \<exists>m \<ge> n. acts m = a \<or> \<not> (\<exists>S'. actor_step C Q tick E W a (run m) S')"
    and "qinv (p_Queue (sys_proc (run n)))" and "0 < length (sys_workers (run n))"
    and "sys_inv C pending processing qinv okp (run n)" and "held_inv processing (run n)"
  using assms by (auto simp: live_run_def sys_inv_def)

lemma actor_others: "actor_step C Q tick E W a S S' \<Longrightarrow> a \<noteq> Worker i \<Longrightarrow> sys_workers S' ! i = sys_workers S ! i"
  by (cases a) auto

lemma actor_length: "actor_step C Q tick E W a S S' \<Longrightarrow> length (sys_workers S') = length (sys_workers S)"
  by (cases a) auto

context timed_libs
begin

lemma busy_enabled:
  assumes "live_run C Q tick pending processing qinv okp E W run acts" and "i < length (sys_workers (run n))"
    and "sys_workers (run n) ! i \<noteq> Idle"
  shows "\<exists>S'. actor_step C Q tick E W (Worker i) (run n) S'"
proof -
  obtain we where we: "we \<in> W" "provider_safe we okp" using assms(1) by (auto simp: live_run_def)
  have "worker_wf (sys_workers (run n) ! i)" "cache_wf C (p_Cache (sys_proc (run n)))" "okp (p_KubeconfigProvider (sys_proc (run n)))"
    using live_runD(5) [OF assms(1), of n] assms(2) by (simp_all add: sys_inv_def data_wf_def list_all_length)
  from worker_next [OF this(1,2) we(2) this(3) assms(3)] show ?thesis using we(1) assms(2) by auto
qed

lemma idle_enabled:
  assumes "live_run C Q tick pending processing qinv okp E W run acts" and "i < length (sys_workers (run n))"
    and "sys_workers (run n) ! i = Idle" and "ready (p_Queue (sys_proc (run n))) \<noteq> []"
  shows "\<exists>S'. actor_step C Q tick E W (Worker i) (run n) S'"
proof -
  obtain we where we: "we \<in> W" using assms(1) by (auto simp: live_run_def)
  obtain y q where "qo_Get Q (p_Queue (sys_proc (run n))) = Some (y, q)"
    using ready_some [OF live_runD(3) [OF assms(1)] assms(4)] by auto
  from work_take [OF this, of C we] we assms(2,3) show ?thesis by auto
qed

lemma fair_ready_taken:
  assumes live: "live_run C Q tick pending processing qinv okp E W run acts"
    and "s \<in> set (ready (p_Queue (sys_proc (run n))))"
  shows "\<exists>m \<ge> n. taken s (run m)"
proof -
  let ?r = "\<lambda>n. ready (p_Queue (sys_proc (run n)))" and ?w = "\<lambda>n. sys_workers (run n) ! 0"
  let ?f = "\<lambda>n. ahead s (?r n) * 6 + stage (?w n)"
  note step = ready_step [OF live_runD(1) [OF live] live_runD(3) [OF live]]
  have dec: "?f (Suc n) < ?f n" if r: "s \<in> set (?r n)" "\<not> taken s (run (Suc n))" "acts n = Worker 0" for n
  proof (cases "?w n = Idle")
    case True
    then have "Suc (ahead s (?r (Suc n))) \<le> ahead s (?r n)" using step [OF r(1,2)] r(3) by (simp add: Suc_le_eq)
    then show ?thesis using stage_bound [of "?w (Suc n)"] by linarith
  next
    case False
    have "actor_step C Q tick E W (Worker 0) (run n) (run (Suc n))" using live_runD(1) [OF live, of n] r(3) by simp
    then have "stage (?w (Suc n)) < stage (?w n)"
      by (rule worker_actorE) (use False worker_stage in auto)
    then show ?thesis using step [OF r(1,2)] by (meson add_mono_thms_linordered_field(4) mult_le_mono1)
  qed
  show ?thesis
  proof (rule helpful_actor [where a = "Worker 0" and P = "\<lambda>n. s \<in> set (?r n)" and f = ?f, OF live_runD(2) [OF live]])
    fix n assume r: "s \<in> set (?r n)" "\<not> taken s (run n)"
    show "\<exists>S'. actor_step C Q tick E W (Worker 0) (run n) S'"
      using busy_enabled [OF live] idle_enabled [OF live] live_runD(4) [OF live, of n] r(1) by (metis empty_iff list.set(1))
    show "taken s (run (Suc n)) \<or> s \<in> set (?r (Suc n)) \<and> ?f (Suc n) \<le> ?f n"
    proof (cases "acts n = Worker 0")
      case True
      then show ?thesis using dec [OF r(1)] step [OF r(1)] by fastforce
    next
      case False
      then have "?w (Suc n) = ?w n" using actor_others [OF live_runD(1) [OF live]] by blast
      then show ?thesis using step [OF r(1)] by auto
    qed
    show "taken s (run (Suc n)) \<or> ?f (Suc n) < ?f n" if "acts n = Worker 0" using dec r(1) that by blast
  qed (rule assms(2))
qed

lemma unheld_processing: "held_inv processing S \<Longrightarrow> unheld s S \<Longrightarrow> s \<notin> processing (p_Queue (sys_proc S))"
  by (auto simp: held_inv_def unheld_def)

text \<open>A pending key that no worker has becomes ready as time goes on, and is then taken.\<close>

lemma fair_pending_taken:
  assumes live: "live_run C Q tick pending processing qinv okp E W run acts"
    and start: "s \<in> pending (p_Queue (sys_proc (run n)))" "unheld s (run n)"
  shows "\<exists>m \<ge> n. taken s (run m)"
proof -
  let ?q = "\<lambda>n. p_Queue (sys_proc (run n))"
  let ?P = "\<lambda>n. s \<in> pending (?q n) \<and> unheld s (run n)" and ?G = "\<lambda>n. taken s (run n) \<or> s \<in> set (ready (?q n))"
  note q = live_runD(3) [OF live]
  have keep: "?G (Suc n) \<or> ?P (Suc n) \<and> due (?q (Suc n)) s \<le> due (?q n) s" if "?P n" for n
    using pending_step [OF live_runD(1) [OF live] q, of s n] unheld_step [OF live_runD(1) [OF live], of s n] that by blast
  have "\<exists>m \<ge> n. ?G m"
  proof (rule helpful_actor [where a = Clock and P = ?P and f = "\<lambda>n. due (?q n) s", OF live_runD(2) [OF live]])
    fix n assume P: "?P n" and G: "\<not> ?G n"
    show "\<exists>S'. actor_step C Q tick E W Clock (run n) S'" by simp
    show "?G (Suc n) \<or> ?P (Suc n) \<and> due (?q (Suc n)) s \<le> due (?q n) s" using keep P by blast
    assume "acts n = Clock"
    then have tk: "?q (Suc n) = tick (?q n)" using live_runD(1) [OF live, of n] by simp
    have "0 < due (?q n) s"
      using due_ready [OF q] unheld_processing [OF live_runD(6) [OF live]] P G by blast
    moreover have "due (tick (?q n)) s \<le> due (?q n) s - 1" using due_tick [OF q] P by blast
    ultimately have "due (?q (Suc n)) s < due (?q n) s" unfolding tk by linarith
    then show "?G (Suc n) \<or> due (?q (Suc n)) s < due (?q n) s" by (rule disjI2)
  qed (use start in blast)
  then show ?thesis using fair_ready_taken [OF live] by (meson order_trans)
qed

text \<open>A goroutine that owes a subaccount to the queue puts it there.\<close>

lemma fair_owed_taken:
  assumes live: "live_run C Q tick pending processing qinv okp E W run acts"
    and P: "P n" "unheld s (run n)"
    and en: "\<And>n. P n \<Longrightarrow> \<exists>S'. actor_step C Q tick E W a (run n) S'"
    and own: "\<And>n. P n \<Longrightarrow> acts n = a \<Longrightarrow> s \<in> pending (p_Queue (sys_proc (run (Suc n))))"
    and other: "\<And>n. P n \<Longrightarrow> acts n \<noteq> a \<Longrightarrow> P (Suc n)"
  shows "\<exists>m \<ge> n. taken s (run m)"
proof -
  let ?G = "\<lambda>n. taken s (run n) \<or> s \<in> pending (p_Queue (sys_proc (run n))) \<and> unheld s (run n)"
  have "\<exists>m \<ge> n. ?G m"
  proof (rule helpful_actor [where a = a and P = "\<lambda>n. P n \<and> unheld s (run n)" and f = "\<lambda>_. 0", OF live_runD(2) [OF live]])
    fix n assume "P n \<and> unheld s (run n)"
    then show "\<exists>S'. actor_step C Q tick E W a (run n) S'"
      and "?G (Suc n) \<or> (P (Suc n) \<and> unheld s (run (Suc n))) \<and> 0 \<le> (0 :: nat)"
      and "acts n = a \<Longrightarrow> ?G (Suc n) \<or> 0 < (0 :: nat)"
      using en own other unheld_step [OF live_runD(1) [OF live], of s n] by blast+
  qed (use P in blast)
  then show ?thesis using fair_pending_taken [OF live] by (meson order_trans)
qed

lemma fair_unheld_taken:
  assumes live: "live_run C Q tick pending processing qinv okp E W run acts"
    and "cached C (sys_proc (run n)) s" and "unheld s (run n)"
  shows "\<exists>m \<ge> n. taken s (run m)"
proof -
  note q = live_runD(3) [OF live]
  from live_runD(5) [OF live, of n] assms(2) consider "s \<in> pending (p_Queue (sys_proc (run n)))"
    | "Some s \<in> owed_by ` set (sys_workers (run n))" | "owed_by_poller (sys_poller (run n)) = Some s"
    unfolding sys_inv_def covered_def by blast
  then show ?thesis
  proof cases
    case 1
    then show ?thesis using fair_pending_taken [OF live] assms(3) by blast
  next
    case 2
    then obtain i where i: "i < length (sys_workers (run n))" "owed_by (sys_workers (run n) ! i) = Some s"
      by (auto simp: in_set_conv_nth)
    moreover have "held_by (sys_workers (run n) ! i) \<noteq> Some s" using assms(3) i(1) unfolding unheld_def by (metis imageI nth_mem)
    ultimately have "sys_workers (run n) ! i = Requeueing s" by (cases "sys_workers (run n) ! i") (auto split: if_splits)
    then show ?thesis
    proof (intro fair_owed_taken [OF live _ assms(3), where a = "Worker i" and
          P = "\<lambda>n. i < length (sys_workers (run n)) \<and> sys_workers (run n) ! i = Requeueing s"])
      fix n assume P: "i < length (sys_workers (run n)) \<and> sys_workers (run n) ! i = Requeueing s"
      then show "\<exists>S'. actor_step C Q tick E W (Worker i) (run n) S'" using busy_enabled [OF live, of i n] by simp
      show "s \<in> pending (p_Queue (sys_proc (run (Suc n))))" if "acts n = Worker i"
        using live_runD(1) [OF live, of n] P addAfter [OF q] that by (auto elim!: worker_stepE)
      show "i < length (sys_workers (run (Suc n))) \<and> sys_workers (run (Suc n)) ! i = Requeueing s" if "acts n \<noteq> Worker i"
        using actor_others [OF live_runD(1) [OF live] that] actor_length [OF live_runD(1) [OF live], of n] P by simp
    qed (use i(1) in blast)
  next
    case 3
    then obtain rs v where "sys_poller (run n) = Queueing s rs v" by (cases "sys_poller (run n)") auto
    moreover obtain env where "env \<in> E" using live by (auto simp: live_run_def)
    ultimately show ?thesis
    proof (intro fair_owed_taken [OF live _ assms(3), where a = Poller and P = "\<lambda>n. sys_poller (run n) = Queueing s rs v"])
      fix n assume P: "sys_poller (run n) = Queueing s rs v"
      then show "\<exists>S'. actor_step C Q tick E W Poller (run n) S'"
        using poll_queue [of C Q env "sys_proc (run n)" s rs v] \<open>env \<in> E\<close> by auto
      show "s \<in> pending (p_Queue (sys_proc (run (Suc n))))" if "acts n = Poller"
        using live_runD(1) [OF live, of n] P add [OF q] that by (auto elim!: poller_stepE)
      show "sys_poller (run (Suc n)) = Queueing s rs v" if "acts n \<noteq> Poller"
        using live_runD(1) [OF live, of n] P that by (cases "acts n") auto
    qed
  qed
qed

text \<open>A worker that has taken a subaccount finds it gone or gets to work on its record.\<close>

lemma fair_taken_scans:
  assumes live: "live_run C Q tick pending processing qinv okp E W run acts" and "taken s (run n)"
  shows "\<exists>m \<ge> n. \<not> cached C (sys_proc (run m)) s \<or> scans s (run m)"
proof -
  obtain i where i: "i < length (sys_workers (run n))" "sys_workers (run n) ! i = Loading s"
    using assms(2) by (auto simp: taken_def in_set_conv_nth)
  let ?G = "\<lambda>n. \<not> cached C (sys_proc (run n)) s \<or> scans s (run n)"
  have own: "scans s (run (Suc n))"
    if l: "i < length (sys_workers (run n))" "sys_workers (run n) ! i = Loading s" "acts n = Worker i" "\<not> ?G n" for n
  proof -
    have "actor_step C Q tick E W (Worker i) (run n) (run (Suc n))" using live_runD(1) [OF live, of n] l(3) by simp
    then obtain we p w where "i < length (sys_workers (run n))" "we \<in> W"
      "worker_step C Q we (sys_proc (run n), sys_workers (run n) ! i) (p, w)"
      "run (Suc n) = (run n)\<lparr>sys_proc := p, sys_workers := (sys_workers (run n))[i := w]\<rparr>"
      by (rule worker_actorE)
    then have st: "worker_step C Q we (sys_proc (run n), Loading s) (p, w)"
      "sys_workers (run (Suc n)) = (sys_workers (run n))[i := w]" by (simp_all add: l(2))
    obtain r where "ca_Get C (p_Cache (sys_proc (run n))) s = Some (RecordItem r)"
      using live_runD(5) [OF live, of n] l(4) cache_wf_record
      by (fastforce simp: sys_inv_def data_wf_def cached_def)
    then have "w = Working s r" using st(1) by (auto elim!: worker_stepE)
    then show ?thesis using st(2) set_update_memI [OF l(1), of w] by (auto simp: scans_def)
  qed
  show ?thesis
  proof (rule helpful_actor [where a = "Worker i" and f = "\<lambda>_. 0" and
        P = "\<lambda>n. i < length (sys_workers (run n)) \<and> sys_workers (run n) ! i = Loading s", OF live_runD(2) [OF live]])
    fix n assume P: "i < length (sys_workers (run n)) \<and> sys_workers (run n) ! i = Loading s" and G: "\<not> ?G n"
    show "\<exists>S'. actor_step C Q tick E W (Worker i) (run n) S'" using busy_enabled [OF live, of i n] P by simp
    show "?G (Suc n) \<or> 0 < (0 :: nat)" if "acts n = Worker i" using own P G that by blast
    show "?G (Suc n) \<or> (i < length (sys_workers (run (Suc n))) \<and> sys_workers (run (Suc n)) ! i = Loading s) \<and> 0 \<le> (0 :: nat)"
      using own [of n] actor_others [OF live_runD(1) [OF live], of n i] actor_length [OF live_runD(1) [OF live], of n] P G
      by (cases "acts n = Worker i") auto
  qed (use i in blast)
qed

text \<open>A worker that has a subaccount gives it up in the end.\<close>

lemma fair_held_released:
  assumes live: "live_run C Q tick pending processing qinv okp E W run acts" and "\<not> unheld s (run n)"
  shows "\<exists>m \<ge> n. scans s (run m) \<or> unheld s (run m)"
proof -
  obtain i where i: "i < length (sys_workers (run n))" "held_by (sys_workers (run n) ! i) = Some s"
    using assms(2) by (auto simp: unheld_def in_set_conv_nth)
  let ?P = "\<lambda>n. i < length (sys_workers (run n)) \<and> held_by (sys_workers (run n) ! i) = Some s"
  have other: "held_by (sys_workers (run n) ! j) \<noteq> Some s" if "?P n" "j < length (sys_workers (run n))" "j \<noteq> i" for n j
    using live_runD(5) [OF live, of n] that by (auto simp: sys_inv_def exclusive_def)
  have len: "length (sys_workers (run (Suc n))) = length (sys_workers (run n))" for n
    by (rule actor_length [OF live_runD(1) [OF live]])
  have own: "(unheld s (run (Suc n)) \<or> ?P (Suc n)) \<and> stage (sys_workers (run (Suc n)) ! i) < stage (sys_workers (run n) ! i)"
    if P: "?P n" and a: "acts n = Worker i" for n
  proof -
    have "actor_step C Q tick E W (Worker i) (run n) (run (Suc n))" using live_runD(1) [OF live, of n] a by simp
    then obtain we p w where "i < length (sys_workers (run n))" "we \<in> W"
      and st: "worker_step C Q we (sys_proc (run n), sys_workers (run n) ! i) (p, w)"
      and upd: "run (Suc n) = (run n)\<lparr>sys_proc := p, sys_workers := (sys_workers (run n))[i := w]\<rparr>"
      by (rule worker_actorE)
    then have st: "worker_step C Q we (sys_proc (run n), sys_workers (run n) ! i) (p, w)"
      "sys_workers (run (Suc n)) = (sys_workers (run n))[i := w]" by simp_all
    have "held_by (sys_workers (run (Suc n)) ! j) \<noteq> Some s"
      if "held_by w \<noteq> Some s" "j < length (sys_workers (run (Suc n)))" for j
      using other [OF P, of j] P that by (cases "j = i") (simp_all add: st(2))
    then have "unheld s (run (Suc n)) \<or> held_by w = Some s"
      unfolding unheld_def by (metis imageE in_set_conv_nth)
    moreover have "sys_workers (run n) ! i \<noteq> Idle" using P by auto
    ultimately show ?thesis using worker_stage [OF st(1)] st(2) P by auto
  qed
  show ?thesis
  proof (rule helpful_actor [where a = "Worker i" and f = "\<lambda>n. stage (sys_workers (run n) ! i)" and P = ?P, OF live_runD(2) [OF live]])
    fix n assume P: "?P n"
    then have "sys_workers (run n) ! i \<noteq> Idle" by auto
    then show "\<exists>S'. actor_step C Q tick E W (Worker i) (run n) S'" using busy_enabled [OF live, of i n] P by blast
    show "(scans s (run (Suc n)) \<or> unheld s (run (Suc n))) \<or>
        ?P (Suc n) \<and> stage (sys_workers (run (Suc n)) ! i) \<le> stage (sys_workers (run n) ! i)"
      using own [OF P] actor_others [OF live_runD(1) [OF live], of n i] len [of n] P by (cases "acts n = Worker i") auto
    show "(scans s (run (Suc n)) \<or> unheld s (run (Suc n))) \<or> stage (sys_workers (run (Suc n)) ! i) < stage (sys_workers (run n) ! i)"
      if "acts n = Worker i" using own [OF P that] by blast
  qed (use i in blast)
qed

lemma fair_scans:
  assumes live: "live_run C Q tick pending processing qinv okp E W run acts"
  shows "\<exists>m \<ge> n. \<not> cached C (sys_proc (run m)) s \<or> scans s (run m)"
proof -
  have unheld: ?thesis if k: "n \<le> k" "unheld s (run k)" for k
  proof (cases "cached C (sys_proc (run k)) s")
    case True
    then obtain m where "k \<le> m" "taken s (run m)" using fair_unheld_taken [OF live _ k(2)] by blast
    then show ?thesis using fair_taken_scans [OF live] k(1) by (meson order_trans)
  qed (use k in blast)
  show ?thesis
  proof (cases "unheld s (run n)")
    case False
    then show ?thesis using fair_held_released [OF live] unheld by blast
  qed (use unheld in blast)
qed

text \<open>A worker at work on a record performs the step that scans the cluster and sends the event.\<close>

lemma fair_performs:
  assumes live: "live_run C Q tick pending processing qinv okp E W run acts" and "scans s (run n)"
  shows "\<exists>m \<ge> n. \<exists>i r. acts m = Worker i \<and> sys_workers (run m) ! i = Working s r"
proof -
  obtain i r where i: "i < length (sys_workers (run n))" "sys_workers (run n) ! i = Working s r"
    using assms(2) by (auto simp: scans_def in_set_conv_nth)
  have "\<exists>m \<ge> n. acts m = Worker i \<and> sys_workers (run m) ! i = Working s r"
  proof (rule helpful_actor [where a = "Worker i" and f = "\<lambda>_. 0" and
        P = "\<lambda>n. i < length (sys_workers (run n)) \<and> sys_workers (run n) ! i = Working s r", OF live_runD(2) [OF live]])
    fix n assume P: "i < length (sys_workers (run n)) \<and> sys_workers (run n) ! i = Working s r"
      and G: "\<not> (acts n = Worker i \<and> sys_workers (run n) ! i = Working s r)"
    show "\<exists>S'. actor_step C Q tick E W (Worker i) (run n) S'" using busy_enabled [OF live, of i n] P by simp
    show "acts (Suc n) = Worker i \<and> sys_workers (run (Suc n)) ! i = Working s r \<or>
        (i < length (sys_workers (run (Suc n))) \<and> sys_workers (run (Suc n)) ! i = Working s r) \<and> 0 \<le> (0 :: nat)"
      using actor_others [OF live_runD(1) [OF live], of n i] actor_length [OF live_runD(1) [OF live], of n] P G by auto
  qed (use i in auto)
  then show ?thesis by blast
qed

lemma fair_from_live:
  assumes "fair_from C Q tick E W (system_start p) run acts"
    and "\<forall>s. ca_Get C (p_Cache p) s = None" and "qinv (p_Queue p)"
    and "\<forall>we \<in> W. provider_safe we okp" and "okp (p_KubeconfigProvider p)" and "processing (p_Queue p) = {}"
    and "0 < sint (p_WorkersPoolSize p)" and "E \<noteq> {}" and "W \<noteq> {}"
  shows "live_run C Q tick pending processing qinv okp E W run acts"
proof -
  have "sys_inv C pending processing qinv okp (run n) \<and> held_inv processing (run n) \<and> 0 < length (sys_workers (run n))" for n
    using reachable_inv [OF run_reachable [OF assms(1)] assms(2-5)] reachable_held [OF run_reachable [OF assms(1)] assms(2-6)]
      assms(7) by simp
  with assms(1,4,8,9) show ?thesis unfolding live_run_def fair_from_def by blast
qed

lemma fair_works:
  assumes "fair_from C Q tick E W (system_start p) run acts"
    and "\<forall>s. ca_Get C (p_Cache p) s = None" and "qinv (p_Queue p)"
    and "\<forall>we \<in> W. provider_safe we okp" and "okp (p_KubeconfigProvider p)" and "processing (p_Queue p) = {}"
    and "0 < sint (p_WorkersPoolSize p)" and "E \<noteq> {}" and "W \<noteq> {}"
  shows "\<exists>m \<ge> n. ca_Get C (p_Cache (sys_proc (run m))) s = None \<or>
           (\<exists>i r. acts m = Worker i \<and> sys_workers (run m) ! i = Working s r)"
proof -
  note live = fair_from_live [OF assms]
  obtain k where "n \<le> k" "\<not> cached C (sys_proc (run k)) s \<or> scans s (run k)"
    using fair_scans [OF live] by blast
  then show ?thesis using fair_performs [OF live] by (metis cached_def order_trans)
qed

end

text \<open>
  Liveness. In every run of the system in which the scheduler is weakly fair and time goes on,
  whatever the outside world answers, every cached subaccount is worked on again and again, until a
  poll removes it: at every moment there is a later one at which it is not cached, or a worker performs
  the step that scans its cluster and sends the event.
\<close>

theorem fair_processing:
  assumes "timed_libs C Q tick pending processing qinv ready due"
    and "fair_from C Q tick E W (system_start p) run acts"
    and "\<forall>s. ca_Get C (p_Cache p) s = None" and "qinv (p_Queue p)"
    and "\<forall>we \<in> W. provider_safe we okp" and "okp (p_KubeconfigProvider p)" and "processing (p_Queue p) = {}"
    and "0 < sint (p_WorkersPoolSize p)" and "E \<noteq> {}" and "W \<noteq> {}"
  shows "\<exists>m \<ge> n. ca_Get C (p_Cache (sys_proc (run m))) s = None \<or>
           (\<exists>i r. acts m = Worker i \<and> sys_workers (run m) ! i = Working s r)"
  by (rule timed_libs.fair_works [OF assms])

theorem fair_processing_witness:
  "\<exists>run acts k. fair_from alist_cache ref_queue_ops rq_tick {samplePollEnv} {sampleWork} (system_start sampleProcess) run acts \<and>
     ca_Get alist_cache (p_Cache (sys_proc (run k))) ''s'' \<noteq> None \<and>
     (\<exists>m \<ge> k. ca_Get alist_cache (p_Cache (sys_proc (run m))) ''s'' = None \<or>
        (\<exists>i r. acts m = Worker i \<and> sys_workers (run m) ! i = Working ''s'' r))"
proof -
  obtain run acts k where run: "fair_from alist_cache ref_queue_ops rq_tick {samplePollEnv} {sampleWork} (system_start sampleProcess) run acts"
    and k: "run k = sampleSystem (Polling [] [(''s'', True)]) [Loading ''s'', Idle] (polledProcess\<lparr>p_Queue := sampleTaken\<rparr>)"
    using fair_through [OF sample_run] by blast
  have "\<exists>m \<ge> k. ca_Get alist_cache (p_Cache (sys_proc (run m))) ''s'' = None \<or>
      (\<exists>i r. acts m = Worker i \<and> sys_workers (run m) ! i = Working ''s'' r)"
    by (rule fair_processing [where okp = "\<lambda>_. True", OF ref_timed_libs.timed_libs_axioms run sample_start(1-3) TrueI])
      (simp_all add: sampleProcess_def ref_queue_ops_def)
  moreover have "ca_Get alist_cache (p_Cache (sys_proc (run k))) ''s'' \<noteq> None"
    unfolding k by (simp add: sampleSystem_def polledProcess_def alist_cache_def)
  ultimately show ?thesis using run by blast
qed

end
