(* ===== verification/Races.thy ===== *)
theory Races
  imports Concurrency
begin

text \<open>
  Two behaviours of \<^verbatim>\<open>src/pkg/process\<close> that its comments do not mention: a worker that finishes after a
  poll has removed its subaccount writes the old record back, and of two runtimes with the same
  subaccount in one page the last one decides.
\<close>

section \<open>A record that comes back\<close>

definition emptyPage :: "RuntimeDTO RuntimesPage" where
  "emptyPage = \<lparr>pg_Data = [], pg_Count = 0, pg_TotalCount = 0\<rparr>"

text \<open>
  A subaccount that the broker does not report any more comes back: whenever a worker is about to
  store its record, the poller can remove its record, finish the poll, and the worker then stores the record again;
  the next poll that is not interrupted removes it.
\<close>

theorem removed_subaccount_returns:
  assumes "process_libs C Q tick pending processing qinv" and "env \<in> E" and "we \<in> W"
    and "sys_poller S = Resting" and "i < length (sys_workers S)" and "sys_workers S ! i = Storing s r"
    and "rec_SubAccountID r = s"
  shows "\<exists>S1 S2 S3. (system_step C Q tick E W)\<^sup>*\<^sup>* S S1 \<and> sys_poller S1 = Resting \<and>
           ca_Get C (p_Cache (sys_proc S1)) s = None \<and>
           system_step C Q tick E W S1 S2 \<and>
           ca_Get C (p_Cache (sys_proc S2)) s = Some (RecordItem r) \<and>
           (system_step C Q tick E W)\<^sup>*\<^sup>* S2 S3 \<and> ca_Get C (p_Cache (sys_proc S3)) s = None"
proof -
  note gone = process_libs.get_populate [OF assms(1), of env _ emptyPage s, unfolded emptyPage_def, simplified,
      folded emptyPage_def]
  have poll: "(system_step C Q tick E W)\<^sup>*\<^sup>* S'
      (S'\<lparr>sys_proc := fst (populateCacheAndQueue C Q env (sys_proc S') emptyPage), sys_poller := Resting\<rparr>)"
    if "sys_poller S' = Resting" for S'
    using lift_poller_run [OF assms(2), where S = S' and tick = tick and W = W] populate_run [of C Q env "sys_proc S'" emptyPage] that
    by metis
  let ?p = "fst (populateCacheAndQueue C Q env (sys_proc S) emptyPage)"
  let ?S1 = "S\<lparr>sys_proc := ?p, sys_poller := Resting\<rparr>"
  let ?p2 = "?p\<lparr>p_Cache := ca_Set C (p_Cache ?p) (rec_SubAccountID r) (RecordItem r)\<rparr>"
  let ?S2 = "?S1\<lparr>sys_proc := ?p2, sys_workers := (sys_workers ?S1)[i := Finishing s True]\<rparr>"
  let ?S3 = "?S2\<lparr>sys_proc := fst (populateCacheAndQueue C Q env (sys_proc ?S2) emptyPage), sys_poller := Resting\<rparr>"
  have "worker_step C Q we (?p, Storing s r) (?p2, Finishing s True)"
    by (rule work_store)
  then have "system_step C Q tick E W ?S1 ?S2" using assms(5,6) by (intro sys_work [OF assms(3)]) simp_all
  moreover have "ca_Get C (p_Cache ?p) s = None" "ca_Get C (p_Cache (sys_proc ?S3)) s = None" using gone by simp_all
  moreover have "ca_Get C (p_Cache ?p2) s = Some (RecordItem r)"
    using gocache.get_set [OF process_libs.axioms(1) [OF assms(1)]] assms(7) by simp
  ultimately show ?thesis
    using poll [OF assms(4)] poll [of ?S2] by (intro exI [of _ ?S1] exI [of _ ?S2] exI [of _ ?S3]) simp
qed

section \<open>Two runtimes of one subaccount\<close>

text \<open>
  Of two runtimes the broker reports for the same subaccount, one trackable and one not, the order of
  the page decides whether the subaccount is billed.
\<close>

theorem page_order_decides:
  assumes "process_libs C Q tick pending processing qinv"
    and "dto_SubAccountID r1 = s" and "dto_SubAccountID r2 = s" and "s \<noteq> ''''"
    and "\<not> skipRuntime p r1" and "\<not> skipRuntime p r2"
    and "tracked env r1" and "\<not> tracked env r2" and "ca_Get C (p_Cache p) s = None"
  shows "ca_Get C (p_Cache (fst (populateCacheAndQueue C Q env p \<lparr>pg_Data = [r1, r2], pg_Count = 2, pg_TotalCount = 2\<rparr>))) s = None \<and>
         ca_Get C (p_Cache (fst (populateCacheAndQueue C Q env p \<lparr>pg_Data = [r2, r1], pg_Count = 2, pg_TotalCount = 2\<rparr>))) s =
           Some (RecordItem (newRecord r1))"
  using assms(2-)
  by (simp add: process_libs.get_populate [OF assms(1)] track_item_def reports_def)

end
