(* ===== verification/AppOptions.thy ===== *)
theory AppOptions
  imports Float64 KebClient
begin

text \<open>
  \<^verbatim>\<open>src/options/options.go\<close>: the options of the program, read from its command line, and the line that
  \<open>main\<close> logs of them, with the text of a duration as \<open>time.Duration.String\<close> writes it.
\<close>

section \<open>Parsing\<close>

definition DefaultScrapeInterval :: int64 where
  "DefaultScrapeInterval = 3 * (60 * 10 ^ 9)"

definition DefaultWorkerPoolSize :: int64 where
  "DefaultWorkerPoolSize = 5"

definition DefaultDebugPort :: int64 where
  "DefaultDebugPort = 0"

definition DefaultListenAddr :: int64 where
  "DefaultListenAddr = 8080"

text \<open>The name of the default level, which the flag starts with.\<close>

definition DefaultLogLevel :: string where
  "DefaultLogLevel = ''info''"

definition DefaultKubeconfigCacheTTL :: int64 where
  "DefaultKubeconfigCacheTTL = 30 * (60 * 10 ^ 9)"

record 'lvl Options =
  opt_KEBPollWaitDuration :: int64
  opt_KEBReqTimeout :: int64
  opt_KEBRuntimeURL :: "url option"
  opt_ScrapeInterval :: int64
  opt_WorkerPoolSize :: int64
  opt_DebugPort :: int64
  opt_ListenAddr :: int64
  opt_LogLevel :: 'lvl
  opt_KubeconfigCacheTTL :: int64
  opt_FilterRuntimeFile :: string

text \<open>
  The first three fields are never set: they keep their zero values, and nothing reads them.
\<close>

text \<open>The flags of a command line: \<open>None\<close> for a flag that is not given.\<close>

record flags =
  fl_scrape_interval :: "int64 option"
  fl_worker_pool_size :: "int64 option"
  fl_log_level :: "string option"
  fl_listen_addr :: "int64 option"
  fl_debug_port :: "int64 option"
  fl_filter_runtime_file :: "string option"
  fl_kubeconfig_cache_ttl :: "int64 option"

definition flag_value :: "'a \<Rightarrow> 'a option \<Rightarrow> 'a" where
  "flag_value dflt given = (case given of None \<Rightarrow> dflt | Some v \<Rightarrow> v)"

text \<open>\<open>setLevel\<close> is \<open>zapcore.Level.Set\<close>; a level it does not know ends the program (\<open>None\<close>).\<close>

definition ParseArgs :: "(string \<Rightarrow> go_error + 'lvl) \<Rightarrow> flags \<Rightarrow> 'lvl Options option" where
  "ParseArgs setLevel fl =
     (let scrapeInterval = flag_value DefaultScrapeInterval (fl_scrape_interval fl);
          workerPoolSize = flag_value DefaultWorkerPoolSize (fl_worker_pool_size fl);
          logLevelStr = flag_value DefaultLogLevel (fl_log_level fl);
          listenAddr = flag_value DefaultListenAddr (fl_listen_addr fl);
          debugPort = flag_value DefaultDebugPort (fl_debug_port fl);
          filterRuntimeFile = flag_value '''' (fl_filter_runtime_file fl);
          kubeconfigCacheTTL = flag_value DefaultKubeconfigCacheTTL (fl_kubeconfig_cache_ttl fl)
      in case setLevel logLevelStr of
           Inl err \<Rightarrow> None
         | Inr logLevel \<Rightarrow>
             Some \<lparr>opt_KEBPollWaitDuration = 0, opt_KEBReqTimeout = 0, opt_KEBRuntimeURL = None,
                   opt_ScrapeInterval = scrapeInterval, opt_WorkerPoolSize = workerPoolSize,
                   opt_DebugPort = debugPort, opt_ListenAddr = listenAddr, opt_LogLevel = logLevel,
                   opt_KubeconfigCacheTTL = kubeconfigCacheTTL, opt_FilterRuntimeFile = filterRuntimeFile\<rparr>)"

section \<open>Printing\<close>

text \<open>
  \<open>fmtFrac\<close> of package \<open>time\<close>: the last \<open>prec\<close> decimal digits of a number as a fraction, without its
  trailing zeros and without the point if nothing is left.
\<close>

definition fmtFrac :: "nat \<Rightarrow> nat \<Rightarrow> string" where
  "fmtFrac v prec =
     (let ds = rev (dropWhile (\<lambda>c. c = CHR ''0'') (rev (pad_zeros prec (show_nat (v mod 10 ^ prec)))))
      in if ds = [] then [] else CHR ''.'' # ds)"

definition duration_magnitude :: "nat \<Rightarrow> string" where
  "duration_magnitude u =
     (if u = 0 then ''0s''
      else if u < 10 ^ 3 then show_nat u @ ''ns''
      else if u < 10 ^ 6 then show_nat (u div 10 ^ 3) @ fmtFrac u 3 @ [CHR 0xC2, CHR 0xB5] @ ''s''
      else if u < 10 ^ 9 then show_nat (u div 10 ^ 6) @ fmtFrac u 6 @ ''ms''
      else
        (let seconds = u div 10 ^ 9; s = show_nat (seconds mod 60) @ fmtFrac u 9 @ ''s'';
             minutes = seconds div 60; m = show_nat (minutes mod 60) @ ''m'' @ s; hours = minutes div 60
         in if minutes = 0 then s else if hours = 0 then m else show_nat hours @ ''h'' @ m))"

definition Duration_String :: "int64 \<Rightarrow> string" where
  "Duration_String d =
     (if sint d < 0 then ''-'' @ duration_magnitude (nat (- sint d)) else duration_magnitude (nat (sint d)))"

text \<open>\<open>levelString\<close> is \<open>zapcore.Level.String\<close>.\<close>

definition Options_String :: "('lvl \<Rightarrow> string) \<Rightarrow> 'lvl Options \<Rightarrow> string" where
  "Options_String levelString o' =
     ''--scrape-interval='' @ Duration_String (opt_ScrapeInterval o') @
     '' --worker-pool-size='' @ show_int (sint (opt_WorkerPoolSize o')) @
     '' --log-level='' @ levelString (opt_LogLevel o') @
     '' --listen-addr='' @ show_int (sint (opt_ListenAddr o')) @
     '', --debug-port='' @ show_int (sint (opt_DebugPort o'))"

lemma Duration_String_samples:
  "Duration_String DefaultScrapeInterval = ''3m0s''" "Duration_String DefaultKubeconfigCacheTTL = ''30m0s''"
  "Duration_String 1500000000 = ''1.5s''" "Duration_String 3661000000000 = ''1h1m1s''"
  "Duration_String 2500000 = ''2.5ms''" "Duration_String (- 7) = ''-7ns''"
  by (simp_all add: Duration_String_def DefaultScrapeInterval_def DefaultKubeconfigCacheTTL_def duration_magnitude_def
      fmtFrac_def pad_zeros_def show_nat.simps digit_char_def char_of_def bit_0 Let_def)

end
