(* ===== verification/Service.thy ===== *)
theory Service
  imports Logging
begin

text \<open>
  \<^verbatim>\<open>src/pkg/service/server.go\<close>: the life of an HTTP server, which is also the life of the program, since
  \<open>main\<close> returns when the server of the metrics does. Two goroutines: one serves until
  \<open>ListenAndServe\<close> returns, the other waits for a signal, shuts the server down and returns from \<open>Start\<close>.
  What handlers and timeouts do belongs to the HTTP library.
\<close>

section \<open>Model\<close>

text \<open>
  The handlers the program registers: a plain success, the metrics of the Prometheus library, and the
  functions and named handlers of the profiler.
\<close>

datatype handler = Healthz | Promhttp | Pprof string | PprofHandler string

record Server =
  sv_Addr :: string
  sv_Router :: "(string \<times> handler) list"
  sv_Logger :: Logger

definition service_namedLogger :: "Server \<Rightarrow> Logger" where
  "service_namedLogger s = With ''component'' ''kmc'' (sv_Logger s)"

definition serverReadTimeout :: int64 where "serverReadTimeout = 10 * 10 ^ 9"
definition serverWriteTimeout :: int64 where "serverWriteTimeout = 5 * 10 ^ 9"
definition serverIdleTimeout :: int64 where "serverIdleTimeout = 15 * 10 ^ 9"

text \<open>The server of the HTTP library that \<open>Start\<close> runs.\<close>

record http_Server =
  hs_Addr :: string
  hs_Handler :: "(string \<times> handler) list"
  hs_ReadTimeout :: int64
  hs_WriteTimeout :: int64
  hs_IdleTimeout :: int64

definition new_http_Server :: "Server \<Rightarrow> http_Server" where
  "new_http_Server s = \<lparr>hs_Addr = sv_Addr s, hs_Handler = sv_Router s, hs_ReadTimeout = serverReadTimeout,
     hs_WriteTimeout = serverWriteTimeout, hs_IdleTimeout = serverIdleTimeout\<rparr>"

datatype listener = Serving | Stopped

datatype starter = AwaitingSignal | ShuttingDown | Returned

text \<open>A call of \<open>Fatal\<close> ends the program with its message.\<close>

datatype server = Running listener starter | Exited string

text \<open>
  What the operating system and the library decide: a signal arrives, \<open>ListenAndServe\<close> returns an
  error (\<open>None\<close> for \<open>http.ErrServerClosed\<close>), \<open>Shutdown\<close> returns.
\<close>

datatype server_event = Signal | ListenReturns "go_error option" | ShutdownReturns "go_error option"

fun server_step :: "server \<Rightarrow> server_event \<Rightarrow> server option" where
  "server_step (Running g AwaitingSignal) Signal = Some (Running g ShuttingDown)"
| "server_step (Running g m) Signal = Some (Running g m)"
| "server_step (Running Serving m) (ListenReturns (Some err)) = Some (Exited ''start server'')"
| "server_step (Running Serving m) (ListenReturns None) =
     (if m = AwaitingSignal then None else Some (Running Stopped m))"
| "server_step (Running g ShuttingDown) (ShutdownReturns (Some err)) = Some (Exited ''server is shutting down'')"
| "server_step (Running g ShuttingDown) (ShutdownReturns None) = Some (Running g Returned)"
| "server_step _ _ = None"

text \<open>
  A run of \<open>Start\<close>; \<open>None\<close> for events that cannot happen in that order: \<open>ErrServerClosed\<close> is returned
  only once \<open>Shutdown\<close> was called.
\<close>

fun server_run :: "server \<Rightarrow> server_event list \<Rightarrow> server option" where
  "server_run s [] = Some s"
| "server_run s (e # es) = (case server_step s e of None \<Rightarrow> None | Some s' \<Rightarrow> server_run s' es)"

definition server_Start :: "server_event list \<Rightarrow> server option" where
  "server_Start es = server_run (Running Serving AwaitingSignal) es"

section \<open>When the server stops\<close>

lemma run_waiting:
  assumes "server_run (Running Serving AwaitingSignal) es = Some (Running g m)" and "m \<noteq> AwaitingSignal"
  shows "\<exists>es'. es = Signal # es' \<and> server_run (Running Serving ShuttingDown) es' = Some (Running g m)"
proof (cases es)
  case (Cons e es')
  show ?thesis
  proof (cases "(Running Serving AwaitingSignal, e)" rule: server_step.cases)
    case (3 m err)
    then show ?thesis using assms(1) Cons by (cases es') auto
  qed (use assms(1) Cons in auto)
qed (use assms in simp)

lemma run_shutting:
  assumes "server_run (Running g ShuttingDown) es = Some (Running g' Returned)"
  shows "ShutdownReturns None \<in> set es"
  using assms
proof (induction es arbitrary: g)
  case (Cons e es)
  show ?case
  proof (cases "(Running g ShuttingDown, e)" rule: server_step.cases)
    case (3 m err)
    then show ?thesis using Cons.prems by (cases es) auto
  next
    case (5 g err)
    then show ?thesis using Cons.prems by (cases es) auto
  qed (use Cons in \<open>auto split: if_splits\<close>)
qed simp

text \<open>
  The server, and with it the program, returns only after a signal and a shutdown that
  succeeded: in every run that ends with \<open>Start\<close> returned the first event is the signal and the
  shutdown reported no error.
\<close>

theorem server_returns_after_signal:
  assumes "server_Start es = Some (Running g Returned)"
  shows "(\<exists>es'. es = Signal # es') \<and> ShutdownReturns None \<in> set es"
proof -
  obtain es' where "es = Signal # es'" "server_run (Running Serving ShuttingDown) es' = Some (Running g Returned)"
    using run_waiting assms unfolding server_Start_def by blast
  then show ?thesis using run_shutting [of Serving es' g] by auto
qed

theorem server_returns_after_signal_witness:
  "ShutdownReturns None \<in> set [Signal, ListenReturns None, ShutdownReturns None]"
  using server_returns_after_signal [of "[Signal, ListenReturns None, ShutdownReturns None]" Stopped]
  by (simp add: server_Start_def)

end
