(* ===== verification/EdpCollector.thy ===== *)
theory EdpCollector
  imports EdpClient
begin

text \<open>
  \<^verbatim>\<open>src/pkg/collector/edp/collector.go\<close>: one collection cycle of a cluster. Every scanner runs; a scanner
  that fails, and a scan that cannot be converted, falls back to the scan of the last successful
  cycle; what can be converted is aggregated and sent as one event. The model is generic in the
  type of scans, whose conversion \<open>conv\<close> is the method \<open>EDP\<close> of the interface \<open>ScanConverter\<close>.
  Tracing spans and log lines are left out.
\<close>

section \<open>Time\<close>

text \<open>
  A point in time as the clock of the program shows it: the civil date and time, and the offset of the
  zone from UTC in seconds.
\<close>

record go_time =
  tm_Year :: int
  tm_Month :: nat
  tm_Day :: nat
  tm_Hour :: nat
  tm_Minute :: nat
  tm_Second :: nat
  tm_Offset :: int

text \<open>\<open>appendInt\<close>, with which the library prints the parts.\<close>

definition append_int :: "int \<Rightarrow> nat \<Rightarrow> string" where
  "append_int x width = (if x < 0 then ''-'' else []) @ pad_zeros width (show_nat (nat \<bar>x\<bar>))"

text \<open>The layout \<open>time.RFC3339\<close>.\<close>

definition getTimestampNow :: "go_time \<Rightarrow> string" where
  "getTimestampNow t =
     append_int (tm_Year t) 4 @ ''-'' @ append_int (int (tm_Month t)) 2 @ ''-'' @ append_int (int (tm_Day t)) 2 @ ''T'' @
     append_int (int (tm_Hour t)) 2 @ '':'' @ append_int (int (tm_Minute t)) 2 @ '':'' @ append_int (int (tm_Second t)) 2 @
     (if tm_Offset t = 0 then ''Z''
      else let zone = go_quot (tm_Offset t) 60
           in (if zone < 0 then ''-'' else ''+'') @ append_int (\<bar>zone\<bar> div 60) 2 @ '':'' @ append_int (\<bar>zone\<bar> mod 60) 2)"

definition sampleTime :: go_time where
  "sampleTime = \<lparr>tm_Year = 2024, tm_Month = 1, tm_Day = 2, tm_Hour = 3, tm_Minute = 4, tm_Second = 5, tm_Offset = 0\<rparr>"

section \<open>Model\<close>

record ('cl, 's) EdpCollector =
  ec_EDPClient :: edp_Client
  ec_scanners :: "('cl, 's) Scanner list"

text \<open>
  What the collector calls outside the repository: the retry library, the HTTP stack, the JSON
  encoder, the clock; the conversion of a scan; and the order in which a map of scans is traversed.
\<close>

record 's edp_env =
  env_retry :: "int retry_fn"
  env_newRequest :: "string \<Rightarrow> string \<Rightarrow> go_error option"
  env_httpDo :: "http_request \<Rightarrow> string \<Rightarrow> nat \<Rightarrow> http_result \<times> int64"
  env_marshal :: "payload \<Rightarrow> go_error + string"
  env_now :: go_time
  env_conv :: "'s edp_conv"
  env_ord :: "'s ScanMap \<Rightarrow> 's ScanMap"

definition errNoMeasurementsSent :: go_error where
  "errNoMeasurementsSent = SentinelError ''no measurements sent to EDP''"

definition scan_failed :: "ScannerID \<Rightarrow> go_error \<Rightarrow> go_error" where
  "scan_failed i err = errorf_w (''scanner with ID('' @ i @ '') failed during scanning: '') err []"

definition no_previous_scan :: "ScannerID \<Rightarrow> go_error" where
  "no_previous_scan i = ErrorString (''no previous scan found for scanner with ID('' @ i @ '')'')"

definition conversion_failed :: "ScannerID \<Rightarrow> go_error \<Rightarrow> go_error" where
  "conversion_failed i err =
     errorf_w (''failed to convert scan to an EDP measurement for scanner with ID('' @ i @ ''): '') err []"

definition previous_conversion_failed :: "ScannerID \<Rightarrow> go_error \<Rightarrow> go_error" where
  "previous_conversion_failed i err =
     errorf_w (''failed to convert previous scan to an EDP measurement for scanner with ID('' @ i @ ''): '') err []"

definition executeScans_step ::
  "'s ScanMap \<Rightarrow> Info \<Rightarrow> 'cl \<Rightarrow> 's ScanMap \<times> go_error list \<times> metric_call list \<Rightarrow> ('cl, 's) Scanner
   \<Rightarrow> 's ScanMap \<times> go_error list \<times> metric_call list" where
  "executeScans_step previousScans runtime clients st s =
     (case st of (currentScans, errs, calls) \<Rightarrow>
       (case sc_Scan s runtime clients of
          Inr scan \<Rightarrow> (AList.update (sc_ID s) scan currentScans, errs,
                       calls @ [RecordScan True (sc_ID s) runtime])
        | Inl err \<Rightarrow>
            (let calls = calls @ [RecordScan False (sc_ID s) runtime];
                 errs = errs @ [scan_failed (sc_ID s) err]
             in (case map_of previousScans (sc_ID s) of
                   Some previousScan \<Rightarrow> (AList.update (sc_ID s) previousScan currentScans, errs, calls)
                 | None \<Rightarrow> (currentScans, errs @ [no_previous_scan (sc_ID s)],
                     calls @ [RecordScanConversion False (sc_ID s) EDPBackendName runtime])))))"

definition executeScans ::
  "('cl, 's) Scanner list \<Rightarrow> 's ScanMap \<Rightarrow> Info \<Rightarrow> 'cl \<Rightarrow> 's ScanMap \<times> go_error option \<times> metric_call list" where
  "executeScans scanners previousScans runtime clients =
     (let (currentScans, errs, calls) =
            foldl (executeScans_step previousScans runtime clients) ([], [], []) scanners
      in (currentScans, errors_join errs, calls))"

definition convert_step ::
  "'s edp_conv \<Rightarrow> 's ScanMap \<Rightarrow> Info
   \<Rightarrow> 's ScanMap \<times> EDPMeasurement list \<times> go_error list \<times> metric_call list \<Rightarrow> ScannerID \<times> 's
   \<Rightarrow> 's ScanMap \<times> EDPMeasurement list \<times> go_error list \<times> metric_call list" where
  "convert_step conv previousScans runtime st entry =
     (case st of (convertableScans, ms, errs, calls) \<Rightarrow>
      case entry of (i, scan) \<Rightarrow>
       (case conv scan of
          (m, None) \<Rightarrow> (AList.update i scan convertableScans, ms @ [m], errs,
                        calls @ [RecordScanConversion True i EDPBackendName runtime])
        | (m, Some err) \<Rightarrow>
            (let calls = calls @ [RecordScanConversion False i EDPBackendName runtime];
                 errs = errs @ [conversion_failed i err]
             in (case map_of previousScans i of
                   None \<Rightarrow> (convertableScans, ms, errs @ [no_previous_scan i], calls)
                 | Some previousScan \<Rightarrow>
                    (case conv previousScan of
                       (m, Some err) \<Rightarrow>
                         (convertableScans, ms, errs @ [previous_conversion_failed i err], calls)
                     | (m, None) \<Rightarrow>
                         (AList.update i previousScan convertableScans, ms @ [m], errs, calls))))))"

definition convertScansToEDPMeasurements ::
  "('s ScanMap \<Rightarrow> 's ScanMap) \<Rightarrow> 's edp_conv \<Rightarrow> 's ScanMap \<Rightarrow> 's ScanMap \<Rightarrow> Info
   \<Rightarrow> 's ScanMap \<times> EDPMeasurement list \<times> go_error option \<times> metric_call list" where
  "convertScansToEDPMeasurements ord conv currentScans previousScans runtime =
     (let (convertableScans, ms, errs, calls) =
            foldl (convert_step conv previousScans runtime) ([], [], [], []) (ord currentScans)
      in (convertableScans, ms, errors_join errs, calls))"

definition isSuccess :: "int \<Rightarrow> bool" where
  "isSuccess status \<longleftrightarrow> (if 200 \<le> status \<and> status < 300 then True else False)"

definition sendPayload ::
  "'s edp_env \<Rightarrow> EdpConfig \<Rightarrow> payload \<Rightarrow> string \<Rightarrow> go_error option \<times> effect list" where
  "sendPayload env c pl subAccountID =
     (case env_marshal env pl of
        Inl err \<Rightarrow> (Some (errorf_w (''failed to marshal payload for subAccountID ('' @ subAccountID @ ''): '') err []), [])
      | Inr payloadJSON \<Rightarrow>
         (case edp_NewRequest (env_newRequest env) c subAccountID of
            Inl err \<Rightarrow> (Some (errorf_w (''failed to create a new request for EDP for subAccountID (''
                                @ subAccountID @ ''): '') err []), [])
          | Inr req \<Rightarrow>
             (case edp_Send (env_retry env) c (env_httpDo env) req payloadJSON of
                (Inl err, effs) \<Rightarrow>
                  (Some (errorf_w (''failed to send payload to EDP for subAccountID ('' @ subAccountID @ ''): '') err []), effs)
              | (Inr status, effs) \<Rightarrow>
                  ((if \<not> isSuccess status
                    then Some (ErrorString (''failed to send payload to EDP for subAccountID ('' @ subAccountID
                           @ '') as it returned HTTP status code '' @ show_int status))
                    else None), effs))))"

definition execute_failed :: "go_error \<Rightarrow> go_error" where
  "execute_failed err = errorf_w ''failed to successfully execute one or more scans : '' err []"

definition convert_failed :: "go_error \<Rightarrow> go_error" where
  "convert_failed err = errorf_w ''failed to convert one or more scans to EDP measurements: '' err []"

definition send_failed :: "go_error \<Rightarrow> go_error" where
  "send_failed err = errorf_w ''failed to send payload to EDP: '' err []"

text \<open>The list of an optional error, as the method appends it to the errors it joins at the end.\<close>

definition opt_list :: "'a option \<Rightarrow> 'a list" where
  "opt_list x = (case x of None \<Rightarrow> [] | Some y \<Rightarrow> [y])"

definition CollectAndSend ::
  "'s edp_env \<Rightarrow> ('cl, 's) EdpCollector \<Rightarrow> Info \<Rightarrow> 'cl \<Rightarrow> 's ScanMap
   \<Rightarrow> 's ScanMap \<times> go_error option \<times> effect list" where
  "CollectAndSend env c runtime clients previousScans =
     (let currentTimestamp = getTimestampNow (env_now env);
          (scans, err, calls1) = executeScans (ec_scanners c) previousScans runtime clients;
          errs = opt_list (map_option execute_failed err);
          (scans, ms, err, calls2) =
            convertScansToEDPMeasurements (env_ord env) (env_conv env) scans previousScans runtime;
          errs = errs @ opt_list (map_option convert_failed err);
          effs = map Metric calls1 @ map Metric calls2
      in if length ms = 0 then (scans, errors_join (errs @ [errNoMeasurementsSent]), effs)
         else
           let pl = newPayload (ri_RuntimeID runtime) (ri_SubAccountID runtime) (ri_ShootName runtime)
                      currentTimestamp ms;
               (err, effs') = sendPayload env (ecl_Config (ec_EDPClient c)) pl (ri_SubAccountID runtime);
               errs = errs @ opt_list (map_option send_failed err)
           in (scans, errors_join errs, effs @ effs'))"

text \<open>
  The interface \<open>CollectorSender\<close> of \<^verbatim>\<open>src/pkg/collector/interface.go\<close>, by which the workers call a collector, and the
  collector of this theory behind it.
\<close>

record ('cl, 's) CollectorSender =
  cs_CollectAndSend :: "Info \<Rightarrow> 'cl \<Rightarrow> 's ScanMap \<Rightarrow> 's ScanMap \<times> go_error option \<times> effect list"

definition edp_CollectorSender :: "'s edp_env \<Rightarrow> ('cl, 's) EdpCollector \<Rightarrow> ('cl, 's) CollectorSender" where
  "edp_CollectorSender env c = \<lparr>cs_CollectAndSend = CollectAndSend env c\<rparr>"

lemma edp_CollectorSender_sel [simp]: "cs_CollectAndSend (edp_CollectorSender env c) = CollectAndSend env c"
  by (simp add: edp_CollectorSender_def)

section \<open>Scanning\<close>

definition sampleInfo :: Info where
  "sampleInfo = \<lparr>ri_InstanceID = ''i'', ri_RuntimeID = ''r'', ri_SubAccountID = ''s'', ri_GlobalAccountID = ''g'',
                 ri_ShootName = ''shoot'', ri_ProviderType = ''aws''\<rparr>"

definition sampleEdpConfig :: EdpConfig where
  "sampleEdpConfig = \<lparr>edp_URL = ''u'', edp_Namespace = ''n'', edp_DataStreamName = ''d'', edp_DataStreamVersion = ''1'',
     edp_DataStreamEnv = ''e'', edp_Timeout = 1, edp_EventRetry = 3, edp_Token = ''t''\<rparr>"

text \<open>An environment in which every scan converts and EDP creates the event at the second attempt.\<close>

definition sampleEnv :: "nat edp_env" where
  "sampleEnv = \<lparr>env_retry = retry_ref, env_newRequest = \<lambda>_ _. None,
     env_httpDo = \<lambda>_ _ i. (if i = 0 then HttpResponse 500 (Inr []) else HttpResponse 201 (Inr []), 0),
     env_marshal = \<lambda>_. Inr ''event'', env_now = sampleTime,
     env_conv = \<lambda>_. (zeroEDP, None), env_ord = \<lambda>m. m\<rparr>"

text \<open>The freshest scan a scanner can offer: its own, or the one of the last successful cycle.\<close>

definition best_scan :: "'s ScanMap \<Rightarrow> Info \<Rightarrow> 'cl \<Rightarrow> ('cl, 's) Scanner \<Rightarrow> 's option" where
  "best_scan prev rt cl s = (case sc_Scan s rt cl of Inr scan \<Rightarrow> Some scan | Inl _ \<Rightarrow> map_of prev (sc_ID s))"

definition scan_errors :: "'s ScanMap \<Rightarrow> Info \<Rightarrow> 'cl \<Rightarrow> ('cl, 's) Scanner \<Rightarrow> go_error list" where
  "scan_errors prev rt cl s = (case sc_Scan s rt cl of Inr _ \<Rightarrow> []
     | Inl e \<Rightarrow> scan_failed (sc_ID s) e # (if map_of prev (sc_ID s) = None then [no_previous_scan (sc_ID s)] else []))"

definition scan_calls :: "'s ScanMap \<Rightarrow> Info \<Rightarrow> 'cl \<Rightarrow> ('cl, 's) Scanner \<Rightarrow> metric_call list" where
  "scan_calls prev rt cl s =
     RecordScan (\<not> isl (sc_Scan s rt cl)) (sc_ID s) rt
     # (if isl (sc_Scan s rt cl) \<and> map_of prev (sc_ID s) = None
        then [RecordScanConversion False (sc_ID s) EDPBackendName rt] else [])"

lemma executeScans_step_eq:
  "executeScans_step prev rt cl (cur, errs, calls) s =
     ((case best_scan prev rt cl s of None \<Rightarrow> cur | Some x \<Rightarrow> AList.update (sc_ID s) x cur),
      errs @ scan_errors prev rt cl s, calls @ scan_calls prev rt cl s)"
  by (auto simp: executeScans_step_def best_scan_def scan_errors_def scan_calls_def Let_def
      split: sum.split option.split)

lemma executeScans_foldl:
  "foldl (executeScans_step prev rt cl) (cur, errs, calls) ss =
     (foldl (\<lambda>m s. case best_scan prev rt cl s of None \<Rightarrow> m | Some x \<Rightarrow> AList.update (sc_ID s) x m) cur ss,
      errs @ concat (map (scan_errors prev rt cl) ss), calls @ concat (map (scan_calls prev rt cl) ss))"
  by (induction ss arbitrary: cur errs calls) (simp_all add: executeScans_step_eq)

lemma executeScans_assigned:
  assumes "distinct (map sc_ID scanners)"
  shows "executeScans scanners prev rt cl =
     (assigned sc_ID (best_scan prev rt cl) scanners,
      errors_join (concat (map (scan_errors prev rt cl) scanners)),
      concat (map (scan_calls prev rt cl) scanners))"
  using assms by (simp add: executeScans_def executeScans_foldl foldl_update_fresh)

lemma scan_errors_None: "scan_errors prev rt cl s = [] \<longleftrightarrow> \<not> isl (sc_Scan s rt cl)"
  by (auto simp: scan_errors_def split: sum.split)

text \<open>
  A scan cycle uses, for every scanner, the scan it has just made or, when scanning failed, the
  scan kept from the last successful cycle; a scanner with neither is left out. An error is reported
  if and only if some scanner failed, even when its previous scan stands in.
\<close>

theorem executeScans_fallback:
  assumes "distinct (map sc_ID scanners)"
  shows "let (cur, err, calls) = executeScans scanners prev rt cl
         in gm_wf cur \<and> fst ` set cur \<subseteq> sc_ID ` set scanners \<and>
            (\<forall>s \<in> set scanners. map_of cur (sc_ID s) = best_scan prev rt cl s) \<and>
            (err = None \<longleftrightarrow> (\<forall>s \<in> set scanners. \<not> isl (sc_Scan s rt cl)))"
  using assms by (auto simp: executeScans_assigned fst_assigned map_of_assigned scan_errors_None gm_wf_assigned)

theorem executeScans_fallback_witness:
  "let good = \<lparr>sc_ID = ''node'', sc_Scan = \<lambda>rt cl. Inr (5::nat)\<rparr>;
       bad = \<lparr>sc_ID = ''pvc'', sc_Scan = \<lambda>rt cl. Inl (ErrorString ''x'')\<rparr>;
       (cur, err, calls) = executeScans [good, bad] [(''pvc'', 7)] sampleInfo ()
   in map_of cur ''pvc'' = Some 7"
  using executeScans_fallback
    [of "[\<lparr>sc_ID = ''node'', sc_Scan = \<lambda>rt cl. Inr (5::nat)\<rparr>,
          \<lparr>sc_ID = ''pvc'', sc_Scan = \<lambda>rt cl. Inl (ErrorString ''x'')\<rparr>]" "[(''pvc'', 7)]" sampleInfo "()"]
  by (simp add: Let_def case_prod_beta best_scan_def)

section \<open>Conversion\<close>

definition converts :: "'s edp_conv \<Rightarrow> 's \<Rightarrow> bool" where
  "converts conv scan \<longleftrightarrow> snd (conv scan) = None"

text \<open>The scan that is billed for an entry: the current one, or the previous one if only that converts.\<close>

definition kept_scan :: "'s edp_conv \<Rightarrow> 's ScanMap \<Rightarrow> ScannerID \<times> 's \<Rightarrow> 's option" where
  "kept_scan conv prev entry =
     (if converts conv (snd entry) then Some (snd entry)
      else (case map_of prev (fst entry) of
              None \<Rightarrow> None | Some p \<Rightarrow> if converts conv p then Some p else None))"

definition conv_errors :: "'s edp_conv \<Rightarrow> 's ScanMap \<Rightarrow> ScannerID \<times> 's \<Rightarrow> go_error list" where
  "conv_errors conv prev entry =
     (case snd (conv (snd entry)) of None \<Rightarrow> []
      | Some err \<Rightarrow> conversion_failed (fst entry) err
          # (case map_of prev (fst entry) of None \<Rightarrow> [no_previous_scan (fst entry)]
             | Some p \<Rightarrow> (case snd (conv p) of None \<Rightarrow> [] | Some err \<Rightarrow> [previous_conversion_failed (fst entry) err])))"

definition conv_call :: "'s edp_conv \<Rightarrow> Info \<Rightarrow> ScannerID \<times> 's \<Rightarrow> metric_call" where
  "conv_call conv rt entry = RecordScanConversion (converts conv (snd entry)) (fst entry) EDPBackendName rt"

lemma convert_step_eq:
  "convert_step conv prev rt (cs, ms, errs, calls) entry =
     ((case kept_scan conv prev entry of None \<Rightarrow> cs | Some x \<Rightarrow> AList.update (fst entry) x cs),
      ms @ (case kept_scan conv prev entry of None \<Rightarrow> [] | Some x \<Rightarrow> [fst (conv x)]),
      errs @ conv_errors conv prev entry, calls @ [conv_call conv rt entry])"
  by (auto simp: convert_step_def kept_scan_def conv_errors_def conv_call_def converts_def Let_def
      split: prod.split option.split)

lemma convert_foldl:
  "foldl (convert_step conv prev rt) (cs, ms, errs, calls) es =
     (foldl (\<lambda>m e. case kept_scan conv prev e of None \<Rightarrow> m | Some x \<Rightarrow> AList.update (fst e) x m) cs es,
      ms @ map (\<lambda>e. fst (conv (snd e))) (assigned fst (kept_scan conv prev) es),
      errs @ concat (map (conv_errors conv prev) es), calls @ map (conv_call conv rt) es)"
  by (induction es arbitrary: cs ms errs calls) (auto simp: convert_step_eq split: option.split)

lemma convertScans_assigned:
  assumes "go_range ord" and "gm_wf cur"
  shows "convertScansToEDPMeasurements ord conv cur prev rt =
     (let kept = assigned fst (kept_scan conv prev) (ord cur)
      in (kept, map (\<lambda>e. fst (conv (snd e))) kept,
          errors_join (concat (map (conv_errors conv prev) (ord cur))), map (conv_call conv rt) (ord cur)))"
  using assms by (simp add: convertScansToEDPMeasurements_def convert_foldl foldl_update_fresh
      go_range.gm_wf_ord Let_def)

lemma conv_errors_None: "conv_errors conv prev e = [] \<longleftrightarrow> converts conv (snd e)"
  by (auto simp: conv_errors_def converts_def split: option.split)

lemma kept_converts: "kept_scan conv prev e = Some x \<Longrightarrow> converts conv x"
  by (auto simp: kept_scan_def split: if_splits option.splits)

lemma assigned_converts:
  "e \<in> set (assigned fst (kept_scan conv prev) es) \<Longrightarrow> converts conv (snd e)"
  by (induction es) (auto split: option.splits dest: kept_converts)

lemma map_of_kept:
  assumes "go_range ord" and "gm_wf cur"
  shows "map_of (assigned fst (kept_scan conv prev) (ord cur)) i =
           Option.bind (map_of cur i) (\<lambda>x. kept_scan conv prev (i, x))"
proof (cases "map_of cur i")
  case None
  then have "i \<notin> fst ` set (ord cur)" by (simp add: map_of_eq_None_iff go_range.set_ord [OF assms(1)])
  then have "i \<notin> fst ` set (assigned fst (kept_scan conv prev) (ord cur))"
    using fst_assigned [of fst "kept_scan conv prev" "ord cur"] by auto
  then have "map_of (assigned fst (kept_scan conv prev) (ord cur)) i = None"
    by (simp add: map_of_eq_None_iff)
  then show ?thesis by (simp only: None Option.bind.bind_lzero)
next
  case (Some x)
  then have "(i, x) \<in> set (ord cur)" by (simp add: go_range.set_ord [OF assms(1)] map_of_SomeD)
  then show ?thesis
    using Some map_of_assigned [of fst "ord cur" "(i, x)" "kept_scan conv prev"] assms
    by (simp add: go_range.gm_wf_ord)
qed

text \<open>
  Conversion keeps, for every scan, the scan itself when it converts and otherwise the previous
  scan of the same scanner when that one does; it emits exactly one measurement per kept scan, in
  whatever order the map is traversed, and reports an error if and only if some current scan did not
  convert.
\<close>

theorem convertScans_result:
  assumes "go_range ord" and "gm_wf cur"
  shows "let (kept, ms, err, calls) = convertScansToEDPMeasurements ord conv cur prev rt
         in gm_wf kept \<and> (\<forall>i. map_of kept i = Option.bind (map_of cur i) (\<lambda>x. kept_scan conv prev (i, x))) \<and>
            ms = map (\<lambda>e. fst (conv (snd e))) kept \<and> (\<forall>e \<in> set kept. converts conv (snd e)) \<and>
            (err = None \<longleftrightarrow> (\<forall>e \<in> set cur. converts conv (snd e)))"
  using assms
  by (auto simp: convertScans_assigned Let_def map_of_kept conv_errors_None go_range.set_ord
      go_range.gm_wf_ord gm_wf_assigned dest: assigned_converts)

theorem convertScans_result_witness:
  "let conv = (\<lambda>n::nat. (zeroEDP, if n = 0 then Some (ErrorString ''x'') else None));
       (kept, ms, err, calls) = convertScansToEDPMeasurements rev conv [(''node'', 0), (''pvc'', 2)] [(''node'', 7)] sampleInfo
   in map_of kept ''node'' = Some 7"
  using convertScans_result [OF range_rev.go_range_axioms, of "[(''node'', 0), (''pvc'', 2)]"
      "\<lambda>n::nat. (zeroEDP, if n = 0 then Some (ErrorString ''x'') else None)" "[(''node'', 7)]" sampleInfo]
  by (simp add: Let_def case_prod_beta kept_scan_def converts_def)

section \<open>A collection cycle\<close>

text \<open>The scans a cycle ends with, and the event built from them.\<close>

definition billed_scans :: "'s edp_env \<Rightarrow> ('cl, 's) EdpCollector \<Rightarrow> Info \<Rightarrow> 'cl \<Rightarrow> 's ScanMap \<Rightarrow> 's ScanMap" where
  "billed_scans env c rt cl prev =
     assigned fst (kept_scan (env_conv env) prev)
       (env_ord env (assigned sc_ID (best_scan prev rt cl) (ec_scanners c)))"

definition billing_event :: "'s edp_env \<Rightarrow> Info \<Rightarrow> 's ScanMap \<Rightarrow> payload" where
  "billing_event env rt scans =
     newPayload (ri_RuntimeID rt) (ri_SubAccountID rt) (ri_ShootName rt) (getTimestampNow (env_now env))
       (map (\<lambda>e. fst (env_conv env (snd e))) scans)"

definition cycle_errors ::
  "'s edp_env \<Rightarrow> ('cl, 's) EdpCollector \<Rightarrow> Info \<Rightarrow> 'cl \<Rightarrow> 's ScanMap \<Rightarrow> go_error list" where
  "cycle_errors env c rt cl prev =
     opt_list (map_option execute_failed
       (errors_join (concat (map (scan_errors prev rt cl) (ec_scanners c))))) @
     opt_list (map_option convert_failed
       (errors_join (concat (map (conv_errors (env_conv env) prev)
          (env_ord env (assigned sc_ID (best_scan prev rt cl) (ec_scanners c)))))))"

definition cycle_calls ::
  "'s edp_env \<Rightarrow> ('cl, 's) EdpCollector \<Rightarrow> Info \<Rightarrow> 'cl \<Rightarrow> 's ScanMap \<Rightarrow> metric_call list" where
  "cycle_calls env c rt cl prev =
     concat (map (scan_calls prev rt cl) (ec_scanners c)) @
     map (conv_call (env_conv env) rt) (env_ord env (assigned sc_ID (best_scan prev rt cl) (ec_scanners c)))"

lemma CollectAndSend_eq:
  assumes "distinct (map sc_ID (ec_scanners c))" and "go_range (env_ord env)"
  shows "CollectAndSend env c rt cl prev =
     (let scans = billed_scans env c rt cl prev; errs = cycle_errors env c rt cl prev;
          effs = map Metric (cycle_calls env c rt cl prev);
          sent = sendPayload env (ecl_Config (ec_EDPClient c)) (billing_event env rt scans) (ri_SubAccountID rt)
      in if scans = [] then (scans, errors_join (errs @ [errNoMeasurementsSent]), effs)
         else (scans, errors_join (errs @ opt_list (map_option send_failed (fst sent))), effs @ snd sent))"
  using assms
  by (simp add: CollectAndSend_def executeScans_assigned convertScans_assigned gm_wf_assigned Let_def
      billed_scans_def billing_event_def cycle_errors_def cycle_calls_def case_prod_beta)

lemma map_of_billed:
  assumes "distinct (map sc_ID (ec_scanners c))" and "go_range (env_ord env)" and "s \<in> set (ec_scanners c)"
  shows "map_of (billed_scans env c rt cl prev) (sc_ID s) =
           Option.bind (best_scan prev rt cl s) (\<lambda>x. kept_scan (env_conv env) prev (sc_ID s, x))"
  using assms by (simp add: billed_scans_def map_of_kept gm_wf_assigned map_of_assigned)

lemma fst_billed:
  assumes "go_range (env_ord env)"
  shows "fst ` set (billed_scans env c rt cl prev) \<subseteq> sc_ID ` set (ec_scanners c)"
proof -
  have "fst ` set (billed_scans env c rt cl prev)
      \<subseteq> fst ` set (assigned sc_ID (best_scan prev rt cl) (ec_scanners c))"
    unfolding billed_scans_def using fst_assigned go_range.set_ord [OF assms] by metis
  then show ?thesis using fst_assigned [of sc_ID "best_scan prev rt cl" "ec_scanners c"] by blast
qed

lemma billed_converts: "e \<in> set (billed_scans env c rt cl prev) \<Longrightarrow> converts (env_conv env) (snd e)"
  unfolding billed_scans_def by (rule assigned_converts)

lemma opt_list_Nil [simp]: "opt_list x = [] \<longleftrightarrow> x = None" "opt_list None = []"
  by (simp_all add: opt_list_def split: option.split)

lemma posts_sendPayload:
  "p \<in> set (posts (snd (sendPayload env c pl sub))) \<Longrightarrow>
     env_marshal env pl = Inr (snd p) \<and> edp_NewRequest (env_newRequest env) c sub = Inr (fst p)"
  by (auto simp: sendPayload_def edp_Send_posts case_prod_beta split: sum.splits prod.splits
      dest!: arg_cong [where f = "\<lambda>r. posts (snd r)"])

text \<open>
  C3: what a collection cycle bills. Each scanner contributes its fresh scan, or the previous scan
  when scanning or conversion failed and the previous scan converts, or nothing. The scans returned
  for the next cycle are exactly the billed ones, and each of them converts. When nothing can be
  billed nothing is posted; otherwise every post of the cycle carries the encoding of the one event
  aggregated from the billed scans, for the runtime's subaccount.
\<close>

theorem CollectAndSend_bills:
  assumes "distinct (map sc_ID (ec_scanners c))" and "go_range (env_ord env)"
  shows "let (scans, err, effs) = CollectAndSend env c rt cl prev
         in (\<forall>s \<in> set (ec_scanners c). map_of scans (sc_ID s) =
               Option.bind (best_scan prev rt cl s) (\<lambda>x. kept_scan (env_conv env) prev (sc_ID s, x))) \<and>
            fst ` set scans \<subseteq> sc_ID ` set (ec_scanners c) \<and>
            (\<forall>e \<in> set scans. converts (env_conv env) (snd e)) \<and>
            (scans = [] \<longrightarrow> posts effs = []) \<and>
            (\<forall>p \<in> set (posts effs). env_marshal env (billing_event env rt scans) = Inr (snd p) \<and>
               edp_NewRequest (env_newRequest env) (ecl_Config (ec_EDPClient c)) (ri_SubAccountID rt) = Inr (fst p))"
  unfolding CollectAndSend_eq [OF assms]
  by (simp add: Let_def map_of_billed [OF assms] fst_billed [OF assms(2)] billed_converts posts_sendPayload)
    (metis map_of_billed [OF assms] map_of.simps(1))

theorem CollectAndSend_bills_witness:
  "let node = \<lparr>sc_ID = ''node'', sc_Scan = \<lambda>rt cl. Inl (ErrorString ''x'')\<rparr>;
       env = sampleEnv;
       (scans, err, effs) = CollectAndSend env \<lparr>ec_EDPClient = edp_NewClient sampleEdpConfig sampleLogger, ec_scanners = [node]\<rparr>
                              sampleInfo () [(''node'', 7)]
   in map_of scans ''node'' = Some 7"
  using CollectAndSend_bills
    [of "\<lparr>ec_EDPClient = edp_NewClient sampleEdpConfig sampleLogger,
          ec_scanners = [\<lparr>sc_ID = ''node'', sc_Scan = \<lambda>rt cl. Inl (ErrorString ''x'')\<rparr>]\<rparr>"
        sampleEnv sampleInfo "()" "[(''node'', 7)]"]
  by (simp add: sampleEnv_def range_id.go_range_axioms Let_def case_prod_beta best_scan_def kept_scan_def
      converts_def)

text \<open>When an event is delivered: some attempt within the limit is answered 201.\<close>

definition delivered :: "'s edp_env \<Rightarrow> EdpConfig \<Rightarrow> payload \<Rightarrow> string \<Rightarrow> bool" where
  "delivered env c pl sub \<longleftrightarrow>
     (\<exists>body req i b. env_marshal env pl = Inr body \<and> edp_NewRequest (env_newRequest env) c sub = Inr req \<and>
        i < unat (edp_EventRetry c) \<and> fst (env_httpDo env req body i) = HttpResponse 201 b)"

lemma edp_Send_returns:
  assumes "retrier retryDo" and "0 < unat (edp_EventRetry c)"
  shows "fst (edp_Send retryDo c httpDo req body) = Inr st \<Longrightarrow> st = 201"
    and "\<not> isl (fst (edp_Send retryDo c httpDo req body))
           \<longleftrightarrow> (\<exists>i<unat (edp_EventRetry c). \<exists>b. fst (httpDo req body i) = HttpResponse 201 b)"
proof -
  let ?f = "\<lambda>i. fst (edp_attempt c httpDo req body i)"
  show "st = 201" if "fst (edp_Send retryDo c httpDo req body) = Inr st"
    using retrier.returned_last [OF assms(1), OF assms(2), of ?f st] that
    by (metis edp_Send_result(2) edp_attempt_outcome(2))
  have "\<not> isl (fst (edp_Send retryDo c httpDo req body)) \<longleftrightarrow> (\<exists>r. fst (retryDo (edp_EventRetry c) ?f) = Inr r)"
    by (metis edp_Send_result(1) isl_def sum.disc(2) sum.exhaust_sel)
  then show "\<not> isl (fst (edp_Send retryDo c httpDo req body))
        \<longleftrightarrow> (\<exists>i<unat (edp_EventRetry c). \<exists>b. fst (httpDo req body i) = HttpResponse 201 b)"
    using retrier.returned_iff [OF assms(1), OF assms(2), of ?f] by (simp add: edp_attempt_outcome(1))
qed

lemma sendPayload_None:
  assumes "retrier (env_retry env)" and "0 < unat (edp_EventRetry c)"
  shows "fst (sendPayload env c pl sub) = None \<longleftrightarrow> delivered env c pl sub"
proof (cases "env_marshal env pl")
  case (Inl err)
  then show ?thesis by (simp add: sendPayload_def delivered_def)
next
  case m: (Inr body)
  show ?thesis
  proof (cases "edp_NewRequest (env_newRequest env) c sub")
    case (Inl err)
    then show ?thesis using m by (simp add: sendPayload_def delivered_def)
  next
    case r: (Inr req)
    let ?send = "edp_Send (env_retry env) c (env_httpDo env) req body"
    have "fst (sendPayload env c pl sub) = None \<longleftrightarrow> \<not> isl (fst ?send)"
      using edp_Send_returns(1) [OF assms, of "env_httpDo env" req body]
      by (cases ?send; cases "fst ?send") (auto simp: sendPayload_def m r isSuccess_def)
    then show ?thesis
      using edp_Send_returns(2) [OF assms, of "env_httpDo env" req body] m r by (auto simp: delivered_def)
  qed
qed

lemma fresh_converts:
  "(\<exists>x. sc_Scan s rt cl = Inr x \<and> converts conv x) \<longleftrightarrow>
     \<not> isl (sc_Scan s rt cl) \<and> converts conv (projr (sc_Scan s rt cl))"
  by (cases "sc_Scan s rt cl") simp_all

lemma fresh_assigned:
  "\<forall>s \<in> set ss. \<not> isl (sc_Scan s rt cl) \<Longrightarrow>
     set (assigned sc_ID (best_scan prev rt cl) ss) = (\<lambda>s. (sc_ID s, projr (sc_Scan s rt cl))) ` set ss"
  by (induction ss) (auto simp: best_scan_def split: sum.splits)

lemma CollectAndSend_None:
  assumes "distinct (map sc_ID (ec_scanners c))" and "go_range (env_ord env)"
    and "retrier (env_retry env)" and "0 < unat (edp_EventRetry (ecl_Config (ec_EDPClient c)))"
  shows "fst (snd (CollectAndSend env c rt cl prev)) = None \<Longrightarrow>
           \<forall>s \<in> set (ec_scanners c). \<exists>x. sc_Scan s rt cl = Inr x \<and> converts (env_conv env) x"
    and "let (scans, err, effs) = CollectAndSend env c rt cl prev
         in (err = None \<longleftrightarrow>
              ec_scanners c \<noteq> [] \<and>
              (\<forall>s \<in> set (ec_scanners c). \<exists>x. sc_Scan s rt cl = Inr x \<and> converts (env_conv env) x) \<and>
              delivered env (ecl_Config (ec_EDPClient c)) (billing_event env rt scans) (ri_SubAccountID rt)) \<and>
            (err = None \<longrightarrow> (\<forall>s \<in> set (ec_scanners c). Inr (the (map_of scans (sc_ID s))) = sc_Scan s rt cl))"
proof -
  let ?scans = "billed_scans env c rt cl prev" and ?errs = "cycle_errors env c rt cl prev"
  let ?cur = "assigned sc_ID (best_scan prev rt cl) (ec_scanners c)"
  let ?ok = "\<forall>s \<in> set (ec_scanners c). \<exists>x. sc_Scan s rt cl = Inr x \<and> converts (env_conv env) x"
  have cur: "set ?cur = (\<lambda>s. (sc_ID s, projr (sc_Scan s rt cl))) ` set (ec_scanners c)"
    if "\<forall>s \<in> set (ec_scanners c). \<not> isl (sc_Scan s rt cl)"
    using that by (rule fresh_assigned)
  have errs: "?errs = [] \<longleftrightarrow> ?ok"
  proof -
    have "?errs = [] \<longleftrightarrow> (\<forall>s \<in> set (ec_scanners c). \<not> isl (sc_Scan s rt cl)) \<and>
                     (\<forall>e \<in> set ?cur. converts (env_conv env) (snd e))"
      by (auto simp: cycle_errors_def scan_errors_None conv_errors_None go_range.set_ord [OF assms(2)])
    moreover have "(\<forall>e \<in> set ?cur. converts (env_conv env) (snd e)) \<longleftrightarrow>
        (\<forall>s \<in> set (ec_scanners c). converts (env_conv env) (projr (sc_Scan s rt cl)))"
      if "\<forall>s \<in> set (ec_scanners c). \<not> isl (sc_Scan s rt cl)"
      unfolding cur [OF that] by simp
    ultimately show ?thesis unfolding fresh_converts by blast
  qed
  have fresh: "map_of ?scans (sc_ID s) = Some (projr (sc_Scan s rt cl))"
    if "?ok" "s \<in> set (ec_scanners c)" for s
    using that map_of_billed [OF assms(1,2) that(2), of rt cl prev]
    by (auto simp: best_scan_def kept_scan_def)
  have ne: "?scans \<noteq> []" if "?ok" "ec_scanners c \<noteq> []"
    using fresh [OF that(1), of "hd (ec_scanners c)"] that(2) by auto
  have fst: "ec_scanners c \<noteq> []" if "?scans \<noteq> []"
    using fst_billed [OF assms(2), of c rt cl prev] that by auto
  show main: "let (scans, err, effs) = CollectAndSend env c rt cl prev
      in (err = None \<longleftrightarrow> ec_scanners c \<noteq> [] \<and> ?ok \<and>
            delivered env (ecl_Config (ec_EDPClient c)) (billing_event env rt scans) (ri_SubAccountID rt)) \<and>
         (err = None \<longrightarrow> (\<forall>s \<in> set (ec_scanners c). Inr (the (map_of scans (sc_ID s))) = sc_Scan s rt cl))"
    unfolding CollectAndSend_eq [OF assms(1,2)]
    using errs fresh ne fst sendPayload_None [OF assms(3,4), of "billing_event env rt ?scans" "ri_SubAccountID rt"]
    by (auto simp: Let_def)
  show ?ok if "fst (snd (CollectAndSend env c rt cl prev)) = None"
    using main that by (simp add: Let_def case_prod_beta)
qed

text \<open>
  C11: a collection cycle reports no error exactly when every scanner scanned, every fresh scan
  converted, there was something to bill and EDP confirmed the event; the scans it then returns are
  exactly the fresh ones. The number of attempts to send is taken to be positive.
\<close>

theorem CollectAndSend_success:
  assumes "distinct (map sc_ID (ec_scanners c))" and "go_range (env_ord env)"
    and "retrier (env_retry env)" and "0 < unat (edp_EventRetry (ecl_Config (ec_EDPClient c)))"
  shows "let (scans, err, effs) = CollectAndSend env c rt cl prev
         in (err = None \<longleftrightarrow>
              ec_scanners c \<noteq> [] \<and>
              (\<forall>s \<in> set (ec_scanners c). \<exists>x. sc_Scan s rt cl = Inr x \<and> converts (env_conv env) x) \<and>
              delivered env (ecl_Config (ec_EDPClient c)) (billing_event env rt scans) (ri_SubAccountID rt)) \<and>
            (err = None \<longrightarrow> (\<forall>s \<in> set (ec_scanners c). Inr (the (map_of scans (sc_ID s))) = sc_Scan s rt cl))"
  using assms by (rule CollectAndSend_None(2))

lemma delivered_sample: "delivered sampleEnv sampleEdpConfig pl sub"
  unfolding delivered_def
  by (rule exI [of _ "''event''"], rule exI, rule exI [of _ "1::nat"])
    (simp add: sampleEnv_def sampleEdpConfig_def edp_NewRequest_def)

theorem CollectAndSend_success_witness:
  "let node = \<lparr>sc_ID = ''node'', sc_Scan = \<lambda>rt cl. Inr 5\<rparr>;
       (scans, err, effs) = CollectAndSend sampleEnv \<lparr>ec_EDPClient = edp_NewClient sampleEdpConfig sampleLogger, ec_scanners = [node]\<rparr>
                              sampleInfo () [(''node'', 7)]
   in err = None"
  using CollectAndSend_success
    [of "\<lparr>ec_EDPClient = edp_NewClient sampleEdpConfig sampleLogger, ec_scanners = [\<lparr>sc_ID = ''node'', sc_Scan = \<lambda>rt cl. Inr 5\<rparr>]\<rparr>"
        sampleEnv sampleInfo "()" "[(''node'', 7)]"]
  by (simp add: Let_def case_prod_beta delivered_sample)
    (simp add: sampleEnv_def sampleEdpConfig_def range_id.go_range_axioms ref_retry.retrier_axioms converts_def)

text \<open>Whatever the order and the identifiers, a cycle only returns scans that convert.\<close>

lemma set_update_subset: "set (AList.update k v m) \<subseteq> insert (k, v) (set m)"
  by (induction m) auto

lemma convert_foldl_converts:
  "\<forall>e \<in> set cs. converts conv (snd e) \<Longrightarrow>
   \<forall>e \<in> set (fst (foldl (convert_step conv prev rt) (cs, ms, errs, calls) es)). converts conv (snd e)"
proof (induction es arbitrary: cs ms errs calls)
  case (Cons e es)
  have "\<forall>x \<in> set (case kept_scan conv prev e of None \<Rightarrow> cs | Some x \<Rightarrow> AList.update (fst e) x cs). converts conv (snd x)"
    using Cons.prems set_update_subset [of "fst e" _ cs]
    by (auto split: option.split dest: kept_converts) (metis insertE kept_converts snd_conv subsetD)
  then show ?case using Cons.IH by (simp add: convert_step_eq)
qed simp

lemma CollectAndSend_converts:
  assumes "CollectAndSend env c rt cl prev = (scans, err, effs)" and "e \<in> set scans"
  shows "converts (env_conv env) (snd e)"
proof -
  let ?cur = "fst (executeScans (ec_scanners c) prev rt cl)"
  have "scans = fst (foldl (convert_step (env_conv env) prev rt) ([], [], [], []) (env_ord env ?cur))"
    using assms(1)
    by (auto simp: CollectAndSend_def convertScansToEDPMeasurements_def Let_def case_prod_beta split: if_splits)
  then show ?thesis using convert_foldl_converts [of "[]" "env_conv env" prev rt "[]" "[]" "[]" "env_ord env ?cur"] assms(2)
    by simp
qed

end
