(* ===== verification/NodeResource.thy ===== *)
theory NodeResource
  imports Resource CloudSpecs
begin

text \<open>
  \<^verbatim>\<open>src/pkg/resource/node\<close>: the nodes of a cluster. Each node's instance type label is looked up in
  the cloud specification; CPUs and memory are summed and the machine types counted. The machine
  types are listed by a \<open>range\<close> loop over a map, so in an order \<open>ord\<close> the language leaves open.
\<close>

section \<open>Model\<close>

definition nodeInstanceTypeLabel :: string where
  "nodeInstanceTypeLabel = ''node.kubernetes.io/instance-type''"

definition ErrUnknownVM :: go_error where
  "ErrUnknownVM = SentinelError ''unknown provider and node type combination''"

definition ErrNoNodesFound :: go_error where
  "ErrNoNodesFound = SentinelError ''no nodes found''"

text \<open>A node of the metadata list is its map of labels.\<close>

type_synonym node_labels = "(string, string) gomap"

record NodeScan =
  node_providerType :: string
  node_specs :: PublicCloudSpecs
  node_items :: "node_labels list"

definition node_type :: "node_labels \<Rightarrow> string" where
  "node_type labels =
     ToLower (case map_of labels nodeInstanceTypeLabel of None \<Rightarrow> [] | Some t \<Rightarrow> t)"

definition unknown_vm :: "string \<Rightarrow> string \<Rightarrow> go_error" where
  "unknown_vm provider nodeType =
     errorf_w [] ErrUnknownVM ('': provider: '' @ provider @ '', node: '' @ nodeType)"

text \<open>One pass of the loop over the nodes, on the measurement, the errors and the counts.\<close>

definition node_step ::
  "NodeScan \<Rightarrow> EDPMeasurement \<times> go_error list \<times> (string, int64) gomap \<Rightarrow> node_labels
   \<Rightarrow> EDPMeasurement \<times> go_error list \<times> (string, int64) gomap" where
  "node_step s st node =
     (case st of (edp, errs, vmTypes) \<Rightarrow>
       let nodeType = node_type node
       in (case GetFeature (node_specs s) (node_providerType s) nodeType of
             None \<Rightarrow> (edp, errs @ [unknown_vm (node_providerType s) nodeType], vmTypes)
           | Some vmFeature \<Rightarrow>
               (edp\<lparr>ProvisionedCPUs := f64_add (ProvisionedCPUs edp) (CpuCores vmFeature),
                    ProvisionedRAMGb := f64_add (ProvisionedRAMGb edp) (Memory vmFeature)\<rparr>,
                errs,
                AList.update nodeType
                  ((case map_of vmTypes nodeType of None \<Rightarrow> 0 | Some c \<Rightarrow> c) + 1) vmTypes)))"

definition node_EDP ::
  "((string, int64) gomap \<Rightarrow> (string, int64) gomap) \<Rightarrow> NodeScan edp_conv" where
  "node_EDP ord s =
     (let (edp, errs, vmTypes) = foldl (node_step s) (zeroEDP, [], []) (node_items s)
      in (edp\<lparr>VMTypes := VMTypes edp @
                map (\<lambda>(vmType, cnt). \<lparr>vm_Name = vmType, vm_Count = cnt\<rparr>) (ord vmTypes)\<rparr>,
          errors_join errs))"

definition node_UM :: "NodeScan \<Rightarrow> int64 \<Rightarrow> UMMeasurement \<times> go_error option" where
  "node_UM scan duration = (UMMeasurement, None)"

text \<open>\<open>listMeta client gvr\<close> is the answer of the cluster to \<open>client.Resource(gvr).List\<close>.\<close>

definition node_Scan ::
  "('meta \<Rightarrow> GroupVersionResource \<Rightarrow> go_error + node_labels list) \<Rightarrow> PublicCloudSpecs \<Rightarrow> Info
   \<Rightarrow> ('meta, 'core, 'vs, 'dyn) Interface \<Rightarrow> go_error + NodeScan" where
  "node_Scan listMeta specs runtime clients =
     (case listMeta (if_Metadata clients) \<lparr>gvr_Group = [], gvr_Version = ''v1'', gvr_Resource = ''nodes''\<rparr> of
        Inl err \<Rightarrow> Inl (errorf_w ''failed to list list: '' err [])
      | Inr items \<Rightarrow>
          if length items = 0 then Inl ErrNoNodesFound
          else Inr \<lparr>node_providerType = ri_ProviderType runtime, node_specs = specs,
                    node_items = items\<rparr>)"

definition node_scanner ::
  "('meta \<Rightarrow> GroupVersionResource \<Rightarrow> go_error + node_labels list) \<Rightarrow> PublicCloudSpecs
   \<Rightarrow> (('meta, 'core, 'vs, 'dyn) Interface, NodeScan) Scanner" where
  "node_scanner listMeta specs = \<lparr>sc_ID = ''node'', sc_Scan = node_Scan listMeta specs\<rparr>"

section \<open>The loop\<close>

definition node_feature :: "NodeScan \<Rightarrow> node_labels \<Rightarrow> Feature option" where
  "node_feature s n = GetFeature (node_specs s) (node_providerType s) (node_type n)"

definition known_nodes :: "NodeScan \<Rightarrow> node_labels list" where
  "known_nodes s = filter (\<lambda>n. node_feature s n \<noteq> None) (node_items s)"

text \<open>The count of a machine type among some nodes, as the map of counts has it.\<close>

definition counts_ok :: "string list \<Rightarrow> (string, int64) gomap \<Rightarrow> bool" where
  "counts_ok ts m \<longleftrightarrow> gm_wf m \<and>
     map_of m = (\<lambda>t. if t \<in> set ts then Some (of_nat (count_list ts t)) else None)"

lemma counts_ok_Nil: "counts_ok [] []"
  by (simp add: counts_ok_def fun_eq_iff)

lemma counts_ok_update:
  assumes "counts_ok ts m"
  shows "counts_ok (ts @ [t]) (AList.update t ((case map_of m t of None \<Rightarrow> 0 | Some c \<Rightarrow> c) + 1) m)"
  using assms
  by (auto simp: counts_ok_def fun_eq_iff map_of_update_apply)

lemma node_loop:
  assumes "counts_ok ts m"
  shows "\<exists>m'. counts_ok (ts @ map node_type (filter (\<lambda>n. node_feature s n \<noteq> None) ns)) m' \<and>
    foldl (node_step s) (edp, errs, m) ns =
      (edp\<lparr>ProvisionedCPUs := foldl f64_add (ProvisionedCPUs edp)
             (map CpuCores (List.map_filter (node_feature s) ns)),
           ProvisionedRAMGb := foldl f64_add (ProvisionedRAMGb edp)
             (map Memory (List.map_filter (node_feature s) ns))\<rparr>,
       errs @ map (\<lambda>n. unknown_vm (node_providerType s) (node_type n))
                (filter (\<lambda>n. node_feature s n = None) ns),
       m')"
  using assms
proof (induction ns arbitrary: ts m edp errs)
  case Nil
  then show ?case by auto
next
  case (Cons n ns)
  show ?case
  proof (cases "node_feature s n")
    case None
    then have "GetFeature (node_specs s) (node_providerType s) (node_type n) = None"
      by (simp add: node_feature_def)
    then have "node_step s (edp, errs, m) n = (edp, errs @ [unknown_vm (node_providerType s) (node_type n)], m)"
      by (simp add: node_step_def)
    with None Cons.IH [OF Cons.prems, of edp "errs @ [unknown_vm (node_providerType s) (node_type n)]"]
    show ?thesis by simp
  next
    case (Some f)
    then have "GetFeature (node_specs s) (node_providerType s) (node_type n) = Some f"
      by (simp add: node_feature_def)
    then have st: "node_step s (edp, errs, m) n =
        (edp\<lparr>ProvisionedCPUs := f64_add (ProvisionedCPUs edp) (CpuCores f),
             ProvisionedRAMGb := f64_add (ProvisionedRAMGb edp) (Memory f)\<rparr>, errs,
         AList.update (node_type n) ((case map_of m (node_type n) of None \<Rightarrow> 0 | Some c \<Rightarrow> c) + 1) m)"
      by (simp add: node_step_def Let_def)
    show ?thesis
      using Cons.IH [OF counts_ok_update [OF Cons.prems, of "node_type n"],
          of "edp\<lparr>ProvisionedCPUs := f64_add (ProvisionedCPUs edp) (CpuCores f),
                  ProvisionedRAMGb := f64_add (ProvisionedRAMGb edp) (Memory f)\<rparr>" errs] Some
      by (simp add: st)
  qed
qed

lemma node_EDP_parts:
  obtains m where "counts_ok (map node_type (known_nodes s)) m"
    and "node_EDP ord s =
      (zeroEDP\<lparr>VMTypes := map (\<lambda>(t, c). \<lparr>vm_Name = t, vm_Count = c\<rparr>) (ord m),
        ProvisionedCPUs := foldl f64_add (Fin 0) (map CpuCores (List.map_filter (node_feature s) (node_items s))),
        ProvisionedRAMGb := foldl f64_add (Fin 0) (map Memory (List.map_filter (node_feature s) (node_items s)))\<rparr>,
       errors_join (map (\<lambda>n. unknown_vm (node_providerType s) (node_type n))
                     (filter (\<lambda>n. node_feature s n = None) (node_items s))))"
  using node_loop [OF counts_ok_Nil, of s "node_items s" zeroEDP "[]"]
  by (auto simp: node_EDP_def known_nodes_def zeroEDP_def)

section \<open>Correctness\<close>

text \<open>
  C23: the machine types of a measurement are exactly the (lowered) instance types of the nodes the
  specification knows, each listed once with the number of nodes of that type, in whatever order
  the map is traversed.
\<close>

theorem node_EDP_machine_counts:
  assumes "go_range ord"
  shows "let vms = VMTypes (fst (node_EDP ord s)); ts = map node_type (known_nodes s)
         in distinct (map vm_Name vms) \<and>
            set vms = (\<lambda>t. \<lparr>vm_Name = t, vm_Count = of_nat (count_list ts t)\<rparr>) ` set ts"
proof -
  obtain m where m: "counts_ok (map node_type (known_nodes s)) m"
    and vms: "VMTypes (fst (node_EDP ord s)) = map (\<lambda>(t, c). \<lparr>vm_Name = t, vm_Count = c\<rparr>) (ord m)"
    by (rule node_EDP_parts [of s ord]) simp
  have wf: "gm_wf m" using m by (simp add: counts_ok_def)
  have "map vm_Name (VMTypes (fst (node_EDP ord s))) = map fst (ord m)"
    by (auto simp: vms)
  then have "distinct (map vm_Name (VMTypes (fst (node_EDP ord s))))"
    using wf go_range.gm_wf_ord [OF assms, of m] by simp
  moreover have "(t, c) \<in> set m \<longleftrightarrow> t \<in> node_type ` set (known_nodes s) \<and>
      c = of_nat (count_list (map node_type (known_nodes s)) t)" for t c
    using m wf map_of_eq_Some_iff [OF wf, of t c] by (auto simp: counts_ok_def split: if_splits)
  then have "set (VMTypes (fst (node_EDP ord s))) =
      (\<lambda>t. \<lparr>vm_Name = t, vm_Count = of_nat (count_list (map node_type (known_nodes s)) t)\<rparr>)
        ` set (map node_type (known_nodes s))"
    unfolding vms by (force simp: go_range.set_ord [OF assms])
  ultimately show ?thesis by (simp add: Let_def)
qed

text \<open>
  The conversion fails exactly when the specification does not know the instance type of some
  node, and then with \<open>ErrUnknownVM\<close>; a node without the label counts as one of the empty type.
\<close>

theorem node_EDP_error:
  "(snd (node_EDP ord s) = None \<longleftrightarrow> known_nodes s = node_items s) \<and>
   (case snd (node_EDP ord s) of None \<Rightarrow> True | Some e \<Rightarrow> err_is e ErrUnknownVM)"
proof -
  let ?es = "map (\<lambda>n. unknown_vm (node_providerType s) (node_type n))
                 (filter (\<lambda>n. node_feature s n = None) (node_items s))"
  have e: "snd (node_EDP ord s) = errors_join ?es"
    by (rule node_EDP_parts [of s ord]) simp
  have "known_nodes s = node_items s \<longleftrightarrow> ?es = []"
    by (auto simp: known_nodes_def filter_empty_conv filter_id_conv)
  moreover have "err_is x ErrUnknownVM" if "errors_join ?es = Some x" for x
    using that by (rule errors_join_is) (auto simp: unknown_vm_def ErrUnknownVM_def)
  ultimately show ?thesis by (simp add: e split: option.split)
qed

lemma map_filter_known: "List.map_filter (node_feature s) (node_items s) = map (the \<circ> node_feature s) (known_nodes s)"
  by (simp add: known_nodes_def List.map_filter_def)

text \<open>
  C24: CPUs and memory are summed without rounding error: when the cores (and the memory) of the known
  nodes are multiples of one power of two and the sums have at most 53 bits, the measurement holds
  the exact sums over the known nodes.
\<close>

theorem node_EDP_exact_sums:
  assumes "\<forall>n \<in> set (known_nodes s). 0 \<le> c n \<and> 0 \<le> m n \<and>
             CpuCores (the (node_feature s n)) = Fin (of_int (c n) * 2 powi e) \<and>
             Memory (the (node_feature s n)) = Fin (of_int (m n) * 2 powi e)"
    and "- 1074 \<le> e" and "e \<le> 970"
    and "(\<Sum>n\<leftarrow>known_nodes s. c n) \<le> 2 ^ 53" and "(\<Sum>n\<leftarrow>known_nodes s. m n) \<le> 2 ^ 53"
  shows "ProvisionedCPUs (fst (node_EDP ord s)) = Fin (of_int (\<Sum>n\<leftarrow>known_nodes s. c n) * 2 powi e) \<and>
         ProvisionedRAMGb (fst (node_EDP ord s)) = Fin (of_int (\<Sum>n\<leftarrow>known_nodes s. m n) * 2 powi e)"
proof -
  let ?k = "known_nodes s"
  have "ProvisionedCPUs (fst (node_EDP ord s)) = foldl f64_add (Fin 0) (map (\<lambda>n. CpuCores (the (node_feature s n))) ?k)"
    and "ProvisionedRAMGb (fst (node_EDP ord s)) = foldl f64_add (Fin 0) (map (\<lambda>n. Memory (the (node_feature s n))) ?k)"
    by (rule node_EDP_parts [of s ord], simp add: map_filter_known o_def)+
  then show ?thesis
    using f64_sum_map [of ?k c "\<lambda>n. CpuCores (the (node_feature s n))" e]
      f64_sum_map [of ?k m "\<lambda>n. Memory (the (node_feature s n))" e] assms by simp
qed

subsection \<open>A concrete cluster\<close>

text \<open>Two nodes of one type on AWS with two cores and eight GiB of memory each.\<close>

definition sample_specs :: PublicCloudSpecs where
  "sample_specs = \<lparr>pcs_Providers = \<lparr>pv_Azure = [], pv_AWS = [(''m5'', \<lparr>CpuCores = Fin 2, Memory = Fin 8\<rparr>)],
                    pv_GCP = [], pv_OpenStack = []\<rparr>, pcs_Redis = []\<rparr>"

definition sample_nodes :: NodeScan where
  "sample_nodes = \<lparr>node_providerType = ''aws'', node_specs = sample_specs,
                   node_items = [[(nodeInstanceTypeLabel, ''M5'')], [(nodeInstanceTypeLabel, ''m5'')]]\<rparr>"

lemma sample_node_types:
  "node_type [(nodeInstanceTypeLabel, ''M5'')] = ''m5''" "node_type [(nodeInstanceTypeLabel, ''m5'')] = ''m5''"
  by code_simp+

lemma sample_features:
  "node_feature sample_nodes [(nodeInstanceTypeLabel, ''M5'')] = Some \<lparr>CpuCores = Fin 2, Memory = Fin 8\<rparr>"
  "node_feature sample_nodes [(nodeInstanceTypeLabel, ''m5'')] = Some \<lparr>CpuCores = Fin 2, Memory = Fin 8\<rparr>"
  by (simp_all add: node_feature_def sample_node_types sample_nodes_def sample_specs_def
      GetFeature_def provider_names)

lemma sample_known: "known_nodes sample_nodes = [[(nodeInstanceTypeLabel, ''M5'')], [(nodeInstanceTypeLabel, ''m5'')]]"
proof -
  have "node_items sample_nodes = [[(nodeInstanceTypeLabel, ''M5'')], [(nodeInstanceTypeLabel, ''m5'')]]"
    by (simp add: sample_nodes_def)
  then show ?thesis by (simp add: known_nodes_def sample_features)
qed

theorem node_EDP_machine_counts_witness:
  "set (VMTypes (fst (node_EDP rev sample_nodes))) = {\<lparr>vm_Name = ''m5'', vm_Count = 2\<rparr>}"
  using node_EDP_machine_counts [OF range_rev.go_range_axioms, of sample_nodes]
  by (simp add: sample_known sample_node_types Let_def)

theorem node_EDP_exact_sums_witness:
  "ProvisionedCPUs (fst (node_EDP rev sample_nodes)) = Fin 4 \<and>
   ProvisionedRAMGb (fst (node_EDP rev sample_nodes)) = Fin 16"
  using node_EDP_exact_sums [of sample_nodes "\<lambda>_. 2" "\<lambda>_. 8" 0 rev]
  by (simp add: sample_known sample_features)

end
