(* ===== verification/PvcResource.thy ===== *)
theory PvcResource
  imports Resource
begin

text \<open>
  \<^verbatim>\<open>src/pkg/resource/pvc\<close>: persistent volume claims. A bound claim counts with its capacity in whole
  GiB; a claim of the NFS volumes of the cloud manager counts three times, with the capacity its
  label names if that can be parsed. Quantities of Kubernetes are a parameter: \<open>milliValue\<close> is
  \<open>Quantity.MilliValue\<close>, \<open>parseQuantity\<close> is \<open>resource.ParseQuantity\<close>.
\<close>

section \<open>Model\<close>

definition nfsLabels :: "(string, string) gomap" where
  "nfsLabels = [(''app.kubernetes.io/component'', ''cloud-manager''),
                (''app.kubernetes.io/part-of'', ''kyma''),
                (''app.kubernetes.io/managed-by'', ''cloud-manager'')]"

definition nfsCapacityLabel :: string where
  "nfsCapacityLabel = ''cloud-resources.kyma-project.io/nfsVolumeStorageCapacity''"

definition nfsPriceMultiplier :: int64 where
  "nfsPriceMultiplier = 3"

definition pvc_storageRoundingFactor :: rat where
  "pvc_storageRoundingFactor = 32"

definition pvc_GiB :: rat where
  "pvc_GiB = 2 ^ (10 * 3)"

datatype pvc_phase = ClaimBound | OtherPhase string

text \<open>\<open>pvc_Capacity\<close> is the quantity \<open>Status.Capacity.Storage()\<close> returns.\<close>

record 'q Pvc =
  pvc_Labels :: "(string, string) gomap"
  pvc_Phase :: pvc_phase
  pvc_Capacity :: 'q

text \<open>A missing key reads as the empty string.\<close>

definition hasAllLabels :: "(string, string) gomap \<Rightarrow> (string, string) gomap \<Rightarrow> bool" where
  "hasAllLabels has want =
     list_all (\<lambda>(k, v). (case map_of has k of None \<Rightarrow> [] | Some w \<Rightarrow> w) = v) want"

definition pvc_getVolumeRoundedToFactor :: "int64 \<Rightarrow> int64" where
  "pvc_getVolumeRoundedToFactor sz =
     int64_of_f64 (f64_mul_const (f64_ceil (f64_div_const (f64_of_int64 sz) pvc_storageRoundingFactor)) pvc_storageRoundingFactor)"

definition pvc_getSizeInGB :: "('q \<Rightarrow> int64) \<Rightarrow> 'q \<Rightarrow> int64" where
  "pvc_getSizeInGB milliValue q =
     (let milliVal = milliValue q
      in int64_of_f64 (f64_div_const (f64_div_const (f64_of_int64 milliVal) pvc_GiB) 1000))"

lemmas pvc_rounding = pvc_getVolumeRoundedToFactor_def [unfolded pvc_storageRoundingFactor_def]

lemma pvc_size:
  "pvc_getSizeInGB milliValue q =
     (let milliVal = milliValue q in int64_of_f64 (f64_div_const (f64_div_const (f64_of_int64 milliVal) (2 ^ 30)) 1000))"
  by (simp add: pvc_getSizeInGB_def pvc_GiB_def)

definition pvc_step ::
  "('q \<Rightarrow> int64) \<Rightarrow> (string \<Rightarrow> go_error + 'q) \<Rightarrow> EDPMeasurement \<Rightarrow> 'q Pvc \<Rightarrow> EDPMeasurement" where
  "pvc_step milliValue parseQuantity edp pvc =
     (if hasAllLabels (pvc_Labels pvc) nfsLabels then
        (if pvc_Phase pvc = ClaimBound then
           (let currPVC = pvc_getSizeInGB milliValue (pvc_Capacity pvc);
                currPVC = (case map_of (pvc_Labels pvc) nfsCapacityLabel of
                    None \<Rightarrow> currPVC
                  | Some sizeFromLabel \<Rightarrow>
                     (case parseQuantity sizeFromLabel of
                        Inl err \<Rightarrow> currPVC
                      | Inr quantityFromLabel \<Rightarrow> pvc_getSizeInGB milliValue quantityFromLabel));
                nfsPVCStorage = currPVC * nfsPriceMultiplier
            in add_volume nfsPVCStorage (pvc_getVolumeRoundedToFactor nfsPVCStorage) edp)
         else edp)
      else if pvc_Phase pvc = ClaimBound then
        (let currPVC = pvc_getSizeInGB milliValue (pvc_Capacity pvc)
         in add_volume currPVC (pvc_getVolumeRoundedToFactor currPVC) edp)
      else edp)"

text \<open>The list of errors of the method is never appended to, so the error is always nil.\<close>

definition pvc_EDP ::
  "('q \<Rightarrow> int64) \<Rightarrow> (string \<Rightarrow> go_error + 'q) \<Rightarrow> 'q Pvc list edp_conv" where
  "pvc_EDP milliValue parseQuantity pvcs =
     (foldl (pvc_step milliValue parseQuantity) zeroEDP pvcs, errors_join [])"

definition pvc_UM :: "'q Pvc list \<Rightarrow> int64 \<Rightarrow> UMMeasurement \<times> go_error option" where
  "pvc_UM scan duration = (UMMeasurement, None)"

text \<open>
  The scanner: \<open>listPVCs client namespace\<close> is the answer of the cluster to
  \<open>client.CoreV1().PersistentVolumeClaims(namespace).List\<close>.
\<close>

definition pvc_Scan ::
  "('core \<Rightarrow> string \<Rightarrow> go_error + 'q Pvc list) \<Rightarrow> Info \<Rightarrow> ('meta, 'core, 'vs, 'dyn) Interface \<Rightarrow> go_error + 'q Pvc list" where
  "pvc_Scan listPVCs runtime clients =
     (case listPVCs (if_K8s clients) NamespaceAll of
        Inl err \<Rightarrow> Inl (errorf_w ''failed to list pvcs: '' err '''')
      | Inr pvcs \<Rightarrow> Inr pvcs)"

definition pvc_scanner ::
  "('core \<Rightarrow> string \<Rightarrow> go_error + 'q Pvc list) \<Rightarrow> (('meta, 'core, 'vs, 'dyn) Interface, 'q Pvc list) Scanner" where
  "pvc_scanner listPVCs = \<lparr>sc_ID = ''pvc'', sc_Scan = pvc_Scan listPVCs\<rparr>"

section \<open>Sizes\<close>

text \<open>
  C26: rounding to the billing factor gives the least multiple of 32 that is not below the size, for
  every size up to \<open>2 ^ 53\<close>: no precision is lost in the floating-point computation.
\<close>

theorem pvc_rounding_least_multiple:
  assumes "\<bar>sint sz\<bar> \<le> 2 ^ 53"
  shows "let r = sint (pvc_getVolumeRoundedToFactor sz)
         in 32 dvd r \<and> sint sz \<le> r \<and> r < sint sz + 32"
proof -
  let ?r = "- 32 * (- sint sz div 32)"
  have eq: "sint sz \<le> ?r" "?r < sint sz + 32" by presburger+
  have "sint (word_of_int ?r :: int64) = ?r"
    by (rule sint_of_int_64) (use assms eq in \<open>simp add: abs_le_iff; linarith\<close>)+
  then have "sint (pvc_getVolumeRoundedToFactor sz) = ?r"
    by (simp only: pvc_rounding f64_round_up_32 [OF assms])
  with eq show ?thesis by (simp only: Let_def) simp
qed

theorem pvc_rounding_least_multiple_witness:
  "\<bar>sint (33 :: int64)\<bar> \<le> 2 ^ 53 \<and>
   (let r = sint (pvc_getVolumeRoundedToFactor 33) in 32 dvd r \<and> 33 \<le> r \<and> r < 33 + 32)"
  using pvc_rounding_least_multiple [of 33] by simp

lemma pvc_getSizeInGB_floor:
  assumes "0 \<le> sint (milliValue q)" and "sint (milliValue q) < 8192 * (1000 * 2 ^ 30)"
  shows "pvc_getSizeInGB milliValue q = word_of_int (sint (milliValue q) div (1000 * 2 ^ 30))"
proof -
  have "f64_of_int64 (milliValue q) = Fin (of_int (sint (milliValue q)))"
    by (rule f64_of_int64_exact) (use assms in simp)
  then show ?thesis
    unfolding pvc_size Let_def by (simp only: f64_div_gib_milli [OF assms])
qed

text \<open>
  C27: below 8192 GiB the size of a claim is its quantity divided by a GiB, rounded down: the three
  floating-point roundings of \<open>getSizeInGB\<close> never reach the next integer.
\<close>

theorem pvc_size_exact:
  assumes "0 \<le> sint (milliValue q)" and "sint (milliValue q) < 8192 * (1000 * 2 ^ 30)"
  shows "sint (pvc_getSizeInGB milliValue q) = sint (milliValue q) div (1000 * 2 ^ 30)"
proof -
  let ?m = "sint (milliValue q)"
  have d: "0 \<le> ?m div (1000 * 2 ^ 30)" "?m div (1000 * 2 ^ 30) \<le> 8192"
    using assms by simp_all
  have "sint (word_of_int (?m div (1000 * 2 ^ 30)) :: int64) = ?m div (1000 * 2 ^ 30)"
    by (rule sint_of_int_64) (use d in simp_all)
  then show ?thesis by (simp only: pvc_getSizeInGB_floor [of milliValue q, OF assms])
qed

theorem pvc_size_exact_witness:
  "sint (pvc_getSizeInGB (\<lambda>q. q) 32212254719999) = 29"
  using pvc_size_exact [of "\<lambda>q. q" 32212254719999] by simp

section \<open>Totals\<close>

text \<open>The GiB a bound claim is billed for, and what a claim contributes: nothing unless bound.\<close>

definition pvc_gb :: "('q \<Rightarrow> int64) \<Rightarrow> (string \<Rightarrow> go_error + 'q) \<Rightarrow> 'q Pvc \<Rightarrow> int64" where
  "pvc_gb milliValue parseQuantity pvc =
     (let stored = pvc_getSizeInGB milliValue (pvc_Capacity pvc);
          labelled = (case Option.bind (map_of (pvc_Labels pvc) nfsCapacityLabel)
                             (\<lambda>l. case parseQuantity l of Inl _ \<Rightarrow> None | Inr q \<Rightarrow> Some q) of
              None \<Rightarrow> stored | Some q \<Rightarrow> pvc_getSizeInGB milliValue q)
      in if hasAllLabels (pvc_Labels pvc) nfsLabels then 3 * labelled else stored)"

definition pvc_volume ::
  "('q \<Rightarrow> int64) \<Rightarrow> (string \<Rightarrow> go_error + 'q) \<Rightarrow> 'q Pvc \<Rightarrow> (int64 \<times> int64) option" where
  "pvc_volume milliValue parseQuantity pvc =
     (if pvc_Phase pvc \<noteq> ClaimBound then None
      else Some (pvc_gb milliValue parseQuantity pvc,
                 pvc_getVolumeRoundedToFactor (pvc_gb milliValue parseQuantity pvc)))"

lemma pvc_step_volume:
  "pvc_step milliValue parseQuantity edp pvc =
     (case pvc_volume milliValue parseQuantity pvc of
        None \<Rightarrow> edp | Some v \<Rightarrow> add_volume (fst v) (snd v) edp)"
  by (simp add: pvc_step_def pvc_volume_def pvc_gb_def Let_def nfsPriceMultiplier_def mult.commute
      split: option.split sum.split)

lemma pvc_EDP_volumes:
  "pvc_EDP milliValue parseQuantity pvcs =
     (zeroEDP\<lparr>edp_ProvisionedVolumes :=
        volumes_total (volumes_of (pvc_volume milliValue parseQuantity) pvcs)\<rparr>, None)"
proof -
  have "pvc_step milliValue parseQuantity
      = (\<lambda>e x. case pvc_volume milliValue parseQuantity x of
                None \<Rightarrow> e | Some v \<Rightarrow> add_volume (fst v) (snd v) e)"
    by (intro ext) (rule pvc_step_volume)
  then show ?thesis by (simp add: pvc_EDP_def foldl_add_volume) (simp add: zeroEDP_def)
qed

lemma volumes_of_pvc:
  "volumes_of (pvc_volume milliValue parseQuantity) pvcs =
     map (\<lambda>p. let gb = pvc_gb milliValue parseQuantity p in (gb, pvc_getVolumeRoundedToFactor gb))
         (filter (\<lambda>p. pvc_Phase p = ClaimBound) pvcs)"
  by (induction pvcs) (simp_all add: pvc_volume_def Let_def)

text \<open>
  C25: the measurement of a list of claims never carries an error, names no machine, and its volumes
  are the totals over the bound claims only: one count per bound claim, the sum of the sizes (three
  times the labelled or stored size for an NFS claim) and the sum of the sizes each rounded to the
  billing factor on its own.
\<close>

theorem pvc_EDP_totals:
  "pvc_EDP milliValue parseQuantity pvcs =
     (zeroEDP\<lparr>edp_ProvisionedVolumes :=
        (let bound = filter (\<lambda>p. pvc_Phase p = ClaimBound) pvcs;
             gb = pvc_gb milliValue parseQuantity
         in \<lparr>SizeGbTotal = (\<Sum>p\<leftarrow>bound. gb p), pvol_Count = of_nat (length bound),
             SizeGbRounded = (\<Sum>p\<leftarrow>bound. pvc_getVolumeRoundedToFactor (gb p))\<rparr>)\<rparr>, None)"
  by (simp add: pvc_EDP_volumes volumes_of_pvc volumes_total_def Let_def o_def)

lemma pvc_rounding_range:
  assumes "0 \<le> sint gb" and "sint gb \<le> 2 ^ 53"
  shows "sint gb \<le> sint (pvc_getVolumeRoundedToFactor gb)"
    and "sint (pvc_getVolumeRoundedToFactor gb) \<le> sint gb + 31"
proof -
  let ?r = "- 32 * (- sint gb div 32)"
  have r: "sint gb \<le> ?r" "?r \<le> sint gb + 31" by presburger+
  have "sint (word_of_int ?r :: int64) = ?r"
    by (rule sint_of_int_64) (use assms r in \<open>simp; linarith\<close>)+
  moreover have "\<bar>sint gb\<bar> \<le> 2 ^ 53" using assms by simp
  ultimately have "sint (pvc_getVolumeRoundedToFactor gb) = ?r"
    by (simp only: pvc_rounding f64_round_up_32)
  with r show "sint gb \<le> sint (pvc_getVolumeRoundedToFactor gb)"
    and "sint (pvc_getVolumeRoundedToFactor gb) \<le> sint gb + 31" by simp_all
qed

text \<open>
  What a bound claim holds: the quantity it is billed by, which for an NFS claim is that of its capacity label if
  this can be parsed, and how many times it counts.
\<close>

definition pvc_quantity :: "(string \<Rightarrow> go_error + 'q) \<Rightarrow> 'q Pvc \<Rightarrow> 'q" where
  "pvc_quantity parseQuantity pvc =
     (if hasAllLabels (pvc_Labels pvc) nfsLabels
      then (case map_of (pvc_Labels pvc) nfsCapacityLabel of
              None \<Rightarrow> pvc_Capacity pvc
            | Some l \<Rightarrow> (case parseQuantity l of Inl _ \<Rightarrow> pvc_Capacity pvc | Inr q \<Rightarrow> q))
      else pvc_Capacity pvc)"

definition pvc_times :: "'q Pvc \<Rightarrow> int" where
  "pvc_times pvc = (if hasAllLabels (pvc_Labels pvc) nfsLabels then 3 else 1)"

definition milliGiB :: int where
  "milliGiB = 1000 * 2 ^ 30"

lemma pvc_gb_quantity:
  "pvc_gb milliValue parseQuantity pvc =
     word_of_int (pvc_times pvc) * pvc_getSizeInGB milliValue (pvc_quantity parseQuantity pvc)"
  by (simp add: pvc_gb_def pvc_quantity_def pvc_times_def Let_def split: option.split sum.split)

lemma pvc_gb_exact:
  assumes "0 \<le> sint (milliValue (pvc_quantity parseQuantity pvc))"
    and "sint (milliValue (pvc_quantity parseQuantity pvc)) < 8192 * milliGiB"
  shows "sint (pvc_gb milliValue parseQuantity pvc) =
           pvc_times pvc * (sint (milliValue (pvc_quantity parseQuantity pvc)) div milliGiB)"
    and "0 \<le> sint (pvc_gb milliValue parseQuantity pvc)" and "sint (pvc_gb milliValue parseQuantity pvc) \<le> 3 * 8191"
proof -
  let ?d = "sint (milliValue (pvc_quantity parseQuantity pvc)) div milliGiB"
  have d: "0 \<le> ?d" "?d \<le> 8191" using assms by (simp_all add: milliGiB_def)
  then have r: "0 \<le> pvc_times pvc * ?d" "pvc_times pvc * ?d \<le> 3 * 8191" by (simp_all add: pvc_times_def)
  have "pvc_getSizeInGB milliValue (pvc_quantity parseQuantity pvc) = word_of_int ?d"
    using pvc_getSizeInGB_floor [of milliValue "pvc_quantity parseQuantity pvc"] assms by (simp add: milliGiB_def)
  then have "pvc_gb milliValue parseQuantity pvc = word_of_int (pvc_times pvc * ?d)" by (simp add: pvc_gb_quantity)
  moreover have "sint (word_of_int (pvc_times pvc * ?d) :: int64) = pvc_times pvc * ?d"
    by (rule sint_of_int_64) (use r in simp_all)
  ultimately show "sint (pvc_gb milliValue parseQuantity pvc) = pvc_times pvc * ?d"
    "0 \<le> sint (pvc_gb milliValue parseQuantity pvc)" "sint (pvc_gb milliValue parseQuantity pvc) \<le> 3 * 8191"
    using r by simp_all
qed

text \<open>Rounding down a list of amounts loses less than a unit of each.\<close>

lemma sum_floor_bounds:
  assumes "\<And>x. x \<in> set xs \<Longrightarrow> 0 \<le> t x" and "0 < (u :: int)"
  shows "u * (\<Sum>x\<leftarrow>xs. t x * (m x div u)) \<le> (\<Sum>x\<leftarrow>xs. t x * m x)"
    and "(\<Sum>x\<leftarrow>xs. t x * m x) \<le> u * ((\<Sum>x\<leftarrow>xs. t x * (m x div u)) + (\<Sum>x\<leftarrow>xs. t x))"
proof -
  have one: "u * (t x * (m x div u)) \<le> t x * m x" "t x * m x \<le> u * (t x * (m x div u) + t x)" if "x \<in> set xs" for x
  proof -
    have "u * (m x div u) \<le> m x" "m x \<le> u * (m x div u + 1)"
      using mult_div_mod_eq [of u "m x"] pos_mod_bound [OF assms(2), of "m x"] pos_mod_sign [OF assms(2), of "m x"]
      unfolding distrib_left by linarith+
    then have "t x * (u * (m x div u)) \<le> t x * m x" "t x * m x \<le> t x * (u * (m x div u + 1))"
      using assms(1) [OF that] by (simp_all add: mult_left_mono)
    then show "u * (t x * (m x div u)) \<le> t x * m x" "t x * m x \<le> u * (t x * (m x div u) + t x)"
      by (simp_all add: algebra_simps)
  qed
  show "u * (\<Sum>x\<leftarrow>xs. t x * (m x div u)) \<le> (\<Sum>x\<leftarrow>xs. t x * m x)"
    using sum_list_mono [of xs "\<lambda>x. u * (t x * (m x div u))"] one(1) by (simp add: sum_list_const_mult)
  show "(\<Sum>x\<leftarrow>xs. t x * m x) \<le> u * ((\<Sum>x\<leftarrow>xs. t x * (m x div u)) + (\<Sum>x\<leftarrow>xs. t x))"
    using sum_list_mono [of xs "\<lambda>x. t x * m x" "\<lambda>x. u * (t x * (m x div u) + t x)"] one(2)
    by (simp add: sum_list_const_mult sum_list_addf)
qed

text \<open>
  C28: what is billed against what is held. Let every bound claim hold less than 8192 GiB, an NFS claim counting
  three times and with the quantity of its label, and let there be fewer than \<open>2 ^ 48\<close> claims; the unit is a
  thousandth of a byte. Then every bound claim is counted, nothing wraps around, and the total is what the claims
  hold with each claim rounded down to whole GiB: never more than is held, and less by at most one GiB for
  each time a claim counts. The rounded size adds between nothing and 31 GiB per bound claim to the total.
\<close>

theorem pvc_billing_bounds:
  assumes "\<forall>p \<in> set pvcs. pvc_Phase p = ClaimBound \<longrightarrow>
             0 \<le> sint (milliValue (pvc_quantity parseQuantity p)) \<and>
             sint (milliValue (pvc_quantity parseQuantity p)) < 8192 * milliGiB"
    and "length pvcs < 2 ^ 48"
  shows "let v = edp_ProvisionedVolumes (fst (pvc_EDP milliValue parseQuantity pvcs));
             claims = filter (\<lambda>p. pvc_Phase p = ClaimBound) pvcs;
             held = (\<Sum>p\<leftarrow>claims. pvc_times p * sint (milliValue (pvc_quantity parseQuantity p)))
         in sint (pvol_Count v) = int (length claims) \<and>
            milliGiB * sint (SizeGbTotal v) \<le> held \<and>
            held \<le> milliGiB * (sint (SizeGbTotal v) + (\<Sum>p\<leftarrow>claims. pvc_times p)) \<and>
            sint (SizeGbTotal v) \<le> sint (SizeGbRounded v) \<and>
            sint (SizeGbRounded v) \<le> sint (SizeGbTotal v) + 31 * int (length claims)"
proof -
  let ?vs = "volumes_of (pvc_volume milliValue parseQuantity) pvcs"
  let ?claims = "filter (\<lambda>p. pvc_Phase p = ClaimBound) pvcs"
  let ?gb = "pvc_gb milliValue parseQuantity" and ?m = "\<lambda>p. sint (milliValue (pvc_quantity parseQuantity p))"
  have gb: "sint (?gb p) = pvc_times p * (?m p div milliGiB)" "0 \<le> sint (?gb p)" "sint (?gb p) \<le> 3 * 8191"
    if "p \<in> set ?claims" for p
    using that assms(1) pvc_gb_exact [of milliValue parseQuantity p] by auto
  have 1: "\<forall>v \<in> set ?vs. 0 \<le> sint (fst v) \<and> sint (fst v) \<le> sint (snd v) \<and> sint (snd v) \<le> sint (fst v) + 31"
    using gb(2,3) pvc_rounding_range by (fastforce simp: volumes_of_pvc Let_def)
  have len: "length ?claims < 2 ^ 48" using assms(2) by (meson le_less_trans length_filter_le)
  have "(\<Sum>v\<leftarrow>?vs. sint (fst v) + 31) \<le> (\<Sum>p\<leftarrow>?claims. 3 * 8191 + 31)"
    unfolding volumes_of_pvc by (simp add: Let_def o_def, rule sum_list_mono) (use gb(3) in fastforce)
  also have "\<dots> < 2 ^ 63" using len by (simp add: sum_list_triv)
  finally have 2: "(\<Sum>v\<leftarrow>?vs. sint (fst v) + 31) < 2 ^ 63" .
  note b = volumes_rounding_bounds [OF 1 2]
  have v: "edp_ProvisionedVolumes (fst (pvc_EDP milliValue parseQuantity pvcs)) = volumes_total ?vs"
    by (simp add: pvc_EDP_volumes)
  have total: "(\<Sum>v\<leftarrow>?vs. sint (fst v)) = (\<Sum>p\<leftarrow>?claims. pvc_times p * (?m p div milliGiB))"
    unfolding volumes_of_pvc by (simp add: Let_def o_def, rule arg_cong [where f = sum_list], rule map_cong)
      (use gb(1) in auto)
  have "sint (word_of_int (int (length ?claims)) :: int64) = int (length ?claims)"
    by (rule sint_of_int_64) (use len in simp_all)
  then have count: "sint (pvol_Count (volumes_total ?vs)) = int (length ?claims)"
    by (simp add: volumes_total_def volumes_of_pvc)
  have lenv: "length ?vs = length ?claims" by (simp add: volumes_of_pvc)
  have "0 \<le> pvc_times p" for p :: "'a Pvc" by (simp add: pvc_times_def)
  moreover have "0 < milliGiB" by (simp add: milliGiB_def)
  ultimately show ?thesis
    using b(3,4) sum_floor_bounds [of ?claims pvc_times milliGiB ?m]
    unfolding v Let_def b(1,2) total count lenv by blast
qed

text \<open>A claim of 20.5 GiB and a labelled NFS claim of 100 GiB.\<close>

definition samplePvcs :: "int64 Pvc list" where
  "samplePvcs = [\<lparr>pvc_Labels = [], pvc_Phase = ClaimBound, pvc_Capacity = 22011707392000\<rparr>,
     \<lparr>pvc_Labels = nfsLabels @ [(nfsCapacityLabel, ''100Gi'')], pvc_Phase = ClaimBound, pvc_Capacity = 0\<rparr>]"

theorem pvc_billing_bounds_witness:
  "let v = edp_ProvisionedVolumes (fst (pvc_EDP (\<lambda>q. q) (\<lambda>_. Inr 107374182400000) samplePvcs))
   in sint (pvol_Count v) = 2 \<and> milliGiB * sint (SizeGbTotal v) \<le> 344134254592000 \<and>
      344134254592000 \<le> milliGiB * (sint (SizeGbTotal v) + 4) \<and> sint (SizeGbTotal v) \<le> sint (SizeGbRounded v) \<and>
      sint (SizeGbRounded v) \<le> sint (SizeGbTotal v) + 62"
  using pvc_billing_bounds [of samplePvcs "\<lambda>q. q" "\<lambda>_. Inr 107374182400000"]
  by (simp add: samplePvcs_def pvc_quantity_def pvc_times_def milliGiB_def hasAllLabels_def nfsLabels_def nfsCapacityLabel_def Let_def)

end
