(* ===== verification/VscResource.thy ===== *)
theory VscResource
  imports Resource
begin

text \<open>
  \<^verbatim>\<open>src/pkg/resource/vsc\<close>: volume snapshot contents. A snapshot that is ready counts with its restore
  size; one that is ready without a restore size is an error of the whole measurement, whose other
  snapshots are still summed.
\<close>

section \<open>Model\<close>

record VscStatus =
  ReadyToUse :: "bool option"
  RestoreSize :: "int64 option"

record Vsc =
  vsc_Name :: string
  vsc_Status :: "VscStatus option"

definition ErrRestoreSizeNotSet :: go_error where
  "ErrRestoreSizeNotSet = SentinelError ''VolumeSnapshotContent: RestoreSize not set''"

definition vsc_storageRoundingFactor :: rat where
  "vsc_storageRoundingFactor = 32"

definition vsc_GiB :: rat where
  "vsc_GiB = 2 ^ (10 * 3)"

definition vsc_getSizeInGB :: "int64 \<Rightarrow> int64" where
  "vsc_getSizeInGB v = int64_of_f64 (f64_div_const (f64_of_int64 v) vsc_GiB)"

definition vsc_getVolumeRoundedToFactor :: "int64 \<Rightarrow> int64" where
  "vsc_getVolumeRoundedToFactor sz =
     int64_of_f64 (f64_mul_const (f64_ceil (f64_div_const (f64_of_int64 sz) vsc_storageRoundingFactor)) vsc_storageRoundingFactor)"

lemmas vsc_rounding = vsc_getVolumeRoundedToFactor_def [unfolded vsc_storageRoundingFactor_def]

lemma vsc_size: "vsc_getSizeInGB v = int64_of_f64 (f64_div_const (f64_of_int64 v) (2 ^ 30))"
  by (simp add: vsc_getSizeInGB_def vsc_GiB_def)

definition vsc_step ::
  "EDPMeasurement \<times> go_error list \<Rightarrow> Vsc \<Rightarrow> EDPMeasurement \<times> go_error list" where
  "vsc_step st vsc =
     (case st of (edp, errs) \<Rightarrow>
       (case vsc_Status vsc of
          None \<Rightarrow> (edp, errs)
        | Some status \<Rightarrow>
            if ReadyToUse status = Some True then
              (case RestoreSize status of
                 None \<Rightarrow> (edp, errs @ [errorf_w [] ErrRestoreSizeNotSet ('': '' @ vsc_Name vsc)])
               | Some restoreSize \<Rightarrow>
                   (let currVSC = vsc_getSizeInGB restoreSize
                    in (add_volume currVSC (vsc_getVolumeRoundedToFactor currVSC) edp, errs)))
            else (edp, errs)))"

definition vsc_EDP :: "Vsc list edp_conv" where
  "vsc_EDP vscs = (let (edp, errs) = foldl vsc_step (zeroEDP, []) vscs in (edp, errors_join errs))"

definition vsc_UM :: "Vsc list \<Rightarrow> int64 \<Rightarrow> UMMeasurement \<times> go_error option" where
  "vsc_UM scan duration = (UMMeasurement, None)"

text \<open>\<open>listVSCs client\<close> is the answer of the cluster to \<open>client.SnapshotV1().VolumeSnapshotContents().List\<close>.\<close>

definition vsc_Scan ::
  "('vs \<Rightarrow> go_error + Vsc list) \<Rightarrow> Info \<Rightarrow> ('meta, 'core, 'vs, 'dyn) Interface \<Rightarrow> go_error + Vsc list" where
  "vsc_Scan listVSCs runtime clients =
     (case listVSCs (if_VolumeSnapshot clients) of
        Inl err \<Rightarrow> Inl (errorf_w ''failed to list vscs: '' err '''')
      | Inr vscs \<Rightarrow> Inr vscs)"

definition vsc_scanner ::
  "('vs \<Rightarrow> go_error + Vsc list) \<Rightarrow> (('meta, 'core, 'vs, 'dyn) Interface, Vsc list) Scanner" where
  "vsc_scanner listVSCs = \<lparr>sc_ID = ''vsc'', sc_Scan = vsc_Scan listVSCs\<rparr>"

section \<open>Correctness\<close>

definition vsc_ready :: "Vsc \<Rightarrow> bool" where
  "vsc_ready v \<longleftrightarrow> (case vsc_Status v of None \<Rightarrow> False | Some s \<Rightarrow> ReadyToUse s = Some True)"

definition vsc_size :: "Vsc \<Rightarrow> int64 option" where
  "vsc_size v = Option.bind (vsc_Status v) RestoreSize"

definition vsc_volume :: "Vsc \<Rightarrow> (int64 \<times> int64) option" where
  "vsc_volume v = (if vsc_ready v
     then map_option (\<lambda>s. (vsc_getSizeInGB s, vsc_getVolumeRoundedToFactor (vsc_getSizeInGB s))) (vsc_size v)
     else None)"

definition vsc_errors :: "Vsc list \<Rightarrow> go_error list" where
  "vsc_errors vs = map (\<lambda>v. errorf_w [] ErrRestoreSizeNotSet ('': '' @ vsc_Name v))
                       (filter (\<lambda>v. vsc_ready v \<and> vsc_size v = None) vs)"

lemma vsc_step_parts:
  "vsc_step (edp, errs) v =
     ((case vsc_volume v of None \<Rightarrow> edp | Some x \<Rightarrow> add_volume (fst x) (snd x) edp),
      errs @ vsc_errors [v])"
  by (auto simp: vsc_step_def vsc_volume_def vsc_errors_def vsc_ready_def vsc_size_def Let_def
      split: option.splits)

lemma foldl_vsc_step:
  "foldl vsc_step (edp, errs) vs =
     (foldl (\<lambda>e x. case vsc_volume x of None \<Rightarrow> e | Some v \<Rightarrow> add_volume (fst v) (snd v) e) edp vs,
      errs @ vsc_errors vs)"
  by (induction vs arbitrary: edp errs) (simp_all add: vsc_step_parts vsc_errors_def)

text \<open>
  C31: the volumes of a list of snapshots are the totals over the ready snapshots that have a restore
  size, whatever happens to the others; the conversion fails exactly when some ready snapshot has no
  restore size, and then with \<open>ErrRestoreSizeNotSet\<close>.
\<close>

theorem vsc_EDP_totals:
  "fst (vsc_EDP vs) = zeroEDP\<lparr>edp_ProvisionedVolumes := volumes_total (volumes_of vsc_volume vs)\<rparr>
   \<and> (snd (vsc_EDP vs) = None \<longleftrightarrow> list_all (\<lambda>v. \<not> (vsc_ready v \<and> vsc_size v = None)) vs)
   \<and> (case snd (vsc_EDP vs) of None \<Rightarrow> True | Some e \<Rightarrow> err_is e ErrRestoreSizeNotSet)"
proof -
  have eq: "vsc_EDP vs = (zeroEDP\<lparr>edp_ProvisionedVolumes := volumes_total (volumes_of vsc_volume vs)\<rparr>,
                          errors_join (vsc_errors vs))"
    by (simp add: vsc_EDP_def foldl_vsc_step foldl_add_volume) (simp add: zeroEDP_def)
  have none: "vsc_errors vs = [] \<longleftrightarrow> list_all (\<lambda>v. \<not> (vsc_ready v \<and> vsc_size v = None)) vs"
    by (simp add: vsc_errors_def filter_empty_conv list_all_iff)
  have "err_is e ErrRestoreSizeNotSet" if "errors_join (vsc_errors vs) = Some e" for e
    using that by (rule errors_join_is) (auto simp: vsc_errors_def ErrRestoreSizeNotSet_def)
  then show ?thesis by (simp add: eq none split: option.split)
qed

text \<open>
  The size of a snapshot of at most \<open>2 ^ 53\<close> bytes is its restore size in whole GiB, rounded
  down, and the billed size is the least multiple of 32 above it.
\<close>

theorem vsc_size_exact:
  assumes "0 \<le> sint v" and "sint v \<le> 2 ^ 53"
  shows "sint (vsc_getSizeInGB v) = sint v div 2 ^ 30 \<and>
         sint (vsc_getVolumeRoundedToFactor (vsc_getSizeInGB v)) = 32 * ((sint v div 2 ^ 30 + 31) div 32)"
proof -
  let ?g = "sint v div 2 ^ 30"
  have g: "0 \<le> ?g" "?g \<le> 2 ^ 53"
    using assms zdiv_mono1 [OF assms(2), of "2 ^ 30"] by simp_all
  have "f64_of_int64 v = Fin (of_int (sint v))"
    by (rule f64_of_int64_exact) (use assms in simp)
  then have "vsc_getSizeInGB v = word_of_int ?g"
    unfolding vsc_size by (simp only: f64_div_gib [OF assms])
  moreover have "sint (word_of_int ?g :: int64) = ?g"
    by (rule sint_of_int_64) (use g in simp_all)
  ultimately have s: "sint (vsc_getSizeInGB v) = ?g" by (simp only:)
  have r: "- 32 * (- ?g div 32) = 32 * ((?g + 31) div 32)" by (rule round_up_32_eq)
  have "vsc_getVolumeRoundedToFactor (vsc_getSizeInGB v) = word_of_int (- 32 * (- ?g div 32))"
    unfolding vsc_rounding
    by (subst f64_round_up_32) (use g s in simp_all)
  moreover have "sint (word_of_int (32 * ((?g + 31) div 32)) :: int64) = 32 * ((?g + 31) div 32)"
    by (rule sint_of_int_64) (use g in \<open>simp; linarith\<close>)+
  ultimately show ?thesis using s r by (simp only: simp_thms)
qed

theorem vsc_size_exact_witness:
  "sint (vsc_getSizeInGB 42949672960) = 40 \<and>
   sint (vsc_getVolumeRoundedToFactor (vsc_getSizeInGB 42949672960)) = 64"
  using vsc_size_exact [of 42949672960] by simp

end
