(* ===== verification/RedisResource.thy ===== *)
theory RedisResource
  imports Resource CloudSpecs
begin

text \<open>
  \<^verbatim>\<open>src/pkg/resource/redis\<close>: the Redis instances of the cloud manager, one custom resource per
  hyperscaler. The scanner lists all three kinds; a kind whose resource definition is not installed
  counts as empty. The conversion prices each instance by its tier.
\<close>

section \<open>Model\<close>

definition ErrUnknownRedisTier :: go_error where
  "ErrUnknownRedisTier = SentinelError ''redis tier not defined''"

text \<open>A listed instance is its tier, \<open>Spec.RedisTier\<close>.\<close>

record RedisScan =
  redis_specs :: PublicCloudSpecs
  redis_aws :: "string list"
  redis_azure :: "string list"
  redis_gcp :: "string list"

definition listTiers :: "RedisScan \<Rightarrow> string list" where
  "listTiers s = (([] @ redis_aws s) @ redis_azure s) @ redis_gcp s"

definition redis_step ::
  "PublicCloudSpecs \<Rightarrow> EDPMeasurement \<times> go_error list \<Rightarrow> string \<Rightarrow> EDPMeasurement \<times> go_error list" where
  "redis_step specs st tier =
     (case st of (edp, errs) \<Rightarrow>
       (case GetRedisInfo specs tier of
          None \<Rightarrow> (edp, errs @ [errorf_w [] ErrUnknownRedisTier ('': '' @ tier)])
        | Some redisStorage \<Rightarrow>
            (add_volume (PriceStorageGB redisStorage) (PriceStorageGB redisStorage) edp, errs)))"

definition redis_EDP :: "RedisScan edp_conv" where
  "redis_EDP s =
     (let (edp, errs) = foldl (redis_step (redis_specs s)) (zeroEDP, []) (listTiers s)
      in (edp, errors_join errs))"

definition redis_UM :: "RedisScan \<Rightarrow> int64 \<Rightarrow> UMMeasurement \<times> go_error option" where
  "redis_UM scan duration = (UMMeasurement, None)"

subsection \<open>The scanner\<close>

text \<open>
  The dynamic client, the error predicate \<open>apierrors.IsNotFound\<close> and the conversion of the
  unstructured list through JSON are parameters.
\<close>

definition cloudResourcesGroup :: string where
  "cloudResourcesGroup = ''cloud-resources.kyma-project.io''"

definition cloudResourcesVersion :: string where
  "cloudResourcesVersion = ''v1beta1''"

definition awsRedisGVR :: GroupVersionResource where
  "awsRedisGVR = \<lparr>gvr_Group = cloudResourcesGroup, gvr_Version = cloudResourcesVersion, gvr_Resource = ''awsredisinstances''\<rparr>"

definition azureRedisGVR :: GroupVersionResource where
  "azureRedisGVR = \<lparr>gvr_Group = cloudResourcesGroup, gvr_Version = cloudResourcesVersion, gvr_Resource = ''azureredisinstances''\<rparr>"

definition gcpRedisGVR :: GroupVersionResource where
  "gcpRedisGVR = \<lparr>gvr_Group = cloudResourcesGroup, gvr_Version = cloudResourcesVersion, gvr_Resource = ''gcpredisinstances''\<rparr>"

definition convertUnstructuredListToRedisList ::
  "('u \<Rightarrow> go_error + string) \<Rightarrow> (string \<Rightarrow> go_error + string list) \<Rightarrow> 'u \<Rightarrow> go_error + string list" where
  "convertUnstructuredListToRedisList marshalJSON unmarshal unstructuredList =
     (case marshalJSON unstructuredList of
        Inl err \<Rightarrow> Inl (errorf_w ''failed to marshal unstructured list: '' err [])
      | Inr redisListBytes \<Rightarrow>
         (case unmarshal redisListBytes of
            Inl err \<Rightarrow> Inl (errorf_w ''failed to unmarshal unstructured list: '' err [])
          | Inr l \<Rightarrow> Inr l))"

text \<open>
  \<open>client namespace\<close> is the answer of the cluster to \<open>client.Namespace(namespace).List\<close>. A list that cannot be found leaves the target as it is: the empty list of a new scan.
\<close>

definition listRedisInstances ::
  "(go_error \<Rightarrow> bool) \<Rightarrow> ('u \<Rightarrow> go_error + string) \<Rightarrow> (string \<Rightarrow> go_error + string list)
   \<Rightarrow> (string \<Rightarrow> go_error + 'u) \<Rightarrow> go_error + string list" where
  "listRedisInstances isNotFound marshalJSON unmarshal client =
     (case client NamespaceAll of
        Inl err \<Rightarrow> if isNotFound err then Inr [] else Inl err
      | Inr unstructuredList \<Rightarrow> convertUnstructuredListToRedisList marshalJSON unmarshal unstructuredList)"

text \<open>The error of one listing, and its items, the empty list if it failed.\<close>

definition errs_of :: "go_error + 'a \<Rightarrow> go_error list" where
  "errs_of r = (case r of Inl e \<Rightarrow> [e] | Inr _ \<Rightarrow> [])"

definition items_of :: "go_error + 'a list \<Rightarrow> 'a list" where
  "items_of r = (case r of Inl _ \<Rightarrow> [] | Inr l \<Rightarrow> l)"

definition redis_Scan ::
  "(go_error \<Rightarrow> bool) \<Rightarrow> ('u \<Rightarrow> go_error + string) \<Rightarrow> (string \<Rightarrow> go_error + string list)
   \<Rightarrow> ('dyn \<Rightarrow> GroupVersionResource \<Rightarrow> string \<Rightarrow> go_error + 'u) \<Rightarrow> PublicCloudSpecs \<Rightarrow> Info
   \<Rightarrow> ('meta, 'core, 'vs, 'dyn) Interface \<Rightarrow> go_error + RedisScan" where
  "redis_Scan isNotFound marshalJSON unmarshal listDyn specs runtime clients =
     (let dynamicClient = if_Dynamic clients;
          aws = listRedisInstances isNotFound marshalJSON unmarshal (listDyn dynamicClient awsRedisGVR);
          errs = errs_of aws;
          azure = listRedisInstances isNotFound marshalJSON unmarshal (listDyn dynamicClient azureRedisGVR);
          errs = errs @ errs_of azure;
          gcp = listRedisInstances isNotFound marshalJSON unmarshal (listDyn dynamicClient gcpRedisGVR);
          errs = errs @ errs_of gcp
      in if length errs = 0
         then Inr \<lparr>redis_specs = specs, redis_aws = items_of aws, redis_azure = items_of azure,
                   redis_gcp = items_of gcp\<rparr>
         else Inl (JoinError errs))"

definition redis_scanner ::
  "(go_error \<Rightarrow> bool) \<Rightarrow> ('u \<Rightarrow> go_error + string) \<Rightarrow> (string \<Rightarrow> go_error + string list)
   \<Rightarrow> ('dyn \<Rightarrow> GroupVersionResource \<Rightarrow> string \<Rightarrow> go_error + 'u) \<Rightarrow> PublicCloudSpecs
   \<Rightarrow> (('meta, 'core, 'vs, 'dyn) Interface, RedisScan) Scanner" where
  "redis_scanner isNotFound marshalJSON unmarshal listDyn specs =
     \<lparr>sc_ID = ''redis'', sc_Scan = redis_Scan isNotFound marshalJSON unmarshal listDyn specs\<rparr>"

section \<open>Correctness\<close>

definition redis_volume :: "PublicCloudSpecs \<Rightarrow> string \<Rightarrow> (int64 \<times> int64) option" where
  "redis_volume specs tier =
     map_option (\<lambda>i. (PriceStorageGB i, PriceStorageGB i)) (GetRedisInfo specs tier)"

definition redis_errors :: "PublicCloudSpecs \<Rightarrow> string list \<Rightarrow> go_error list" where
  "redis_errors specs ts = map (\<lambda>t. errorf_w [] ErrUnknownRedisTier ('': '' @ t))
                               (filter (\<lambda>t. GetRedisInfo specs t = None) ts)"

lemma foldl_redis_step:
  "foldl (redis_step specs) (edp, errs) ts =
     (foldl (\<lambda>e x. case redis_volume specs x of None \<Rightarrow> e | Some v \<Rightarrow> add_volume (fst v) (snd v) e) edp ts,
      errs @ redis_errors specs ts)"
  by (induction ts arbitrary: edp errs)
    (auto simp: redis_step_def redis_volume_def redis_errors_def split: option.split)

lemma redis_EDP_eq:
  "redis_EDP s = (zeroEDP\<lparr>edp_ProvisionedVolumes :=
       volumes_total (volumes_of (redis_volume (redis_specs s)) (listTiers s))\<rparr>,
     errors_join (redis_errors (redis_specs s) (listTiers s)))"
  by (simp add: redis_EDP_def foldl_redis_step foldl_add_volume) (simp add: zeroEDP_def)

lemma sum_redis_volumes:
  "(\<Sum>v\<leftarrow>volumes_of (redis_volume specs) ts. snd v) = (\<Sum>v\<leftarrow>volumes_of (redis_volume specs) ts. fst v)"
  by (induction ts) (auto simp: redis_volume_def split: option.split)

text \<open>
  C29: the Redis instances of all three hyperscalers count with the storage price of their tier and
  without rounding, so the total and the rounded size agree; an instance of an unknown tier is left
  out of the totals and makes the conversion fail with \<open>ErrUnknownRedisTier\<close>, and nothing else does.
\<close>

theorem redis_EDP_totals:
  "let v = edp_ProvisionedVolumes (fst (redis_EDP s));
       infos = List.map_filter (GetRedisInfo (redis_specs s)) (redis_aws s @ redis_azure s @ redis_gcp s)
   in SizeGbTotal v = (\<Sum>i\<leftarrow>infos. PriceStorageGB i) \<and> SizeGbRounded v = SizeGbTotal v \<and>
      pvol_Count v = of_nat (length infos) \<and>
      (snd (redis_EDP s) = None \<longleftrightarrow> length infos = length (redis_aws s @ redis_azure s @ redis_gcp s)) \<and>
      (case snd (redis_EDP s) of None \<Rightarrow> True | Some e \<Rightarrow> err_is e ErrUnknownRedisTier)"
proof -
  let ?g = "GetRedisInfo (redis_specs s)" and ?ts = "redis_aws s @ redis_azure s @ redis_gcp s"
  have ts: "listTiers s = ?ts" by (simp add: listTiers_def)
  have vols: "volumes_of (redis_volume (redis_specs s)) xs
      = map (\<lambda>i. (PriceStorageGB i, PriceStorageGB i)) (List.map_filter ?g xs)" for xs
    by (induction xs) (auto simp: redis_volume_def split: option.split)
  have "length (List.map_filter ?g xs) + length (redis_errors (redis_specs s) xs) = length xs" for xs
    by (induction xs) (auto simp: redis_errors_def split: option.split)
  then have none: "redis_errors (redis_specs s) ?ts = [] \<longleftrightarrow> length (List.map_filter ?g ?ts) = length ?ts"
    by (metis add.right_neutral add_left_cancel length_0_conv)
  have "err_is e ErrUnknownRedisTier" if "errors_join (redis_errors (redis_specs s) ?ts) = Some e" for e
    using that by (rule errors_join_is) (auto simp: redis_errors_def ErrUnknownRedisTier_def)
  then show ?thesis
    unfolding redis_EDP_eq ts vols Let_def
    by (simp only: fst_conv snd_conv errors_join_None none)
      (simp add: volumes_total_def o_def split: option.split)
qed

text \<open>
  What a scan makes of the answer to one list call, in words of the answer alone. A list counts if it can be
  written as JSON and read back; a kind that is not found counts as an empty list. Any other error of the call
  is passed on as it is, an error of the conversion is wrapped.
\<close>

definition redis_listed ::
  "(go_error \<Rightarrow> bool) \<Rightarrow> ('u \<Rightarrow> go_error + string) \<Rightarrow> (string \<Rightarrow> go_error + string list)
   \<Rightarrow> go_error + 'u \<Rightarrow> string list \<Rightarrow> bool" where
  "redis_listed isNotFound marshalJSON unmarshal answer tiers \<longleftrightarrow>
     (\<exists>e. answer = Inl e \<and> isNotFound e \<and> tiers = []) \<or>
     (\<exists>u doc. answer = Inr u \<and> marshalJSON u = Inr doc \<and> unmarshal doc = Inr tiers)"

definition redis_refused ::
  "(go_error \<Rightarrow> bool) \<Rightarrow> ('u \<Rightarrow> go_error + string) \<Rightarrow> (string \<Rightarrow> go_error + string list)
   \<Rightarrow> go_error + 'u \<Rightarrow> go_error \<Rightarrow> bool" where
  "redis_refused isNotFound marshalJSON unmarshal answer err \<longleftrightarrow>
     (answer = Inl err \<and> \<not> isNotFound err) \<or>
     (\<exists>u e. answer = Inr u \<and> marshalJSON u = Inl e \<and> err = errorf_w ''failed to marshal unstructured list: '' e []) \<or>
     (\<exists>u doc e. answer = Inr u \<and> marshalJSON u = Inr doc \<and> unmarshal doc = Inl e \<and>
        err = errorf_w ''failed to unmarshal unstructured list: '' e [])"

lemma listRedisInstances_iff:
  "listRedisInstances isNotFound marshalJSON unmarshal client = Inr tiers \<longleftrightarrow>
     redis_listed isNotFound marshalJSON unmarshal (client '''') tiers"
  "listRedisInstances isNotFound marshalJSON unmarshal client = Inl err \<longleftrightarrow>
     redis_refused isNotFound marshalJSON unmarshal (client '''') err"
  by (auto simp: listRedisInstances_def redis_listed_def redis_refused_def convertUnstructuredListToRedisList_def
      NamespaceAll_def split: sum.splits)

text \<open>
  C30: the scan asks for the three kinds in all namespaces. It succeeds exactly when each of the three answers is
  a list that can be converted or says that the kind is not found, which counts as an empty list, and then it has
  the instances of the three lists. It fails exactly when an answer is neither, and its error joins one error per
  such answer in the order AWS, Azure, GCP: the error of the call itself, or that of the conversion, wrapped.
\<close>

theorem redis_Scan_result:
  "let answer = (\<lambda>k. listDyn (if_Dynamic cl) k '''');
       listed = (\<lambda>k. redis_listed isNotFound marshalJSON unmarshal (answer k));
       errors = (\<lambda>k es. (es = [] \<and> (\<exists>ts. listed k ts)) \<or>
                   (\<exists>e. es = [e] \<and> redis_refused isNotFound marshalJSON unmarshal (answer k) e));
       result = redis_Scan isNotFound marshalJSON unmarshal listDyn specs rt cl
   in (result = Inr scan \<longleftrightarrow> redis_specs scan = specs \<and> listed awsRedisGVR (redis_aws scan) \<and>
         listed azureRedisGVR (redis_azure scan) \<and> listed gcpRedisGVR (redis_gcp scan)) \<and>
      (result = Inl err \<longleftrightarrow> (\<exists>aws azure gcp. errors awsRedisGVR aws \<and> errors azureRedisGVR azure \<and>
         errors gcpRedisGVR gcp \<and> aws @ azure @ gcp \<noteq> [] \<and> err = JoinError (aws @ azure @ gcp)))"
proof -
  let ?l = "\<lambda>k. listRedisInstances isNotFound marshalJSON unmarshal (listDyn (if_Dynamic cl) k)"
  have errs: "(es = [] \<and> (\<exists>ts. ?l k = Inr ts)) \<or> (\<exists>e. es = [e] \<and> ?l k = Inl e) \<longleftrightarrow> es = errs_of (?l k)" for k es
    by (cases "?l k") (auto simp: errs_of_def)
  show ?thesis
    unfolding Let_def listRedisInstances_iff [symmetric] errs
    by (cases "?l awsRedisGVR"; cases "?l azureRedisGVR"; cases "?l gcpRedisGVR"; cases scan)
      (auto simp: redis_Scan_def Let_def errs_of_def items_of_def)
qed

end
