(* ===== verification/Kubeconfig.thy ===== *)
theory Kubeconfig
  imports Metrics
begin

text \<open>
  \<^verbatim>\<open>src/pkg/runtime/kubeconfigprovider/kubeconfig.go\<close> and \<^verbatim>\<open>metrics.go\<close>: the provider of kubeconfigs,
  a cache with expiring entries (\<^verbatim>\<open>github.com/jellydator/ttlcache\<close>) over the secrets of the control
  plane. Log lines are left out. A call of \<open>rand.Int63n\<close> with an argument that is not positive panics;
  a panic is the value \<open>None\<close>.
\<close>

section \<open>The expiring cache\<close>

text \<open>
  A loader gets the cache and the missing key, and returns the item to hand out, if any, with the
  cache it has changed; or it panics. A cache is made with options, which are functions on the defaults.
\<close>

type_synonym 't ttl_loader = "'t \<Rightarrow> string \<Rightarrow> (string option \<times> 't) option"

record ttl_options =
  to_ttl :: int64
  to_touchOnHit :: bool

definition defaultOptions :: ttl_options where
  "defaultOptions = \<lparr>to_ttl = 0, to_touchOnHit = True\<rparr>"

definition WithTTL :: "int64 \<Rightarrow> ttl_options \<Rightarrow> ttl_options" where
  "WithTTL d opts = opts\<lparr>to_ttl := d\<rparr>"

definition WithDisableTouchOnHit :: "ttl_options \<Rightarrow> ttl_options" where
  "WithDisableTouchOnHit opts = opts\<lparr>to_touchOnHit := False\<rparr>"

record 't ttl_ops =
  tc_new :: "ttl_options \<Rightarrow> 't"
  tc_DeleteExpired :: "'t \<Rightarrow> 't"
  tc_Len :: "'t \<Rightarrow> nat"
  tc_Get :: "'t ttl_loader \<Rightarrow> 't \<Rightarrow> string \<Rightarrow> (string option \<times> 't) option"
  tc_Set :: "'t \<Rightarrow> string \<Rightarrow> string \<Rightarrow> int64 \<Rightarrow> 't"

text \<open>
  The contract as far as it does not speak of time: a hit hands out the live entry; a miss calls the loader. An
  entry set with a positive time to live is alive.
\<close>

locale ttlcache =
  fixes T :: "'t ttl_ops" and alive :: "'t \<Rightarrow> string \<Rightarrow> string option"
  assumes get_hit: "alive t k = Some v \<Longrightarrow> \<exists>t'. tc_Get T loader t k = Some (Some v, t') \<and> alive t' = alive t"
    and get_miss: "alive t k = None \<Longrightarrow> tc_Get T loader t k = loader t k"
    and alive_new: "alive (tc_new T opts) k = None"
    and alive_set: "0 < sint d \<Longrightarrow> alive (tc_Set T t k v d) k' = (if k' = k then Some v else alive t k')"
    and alive_deleteExpired: "alive (tc_DeleteExpired T t) k = alive t k"

text \<open>
  The contract with time. A live entry has a deadline, which is in the future; a hit may move it, unless the
  cache was made with \<open>WithDisableTouchOnHit\<close>. Time goes on in \<open>advance\<close> steps, in which the entries past
  their deadline cease to be alive; \<open>DeleteExpired\<close> leaves the live ones, and they are what \<open>Len\<close> counts then.
\<close>

locale timed_cache =
  fixes T :: "'t ttl_ops" and live :: "'t \<Rightarrow> string \<Rightarrow> (string \<times> int) option" and now :: "'t \<Rightarrow> int"
    and touching :: "'t \<Rightarrow> bool" and advance :: "'t \<Rightarrow> 't"
  assumes hit: "live t k = Some (v, e) \<Longrightarrow>
      \<exists>t' e'. tc_Get T loader t k = Some (Some v, t') \<and> live t' = (live t)(k \<mapsto> (v, e')) \<and>
        (\<not> touching t \<longrightarrow> e' = e) \<and> touching t' = touching t \<and> now t' = now t"
    and miss: "live t k = None \<Longrightarrow> tc_Get T loader t k = loader t k"
    and new: "live (tc_new T opts) k = None" "touching (tc_new T opts) = to_touchOnHit opts"
    and set_live: "0 < sint d \<Longrightarrow> live (tc_Set T t k v d) = (live t)(k \<mapsto> (v, now t + sint d))"
    and set_time: "touching (tc_Set T t k v d) = touching t" "now (tc_Set T t k v d) = now t"
    and deleteExpired: "live (tc_DeleteExpired T t) = live t" "touching (tc_DeleteExpired T t) = touching t"
      "now (tc_DeleteExpired T t) = now t" "tc_Len T (tc_DeleteExpired T t) = card (dom (live t))"
    and unexpired: "live t k = Some (v, e) \<Longrightarrow> now t < e"
    and advance: "now t \<le> now (advance t)" "touching (advance t) = touching t"
      "live (advance t) k = (case live t k of None \<Rightarrow> None | Some (v, e) \<Rightarrow> if now (advance t) < e then Some (v, e) else None)"

sublocale timed_cache \<subseteq> ttlcache T "\<lambda>t k. map_option fst (live t k)"
proof
  show "\<exists>t'. tc_Get T loader t k = Some (Some v, t') \<and>
      (\<lambda>k. map_option fst (live t' k)) = (\<lambda>k. map_option fst (live t k))"
    if a: "map_option fst (live t k) = Some v" for t k v loader
  proof -
    obtain e where e: "live t k = Some (v, e)" using a by auto
    then obtain t' e' where t': "tc_Get T loader t k = Some (Some v, t')" "live t' = (live t)(k \<mapsto> (v, e'))"
      using hit [OF e, of loader] by blast
    moreover have "(\<lambda>i. map_option fst (live t' i)) = (\<lambda>i. map_option fst (live t i))"
      unfolding fun_eq_iff t'(2) using e by simp
    ultimately show ?thesis by blast
  qed
qed (auto simp: miss new set_live deleteExpired)

text \<open>A reference cache: entries with their time to live and their deadline on a clock.\<close>

record ref_ttl =
  rt_entries :: "(string \<times> string \<times> int \<times> int) list"
  rt_now :: int
  rt_touch :: bool

definition rt_live :: "ref_ttl \<Rightarrow> string \<Rightarrow> (string \<times> int) option" where
  "rt_live t k = (case map_of (rt_entries t) k of
     Some (v, d, e) \<Rightarrow> if rt_now t < e then Some (v, e) else None | None \<Rightarrow> None)"

definition rt_Get :: "ref_ttl ttl_loader \<Rightarrow> ref_ttl \<Rightarrow> string \<Rightarrow> (string option \<times> ref_ttl) option" where
  "rt_Get loader t k =
     (case map_of (rt_entries t) k of
        Some (v, d, e) \<Rightarrow>
          if rt_now t < e
          then Some (Some v, if rt_touch t then t\<lparr>rt_entries := (k, v, d, max e (rt_now t + d)) # rt_entries t\<rparr> else t)
          else loader t k
      | None \<Rightarrow> loader t k)"

definition ref_ttl_ops :: "ref_ttl ttl_ops" where
  "ref_ttl_ops = \<lparr>tc_new = (\<lambda>opts. \<lparr>rt_entries = [], rt_now = 0, rt_touch = to_touchOnHit opts\<rparr>),
     tc_DeleteExpired = (\<lambda>t. t\<lparr>rt_entries := filter (\<lambda>e. rt_now t < snd (snd (snd e))) (AList.clearjunk (rt_entries t))\<rparr>),
     tc_Len = (\<lambda>t. length (rt_entries t)),
     tc_Get = rt_Get,
     tc_Set = (\<lambda>t k v d. t\<lparr>rt_entries := (k, v, sint d, rt_now t + sint d) # rt_entries t\<rparr>)\<rparr>"

definition rt_advance :: "ref_ttl \<Rightarrow> ref_ttl" where
  "rt_advance t = t\<lparr>rt_now := rt_now t + 1\<rparr>"

lemma map_of_filter_distinct:
  "gm_wf m \<Longrightarrow> map_of (filter P m) k = (case map_of m k of Some v \<Rightarrow> if P (k, v) then Some v else None | None \<Rightarrow> None)"
  by (induction m) (auto split: option.splits simp: image_iff map_of_eq_None_iff)

lemma rt_live_DeleteExpired: "rt_live (tc_DeleteExpired ref_ttl_ops t) = rt_live t"
  by (auto simp: fun_eq_iff ref_ttl_ops_def rt_live_def map_of_filter_distinct map_of_clearjunk split: option.split)

lemma rt_Len_DeleteExpired: "tc_Len ref_ttl_ops (tc_DeleteExpired ref_ttl_ops t) = card (dom (rt_live t))"
proof -
  let ?m = "filter (\<lambda>e. rt_now t < snd (snd (snd e))) (AList.clearjunk (rt_entries t))"
  have "distinct (map fst ?m)" by (simp add: distinct_map_filter)
  then have "card (fst ` set ?m) = length ?m" using distinct_card [of "map fst ?m"] by simp
  moreover have "dom (rt_live t) = fst ` set ?m"
  proof -
    have "map_of ?m k = (case map_of (rt_entries t) k of Some v \<Rightarrow> if rt_now t < snd (snd v) then Some v else None | None \<Rightarrow> None)" for k
      by (simp add: map_of_filter_distinct map_of_clearjunk cong: option.case_cong)
    then have "dom (rt_live t) = dom (map_of ?m)"
      by (auto simp: rt_live_def dom_def split: option.split)
    then show ?thesis by (simp only: dom_map_of_conv_image_fst)
  qed
  ultimately show ?thesis by (simp add: ref_ttl_ops_def)
qed

interpretation ref_ttl: timed_cache ref_ttl_ops rt_live rt_now rt_touch rt_advance
proof
  show "\<exists>t' e'. tc_Get ref_ttl_ops loader t k = Some (Some v, t') \<and> rt_live t' = (rt_live t)(k \<mapsto> (v, e')) \<and>
      (\<not> rt_touch t \<longrightarrow> e' = e) \<and> rt_touch t' = rt_touch t \<and> rt_now t' = rt_now t"
    if "rt_live t k = Some (v, e)" for t k v e loader
    using that by (cases "rt_touch t")
      (fastforce simp: rt_live_def ref_ttl_ops_def rt_Get_def fun_eq_iff split: option.splits if_splits)+
qed (auto simp: rt_live_DeleteExpired rt_Len_DeleteExpired,
     auto simp: rt_live_def rt_Get_def ref_ttl_ops_def rt_advance_def fun_eq_iff split: option.splits if_splits)

section \<open>Model\<close>

definition ErrNotFound :: go_error where
  "ErrNotFound = SentinelError ''item not found in cache''"

definition kcpNamespace :: string where
  "kcpNamespace = ''kcp-system''"

definition kubconfigSecretPrefix :: string where
  "kubconfigSecretPrefix = ''kubeconfig-''"

record 't KubeconfigProvider =
  kp_cache :: 't
  kp_ttl :: int64
  kp_name :: string

text \<open>\<open>secretsGet\<close> is the API call for a secret: its data.\<close>

definition getKubeConfigSecret ::
  "(string \<Rightarrow> string \<Rightarrow> go_error + (string, string) gomap) \<Rightarrow> string \<Rightarrow> go_error + (string, string) gomap" where
  "getKubeConfigSecret secretsGet secretResourceName =
     (case secretsGet kcpNamespace secretResourceName of Inl err \<Rightarrow> Inl err | Inr secret \<Rightarrow> Inr secret)"

definition quoted :: "string \<Rightarrow> string" where
  "quoted s = CHR 0x27 # s @ [CHR 0x27]"

definition getKubeConfigFromSecret ::
  "(string \<Rightarrow> string \<Rightarrow> go_error + (string, string) gomap) \<Rightarrow> string \<Rightarrow> go_error + string" where
  "getKubeConfigFromSecret secretsGet runtimeID =
     (let secretResourceName = kubconfigSecretPrefix @ runtimeID
      in case getKubeConfigSecret secretsGet secretResourceName of
           Inl err \<Rightarrow> Inl (errorf_w ''failed to get secret: '' err [])
         | Inr secret \<Rightarrow>
            (case map_of secret ''config'' of
               None \<Rightarrow> Inl (ErrorString (''kubeconfig-secret '' @ quoted secretResourceName @ '' for runtime '' @ quoted runtimeID
                              @ '' does not include the data-key '' @ quoted ''config''))
             | Some kubeconfig \<Rightarrow>
                if length kubeconfig = 0
                then Inl (ErrorString (''kubeconfig-secret '' @ quoted secretResourceName @ '' for runtime '' @ quoted runtimeID
                              @ '' includes an empty kubeconfig string''))
                else Inr kubeconfig))"

text \<open>The constant \<open>0.3\<close> as a \<open>float64\<close>.\<close>

definition jitterFactor :: rat where
  "jitterFactor = 5404319552844595 / 2 ^ 54"

text \<open>\<open>rand n\<close> is the number drawn by \<open>rand.Int63n(n)\<close> for a positive \<open>n\<close>.\<close>

definition getJitterTTL :: "(int64 \<Rightarrow> int64) \<Rightarrow> int64 \<Rightarrow> int64 option" where
  "getJitterTTL rand ttl =
     (if sint ttl < 3 * Minute then Some ttl
      else let buffer = int64_of_f64 (f64_mul_const (Minutes ttl) jitterFactor)
           in if sint buffer \<le> 0 then None
              else let jitter = rand buffer + int64_of_f64 (Minutes ttl)
                   in Some (jitter * word_of_int Minute))"

definition loaderFunc ::
  "'t ttl_ops \<Rightarrow> (string \<Rightarrow> string \<Rightarrow> go_error + (string, string) gomap) \<Rightarrow> (int64 \<Rightarrow> int64) \<Rightarrow> int64 \<Rightarrow> 't ttl_loader" where
  "loaderFunc T secretsGet rand ttl c key =
     (case getKubeConfigFromSecret secretsGet key of
        Inl err \<Rightarrow> Some (None, c)
      | Inr kubeconfig \<Rightarrow>
         (case getJitterTTL rand ttl of
            None \<Rightarrow> None
          | Some d \<Rightarrow> Some (Some kubeconfig, tc_Set T c key kubeconfig d)))"

definition kubeconfig_New :: "'t ttl_ops \<Rightarrow> int64 \<Rightarrow> string \<Rightarrow> 't KubeconfigProvider" where
  "kubeconfig_New T ttl name =
     \<lparr>kp_cache = tc_new T (WithDisableTouchOnHit (WithTTL ttl defaultOptions)), kp_ttl = ttl, kp_name = name\<rparr>"

definition recordMetrics :: "'t ttl_ops \<Rightarrow> 't KubeconfigProvider \<Rightarrow> metric_call" where
  "recordMetrics T k = SetGauge cacheSizeMetric [kp_name k] (f64_of_int64 (of_nat (tc_Len T (kp_cache k))))"

definition kubeconfig_Get ::
  "'t ttl_ops \<Rightarrow> (string \<Rightarrow> string \<Rightarrow> go_error + (string, string) gomap) \<Rightarrow> (int64 \<Rightarrow> int64)
   \<Rightarrow> 't KubeconfigProvider \<Rightarrow> string \<Rightarrow> ((go_error + string) \<times> 't KubeconfigProvider \<times> metric_call list) option" where
  "kubeconfig_Get T secretsGet rand k runtimeID =
     (let k = k\<lparr>kp_cache := tc_DeleteExpired T (kp_cache k)\<rparr>;
          calls = [recordMetrics T k]
      in case tc_Get T (loaderFunc T secretsGet rand (kp_ttl k)) (kp_cache k) runtimeID of
           None \<Rightarrow> None
         | Some (Some item, c) \<Rightarrow> Some (Inr item, k\<lparr>kp_cache := c\<rparr>, calls)
         | Some (None, c) \<Rightarrow> Some (Inl (errorf_w [] ErrNotFound ('': '' @ runtimeID)), k\<lparr>kp_cache := c\<rparr>, calls))"

section \<open>The jitter\<close>

lemma round_mag_le:
  assumes "x \<le> of_int n * 2 powi e" and "0 \<le> n" and "n \<le> 2 ^ 53" and "- 1074 \<le> e"
  shows "round_mag x \<le> of_int n * 2 powi e"
  using round_mag_mono [OF assms(1)] round_mag_exact [OF assms(2-4)] by simp

lemma round_mag_ge:
  assumes "of_int n * 2 powi e \<le> x" and "0 \<le> n" and "n \<le> 2 ^ 53" and "- 1074 \<le> e"
  shows "of_int n * 2 powi e \<le> round_mag x"
  using round_mag_mono [OF assms(1)] round_mag_exact [OF assms(2-4)] by simp

lemma f64_round_small: "0 \<le> x \<Longrightarrow> x \<le> of_int (2 ^ 53) \<Longrightarrow> f64_round x = Fin (round_mag x)"
  using round_mag_le [of x "2 ^ 53" 0] by (intro f64_round_nonneg) (auto simp: f64_limit_def)

lemma Minutes_eq:
  assumes "0 \<le> sint d" and "sint d < 2 ^ 62"
  shows "Minutes d = Fin (round_mag (of_int (sint d div Minute)
           + round_mag (of_int (sint d mod Minute) / of_int Minute)))"
proof -
  let ?m = "sint d div Minute" and ?n = "sint d mod Minute"
  have m: "0 \<le> ?m" "?m \<le> 2 ^ 32" using assms by (simp_all add: Minute_def)
  have n: "0 \<le> ?n" "?n < Minute" by (simp_all add: Minute_def)
  have fm: "f64_of_int64 (word_of_int ?m) = Fin (of_int ?m)"
    using m by (subst f64_of_int64_exact) simp_all
  have fn: "f64_of_int64 (word_of_int ?n) = Fin (of_int ?n)"
    using n by (subst f64_of_int64_exact) (simp_all add: Minute_def)
  let ?q = "rat_of_int ?n / of_int Minute"
  have q: "0 \<le> ?q" "?q \<le> 1" using n by (simp_all add: Minute_def)
  have r: "0 \<le> round_mag ?q" "round_mag ?q \<le> 1"
    using round_mag_nonneg round_mag_le [of ?q 1 0] q by simp_all
  have "f64_round ?q = Fin (round_mag ?q)" using q by (intro f64_round_small) simp_all
  moreover have "f64_round (of_int ?m + round_mag ?q) = Fin (round_mag (of_int ?m + round_mag ?q))"
  proof (rule f64_round_small)
    have "rat_of_int ?m \<le> 2 ^ 32" using m(2) by (metis of_int_le_iff of_int_numeral of_int_power)
    then show "of_int ?m + round_mag ?q \<le> of_int (2 ^ 53)" using r(2) by simp
  qed (use m r in simp)
  moreover have "go_quot (sint d) Minute = ?m" "go_rem (sint d) Minute = ?n"
    using assms(1) by (simp_all add: Minute_def)
  ultimately show ?thesis unfolding Minutes_def duration_in_def by (simp add: fm fn)
qed

text \<open>
  C39: with a time to live from 3 minutes up to, and not including, 3 minutes and 20 seconds the
  jitter buffer is rounded down to zero minutes, and loading a kubeconfig panics.
\<close>

theorem getJitterTTL_panics:
  assumes "180 * 10 ^ 9 \<le> sint ttl" and "sint ttl < 200 * 10 ^ 9"
  shows "getJitterTTL rand ttl = None"
proof -
  let ?n = "sint ttl mod Minute"
  have m: "sint ttl div Minute = 3" using assms by (simp add: Minute_def)
  then have n: "0 \<le> ?n" "?n \<le> 19999999999"
    using assms mult_div_mod_eq [of Minute "sint ttl"] by (simp_all add: Minute_def)
  let ?q = "rat_of_int ?n / of_int Minute"
  have "rat_of_int ?n \<le> 19999999999" using n(2) by (simp flip: of_int_le_iff)
  then have "?q \<le> of_int 366503875908 * 2 powi (- 40)" by (simp add: Minute_def power_int_minus field_simps)
  then have "round_mag ?q \<le> of_int 366503875908 * 2 powi (- 40)" by (rule round_mag_le) simp_all
  then have "3 + round_mag ?q \<le> of_int (3 * 2 ^ 40 + 366503875908) * 2 powi (- 40)"
    by (simp add: power_int_minus field_simps)
  then have M: "round_mag (3 + round_mag ?q) \<le> of_int (3 * 2 ^ 40 + 366503875908) * 2 powi (- 40)"
    (is "?M \<le> _") by (rule round_mag_le) simp_all
  have "?M * jitterFactor \<le> of_int (2 ^ 38 - 1) * 2 powi (- 38)"
    using mult_right_mono [OF M, of jitterFactor] by (simp add: jitterFactor_def power_int_minus field_simps)
  then have b: "round_mag (?M * jitterFactor) \<le> of_int (2 ^ 38 - 1) * 2 powi (- 38)" (is "?B \<le> _")
    by (rule round_mag_le) simp_all
  then have B: "0 \<le> ?B" "?B < 1" using round_mag_nonneg by (simp_all add: power_int_minus field_simps)
  have "0 \<le> ?M * jitterFactor" using round_mag_nonneg by (simp add: jitterFactor_def)
  moreover have "?M * jitterFactor \<le> of_int (2 ^ 53)"
    using \<open>?M * jitterFactor \<le> of_int (2 ^ 38 - 1) * 2 powi (- 38)\<close> by (simp add: power_int_minus field_simps)
  ultimately have "f64_mul_const (Minutes ttl) jitterFactor = Fin ?B"
    using Minutes_eq [of ttl] assms m by (simp add: f64_round_small)
  moreover have "int64_of_f64 (Fin ?B) = word_of_int \<lfloor>?B\<rfloor>"
    by (rule int64_of_f64_floor) (use B in simp_all)
  ultimately have "int64_of_f64 (f64_mul_const (Minutes ttl) jitterFactor) = word_of_int \<lfloor>?B\<rfloor>"
    by (simp only:)
  also have "\<lfloor>?B\<rfloor> = 0" using B by (intro floor_unique) simp_all
  finally show ?thesis using assms by (simp add: getJitterTTL_def Minute_def)
qed

theorem getJitterTTL_panics_witness: "getJitterTTL (\<lambda>n. 0) (word_of_int (180 * 10 ^ 9)) = None"
  by (rule getJitterTTL_panics) simp_all

lemma buffer_bounds:
  assumes "4 \<le> m" and "m \<le> 7 * 10 ^ 7" and ttl: "sint ttl = m * Minute"
  obtains b where "int64_of_f64 (f64_mul_const (Minutes ttl) jitterFactor) = word_of_int b"
    and "1 \<le> b" and "10 * b < 3 * m + 10" and "int64_of_f64 (Minutes ttl) = word_of_int m"
proof -
  have "sint ttl < 2 ^ 62" "0 \<le> sint ttl" using assms by (simp_all add: Minute_def)
  moreover have "sint ttl div Minute = m" "sint ttl mod Minute = 0" using ttl by (simp_all add: Minute_def)
  moreover have "round_mag (of_int m) = of_int m" using round_mag_exact [of m 0] assms by simp
  ultimately have M: "Minutes ttl = Fin (of_int m)" using Minutes_eq [of ttl] by simp
  let ?q = "rat_of_int m * jitterFactor" and ?k = "(3 * m + 9) div 10"
  have m4: "4 \<le> rat_of_int m" using assms(1) by (metis of_int_le_iff of_int_numeral)
  have q1: "1 \<le> ?q" using mult_right_mono [OF m4, of jitterFactor] by (simp add: jitterFactor_def)
  have "?q \<le> of_int m * (3 / 10)" using m4 by (intro mult_left_mono) (simp_all add: jitterFactor_def)
  also have "\<dots> \<le> of_int ?k"
  proof -
    have "3 * m \<le> 10 * ?k" by linarith
    then have "rat_of_int (3 * m) \<le> of_int (10 * ?k)" by (simp only: of_int_le_iff)
    then show ?thesis by simp
  qed
  finally have qk: "?q \<le> of_int ?k" .
  have k: "0 \<le> ?k" "?k \<le> 2 ^ 53" using assms by simp_all
  have r: "1 \<le> round_mag ?q" "round_mag ?q \<le> of_int ?k"
    using round_mag_ge [of 1 0 ?q] round_mag_le [of ?q ?k 0] q1 qk k by simp_all
  have small: "rat_of_int ?k \<le> of_int (2 ^ 53)" using k(2) by (simp only: of_int_le_iff)
  have "f64_mul_const (Minutes ttl) jitterFactor = Fin (round_mag ?q)"
    unfolding M f64_mul_const.simps by (rule f64_round_small) (use q1 qk small in linarith)+
  moreover have "int64_of_f64 (Fin (round_mag ?q)) = word_of_int \<lfloor>round_mag ?q\<rfloor>"
    by (rule int64_of_f64_floor) (use r small in \<open>simp_all del: of_int_power\<close>)
  moreover have "1 \<le> \<lfloor>round_mag ?q\<rfloor>" using r(1) by (simp add: le_floor_iff)
  moreover have "\<lfloor>round_mag ?q\<rfloor> \<le> ?k" using r(2) by (simp add: floor_le_iff)
  moreover have "int64_of_f64 (Minutes ttl) = word_of_int m"
    unfolding M by (rule int64_of_f64_int) (use assms in simp_all)
  ultimately show ?thesis using that [of "\<lfloor>round_mag ?q\<rfloor>"] by simp
qed

lemma jitter_whole_minutes:
  assumes "4 \<le> m" and "m \<le> 7 * 10 ^ 7" and "sint ttl = m * Minute"
    and "\<forall>n. 0 < sint n \<longrightarrow> 0 \<le> sint (rand n) \<and> sint (rand n) < sint n"
  shows "\<exists>d. getJitterTTL rand ttl = Some d \<and> sint ttl \<le> sint d \<and> 10 * sint d < 13 * sint ttl \<and> Minute dvd sint d"
proof -
  obtain b where b: "int64_of_f64 (f64_mul_const (Minutes ttl) jitterFactor) = word_of_int b"
    "1 \<le> b" "10 * b < 3 * m + 10" "int64_of_f64 (Minutes ttl) = word_of_int m"
    using buffer_bounds [OF assms(1-3)] .
  have sb: "sint (word_of_int b :: int64) = b" using b assms(2) by (intro sint_of_int_64) simp_all
  define r where "r = sint (rand (word_of_int b))"
  have r: "0 \<le> r" "r < b" using assms(4) [rule_format, of "word_of_int b"] sb b(2) by (simp_all add: r_def)
  have "rand (word_of_int b) = word_of_int r" by (simp add: r_def)
  then have d: "getJitterTTL rand ttl = Some (word_of_int ((r + m) * Minute))"
    using assms(1,3) b sb by (simp add: getJitterTTL_def Minute_def)
  have "sint (word_of_int ((r + m) * Minute) :: int64) = (r + m) * Minute"
    by (rule sint_of_int_64) (use r b assms(1,2) in \<open>simp_all add: Minute_def\<close>)
  then show ?thesis
    using d r b(3) assms(3) by (intro exI [of _ "word_of_int ((r + m) * Minute)"]) (simp add: Minute_def)
qed

text \<open>
  C38: a time to live of 4 or more whole minutes (up to 133 years) is never shortened by the jitter
  and extended by less than 30 percent, and the result is a whole number of minutes.
\<close>

theorem getJitterTTL_bounds:
  assumes "4 \<le> m" and "m \<le> 7 * 10 ^ 7" and "sint ttl = m * Minute"
    and "\<forall>n. 0 < sint n \<longrightarrow> 0 \<le> sint (rand n) \<and> sint (rand n) < sint n"
  shows "\<exists>d. getJitterTTL rand ttl = Some d \<and> sint ttl \<le> sint d \<and> 10 * sint d < 13 * sint ttl \<and> Minute dvd sint d"
  using assms by (rule jitter_whole_minutes)

theorem getJitterTTL_bounds_witness:
  "\<exists>d. getJitterTTL (\<lambda>n. n - 1) (word_of_int (600 * 10 ^ 9)) = Some d \<and> 600 * 10 ^ 9 \<le> sint d \<and> sint d < 780 * 10 ^ 9"
proof -
  have ttl: "sint (word_of_int (600 * 10 ^ 9) :: int64) = 10 * Minute"
    by (subst sint_of_int_64) (simp_all add: Minute_def)
  have "\<forall>n::int64. 0 < sint n \<longrightarrow> 0 \<le> sint (n - 1) \<and> sint (n - 1) < sint n"
  proof (intro allI impI)
    fix n :: int64
    assume n: "0 < sint n"
    have "sint n < 2 ^ 63" using sint_lt [of n] by simp
    then have "sint (word_of_int (sint n - 1) :: int64) = sint n - 1" using n by (intro sint_of_int_64) simp_all
    then show "0 \<le> sint (n - 1) \<and> sint (n - 1) < sint n" using n by simp
  qed
  from getJitterTTL_bounds [OF _ _ ttl this] show ?thesis unfolding ttl by (auto simp: Minute_def)
qed

section \<open>The provider\<close>

text \<open>The kubeconfig the control plane holds for a runtime: the entry of its secret, unless empty.\<close>

definition secret_config ::
  "(string \<Rightarrow> string \<Rightarrow> go_error + (string, string) gomap) \<Rightarrow> string \<Rightarrow> string option" where
  "secret_config secretsGet runtimeID =
     (case secretsGet ''kcp-system'' (''kubeconfig-'' @ runtimeID) of
        Inl _ \<Rightarrow> None
      | Inr content \<Rightarrow> (case map_of content ''config'' of None \<Rightarrow> None | Some kc \<Rightarrow> if kc = [] then None else Some kc))"

lemma getKubeConfigFromSecret_cases:
  "case secret_config secretsGet runtimeID of
     None \<Rightarrow> isl (getKubeConfigFromSecret secretsGet runtimeID)
   | Some kc \<Rightarrow> getKubeConfigFromSecret secretsGet runtimeID = Inr kc"
  by (simp add: secret_config_def getKubeConfigFromSecret_def getKubeConfigSecret_def kcpNamespace_def
      kubconfigSecretPrefix_def Let_def split: sum.split option.split)

text \<open>
  The life of a provider: it is made, asked for kubeconfigs, the control plane and the random numbers being
  different each time, and time goes by between the calls. The log notes, for every call, the time and what the
  control plane held for the runtime then.
\<close>

inductive provider_run ::
  "'t ttl_ops \<Rightarrow> ('t \<Rightarrow> int) \<Rightarrow> ('t \<Rightarrow> 't) \<Rightarrow> (int64 \<Rightarrow> int64) set \<Rightarrow> int64 \<Rightarrow> string
   \<Rightarrow> (int \<times> string \<times> string option) list \<Rightarrow> 't KubeconfigProvider \<Rightarrow> bool"
  for T now advance R ttl name where
  run_New: "provider_run T now advance R ttl name [] (kubeconfig_New T ttl name)"
| run_Get: "provider_run T now advance R ttl name calls k \<Longrightarrow> rand \<in> R \<Longrightarrow>
    kubeconfig_Get T secretsGet rand k i = Some (r, k', ms) \<Longrightarrow>
    provider_run T now advance R ttl name ((now (kp_cache k), i, secret_config secretsGet i) # calls) k'"
| run_time: "provider_run T now advance R ttl name calls k \<Longrightarrow>
    provider_run T now advance R ttl name calls (k\<lparr>kp_cache := advance (kp_cache k)\<rparr>)"

text \<open>What \<open>Get\<close> records: the number of live entries.\<close>

definition live_gauge :: "('t \<Rightarrow> string \<Rightarrow> (string \<times> int) option) \<Rightarrow> 't KubeconfigProvider \<Rightarrow> metric_call" where
  "live_gauge live k = SetGauge cacheSizeMetric [kp_name k] (f64_of_int64 (of_nat (card (dom (live (kp_cache k))))))"

context timed_cache
begin

lemma Get_hit:
  assumes "live (kp_cache k) i = Some (v, e)" and "\<not> touching (kp_cache k)"
  shows "\<exists>c. kubeconfig_Get T secretsGet rand k i = Some (Inr v, k\<lparr>kp_cache := c\<rparr>, [live_gauge live k]) \<and>
    live c = live (kp_cache k) \<and> \<not> touching c \<and> now c = now (kp_cache k)"
proof -
  let ?c = "tc_DeleteExpired T (kp_cache k)"
  have "live ?c i = Some (v, e)" using assms(1) by (simp add: deleteExpired)
  from hit [OF this, of "loaderFunc T secretsGet rand (kp_ttl k)"] obtain c where
    c: "tc_Get T (loaderFunc T secretsGet rand (kp_ttl k)) ?c i = Some (Some v, c)" "live c = (live ?c)(i \<mapsto> (v, e))"
      "\<not> touching c" "now c = now ?c"
    using assms(2) by (auto simp: deleteExpired)
  then have "live c = live (kp_cache k)" using assms(1) by (auto simp: deleteExpired)
  then show ?thesis
    using c by (intro exI [of _ c]) (simp add: kubeconfig_Get_def Let_def recordMetrics_def live_gauge_def deleteExpired)
qed

lemma Get_miss:
  assumes "live (kp_cache k) i = None"
  shows "\<exists>c. live c = live (kp_cache k) \<and> touching c = touching (kp_cache k) \<and> now c = now (kp_cache k) \<and>
    kubeconfig_Get T secretsGet rand k i =
      (case secret_config secretsGet i of
         None \<Rightarrow> Some (Inl (errorf_w [] ErrNotFound ('': '' @ i)), k\<lparr>kp_cache := c\<rparr>, [live_gauge live k])
       | Some kc \<Rightarrow> (case getJitterTTL rand (kp_ttl k) of
             None \<Rightarrow> None
           | Some d \<Rightarrow> Some (Inr kc, k\<lparr>kp_cache := tc_Set T c i kc d\<rparr>, [live_gauge live k])))"
proof -
  let ?c = "tc_DeleteExpired T (kp_cache k)"
  have "live ?c i = None" using assms by (simp add: deleteExpired)
  from miss [OF this] show ?thesis
    using getKubeConfigFromSecret_cases [of secretsGet i]
    by (intro exI [of _ ?c], cases "secret_config secretsGet i"; cases "getKubeConfigFromSecret secretsGet i")
      (auto simp: kubeconfig_Get_def loaderFunc_def Let_def recordMetrics_def live_gauge_def deleteExpired split: option.split)
qed

lemma run_provider:
  "provider_run T now advance R ttl name calls k \<Longrightarrow> kp_ttl k = ttl \<and> kp_name k = name \<and> \<not> touching (kp_cache k)"
proof (induction rule: provider_run.induct)
  case run_New
  show ?case by (simp add: kubeconfig_New_def new WithDisableTouchOnHit_def)
next
  case (run_Get calls k rand secretsGet i r k' ms)
  show ?case
  proof (cases "live (kp_cache k) i")
    case None
    then show ?thesis
      using Get_miss [OF None, of secretsGet rand] run_Get by (auto simp: set_time split: option.splits)
  next
    case (Some ve)
    then show ?thesis
      using Get_hit [of k i "fst ve" "snd ve" secretsGet rand] run_Get by auto
  qed
qed (simp add: advance)

text \<open>A live entry was read from the control plane, and its deadline is set from then on.\<close>

lemma run_entries:
  assumes "\<And>rand d. rand \<in> R \<Longrightarrow> getJitterTTL rand ttl = Some d \<Longrightarrow> 0 < sint d \<and> sint d \<le> L"
  shows "provider_run T now advance R ttl name calls k \<Longrightarrow> live (kp_cache k) i = Some (v, e) \<Longrightarrow>
    \<exists>t. (t, i, Some v) \<in> set calls \<and> e \<le> t + L"
proof (induction arbitrary: i v e rule: provider_run.induct)
  case run_New
  then show ?case by (simp add: kubeconfig_New_def new)
next
  case (run_Get calls k rand secretsGet j r k' ms)
  note k = run_provider [OF run_Get.hyps(1)]
  have old: ?case if "live (kp_cache k) i = Some (v, e)" using run_Get.IH [OF that] by auto
  show ?case
  proof (cases "live (kp_cache k) j")
    case (Some ve)
    then have "live (kp_cache k') = live (kp_cache k)"
      using Get_hit [of k j "fst ve" "snd ve" secretsGet rand] run_Get.hyps(3) k by auto
    then show ?thesis using old run_Get.prems by simp
  next
    case None
    from Get_miss [OF None, of secretsGet rand] obtain c where c: "live c = live (kp_cache k)" "now c = now (kp_cache k)"
      "kubeconfig_Get T secretsGet rand k j =
      (case secret_config secretsGet j of
         None \<Rightarrow> Some (Inl (errorf_w [] ErrNotFound ('': '' @ j)), k\<lparr>kp_cache := c\<rparr>, [live_gauge live k])
       | Some kc \<Rightarrow> (case getJitterTTL rand (kp_ttl k) of
             None \<Rightarrow> None
           | Some d \<Rightarrow> Some (Inr kc, k\<lparr>kp_cache := tc_Set T c j kc d\<rparr>, [live_gauge live k])))" by blast
    show ?thesis
    proof (cases "secret_config secretsGet j")
      case None
      then show ?thesis using c run_Get.hyps(3) run_Get.prems old by auto
    next
      case (Some kc)
      then obtain d where d: "getJitterTTL rand ttl = Some d" "kp_cache k' = tc_Set T c j kc d"
        using c run_Get.hyps(3) k by (auto split: option.splits)
      then have "0 < sint d" "sint d \<le> L" using assms run_Get.hyps(2) by blast+
      then show ?thesis
        using run_Get.prems old d(2) c(1,2) Some by (auto simp: set_live split: if_splits)
    qed
  qed
next
  case (run_time calls k)
  then show ?case by (auto simp: advance split: option.splits if_splits)
qed

end

text \<open>
  C36: what \<open>Get\<close> returns, at any time in the life of a provider. A live entry is handed out as it is, without
  looking at the secret, and keeps its deadline. On a miss the provider hands out the non-empty kubeconfig of the
  runtime's secret and keeps it until the jittered time to live, if that is positive, is over; where the
  jitter is not defined it panics (see \<open>getJitterTTL_panics\<close>). If there is no such kubeconfig it reports
  \<open>ErrNotFound\<close> and keeps nothing, so the next call tries again. The entries of other runtimes are not touched, and
  the number of live entries before the call is recorded.
\<close>

theorem kubeconfig_Get_result:
  assumes "timed_cache T live now touching advance" and "provider_run T now advance R ttl name calls k"
  shows "let run = kubeconfig_Get T secretsGet rand k i; c = kp_cache k; ms = [live_gauge live k]
    in case (live c i, secret_config secretsGet i) of
         (Some (v, e), _) \<Rightarrow> (\<exists>k'. run = Some (Inr v, k', ms) \<and> live (kp_cache k') = live c)
       | (None, None) \<Rightarrow> (\<exists>err k'. run = Some (Inl err, k', ms) \<and> err_is err ErrNotFound \<and> live (kp_cache k') = live c)
       | (None, Some kc) \<Rightarrow>
           (case getJitterTTL rand ttl of
              None \<Rightarrow> run = None
            | Some d \<Rightarrow> (\<exists>k'. run = Some (Inr kc, k', ms) \<and>
                (0 < sint d \<longrightarrow> live (kp_cache k') = (live c)(i \<mapsto> (kc, now c + sint d)))))"
proof -
  note k = timed_cache.run_provider [OF assms]
  show ?thesis
  proof (cases "live (kp_cache k) i")
    case (Some ve)
    then show ?thesis using timed_cache.Get_hit [OF assms(1), of k i "fst ve" "snd ve" secretsGet rand] k
      by (auto simp: Let_def split: prod.split)
  next
    case None
    then show ?thesis
      using timed_cache.Get_miss [OF assms(1) None, of secretsGet rand] timed_cache.set_live [OF assms(1)] k
      by (auto simp: Let_def ErrNotFound_def split: option.split)
  qed
qed

theorem kubeconfig_Get_result_witness:
  "\<exists>k'. kubeconfig_Get ref_ttl_ops (\<lambda>_ _. Inr [(''config'', ''kc'')]) (\<lambda>n. 0) (kubeconfig_New ref_ttl_ops 5 ''n'') ''r'' =
      Some (Inr ''kc'', k', [live_gauge rt_live (kubeconfig_New ref_ttl_ops 5 ''n'')]) \<and>
    rt_live (kp_cache k') ''r'' = Some (''kc'', 5)"
proof -
  have "getJitterTTL (\<lambda>n. 0) 5 = Some 5" by (simp add: getJitterTTL_def Minute_def)
  moreover have "rt_live (kp_cache (kubeconfig_New ref_ttl_ops 5 ''n'')) ''r'' = None"
    "rt_now (kp_cache (kubeconfig_New ref_ttl_ops 5 ''n'')) = 0"
    by (simp_all add: kubeconfig_New_def rt_live_def ref_ttl_ops_def)
  ultimately show ?thesis
    using kubeconfig_Get_result [OF ref_ttl.timed_cache_axioms run_New [of ref_ttl_ops rt_now rt_advance UNIV 5 "''n''"],
        where secretsGet = "\<lambda>_ _. Inr [(''config'', ''kc'')]" and rand = "\<lambda>n. 0" and i = "''r''"]
    by (auto simp: secret_config_def)
qed

text \<open>
  C37: how old a kubeconfig can be. With a time to live of 4 or more whole minutes (up to 133 years) and random
  numbers in the range they are drawn from, every kubeconfig a provider hands out, at any time in its life, was in the
  secret of that runtime when the provider was asked for it, now or less than 1.3 times the time to live ago,
  however often it was handed out in between.
\<close>

theorem kubeconfig_fresh:
  assumes "timed_cache T live now touching advance" and "provider_run T now advance R ttl name calls k"
    and "4 \<le> m" and "m \<le> 7 * 10 ^ 7" and "sint ttl = m * Minute"
    and "\<forall>rand \<in> R. \<forall>n. 0 < sint n \<longrightarrow> 0 \<le> sint (rand n) \<and> sint (rand n) < sint n"
    and "kubeconfig_Get T secretsGet rand k i = Some (Inr kc, k', ms)"
  shows "\<exists>t. (t, i, Some kc) \<in> set ((now (kp_cache k), i, secret_config secretsGet i) # calls) \<and>
    10 * (now (kp_cache k) - t) < 13 * sint ttl"
proof -
  have pos: "0 < sint ttl" using assms(3,5) by (simp add: Minute_def)
  have jitter: "0 < sint d \<and> sint d \<le> (13 * sint ttl - 1) div 10" if "rand \<in> R" "getJitterTTL rand ttl = Some d" for rand d
    using jitter_whole_minutes [OF assms(3-5), of rand] assms(6) that pos by auto
  show ?thesis
  proof (cases "live (kp_cache k) i")
    case (Some ve)
    obtain v e where ve: "ve = (v, e)" by fastforce
    then have "kc = v"
      using timed_cache.Get_hit [OF assms(1), of k i v e secretsGet rand] timed_cache.run_provider [OF assms(1,2)] Some assms(7)
      by auto
    moreover have "\<exists>t. (t, i, Some v) \<in> set calls \<and> e \<le> t + (13 * sint ttl - 1) div 10"
      using Some ve by (intro timed_cache.run_entries [OF assms(1) _ assms(2)] jitter) simp_all
    ultimately obtain t where "(t, i, Some kc) \<in> set calls" "e \<le> t + (13 * sint ttl - 1) div 10" by blast
    moreover have "now (kp_cache k) < e" using timed_cache.unexpired [OF assms(1)] Some ve by blast
    ultimately show ?thesis by (intro exI [of _ t]) auto
  next
    case None
    then have "secret_config secretsGet i = Some kc"
      using timed_cache.Get_miss [OF assms(1) None, of secretsGet rand] assms(7) by (auto split: option.splits)
    then show ?thesis using pos by (intro exI [of _ "now (kp_cache k)"]) simp
  qed
qed

text \<open>Ten minutes, and a kubeconfig read on the first call.\<close>

theorem kubeconfig_fresh_witness:
  "let ttl = word_of_int (600 * 10 ^ 9); k = kubeconfig_New ref_ttl_ops ttl ''n''
   in \<exists>k' ms t. kubeconfig_Get ref_ttl_ops (\<lambda>_ _. Inr [(''config'', ''kc'')]) (\<lambda>n. 0) k ''r'' = Some (Inr ''kc'', k', ms) \<and>
     (t, ''r'', Some ''kc'') \<in> set [(rt_now (kp_cache k), ''r'', Some ''kc'')] \<and> 10 * (rt_now (kp_cache k) - t) < 13 * sint ttl"
proof -
  let ?ttl = "word_of_int (600 * 10 ^ 9) :: int64" and ?s = "\<lambda>_ _. Inr [(''config'', ''kc'')] :: go_error + (string, string) gomap"
  let ?k = "kubeconfig_New ref_ttl_ops ?ttl ''n''"
  have ttl: "sint ?ttl = 10 * Minute" by (subst sint_of_int_64) (simp_all add: Minute_def)
  obtain d where "getJitterTTL (\<lambda>n. 0) ?ttl = Some d" using jitter_whole_minutes [OF _ _ ttl, of "\<lambda>n. 0"] by auto
  moreover have "rt_live (kp_cache ?k) ''r'' = None" "kp_ttl ?k = ?ttl"
    by (simp_all add: kubeconfig_New_def rt_live_def ref_ttl_ops_def)
  moreover have config: "secret_config ?s ''r'' = Some ''kc''" by (simp add: secret_config_def)
  ultimately obtain k' ms where get: "kubeconfig_Get ref_ttl_ops ?s (\<lambda>n. 0) ?k ''r'' = Some (Inr ''kc'', k', ms)"
    using ref_ttl.Get_miss [of ?k "''r''" ?s "\<lambda>n. 0"] by auto
  have "\<exists>t. (t, ''r'', Some ''kc'') \<in> set ((rt_now (kp_cache ?k), ''r'', secret_config ?s ''r'') # []) \<and>
      10 * (rt_now (kp_cache ?k) - t) < 13 * sint ?ttl"
    by (rule kubeconfig_fresh [OF ref_ttl.timed_cache_axioms run_New [of _ _ _ "{\<lambda>n. 0}"] _ _ ttl _ get]) simp_all
  then show ?thesis using get config by (auto simp: Let_def)
qed

end
