(* ===== verification/Application.thy ===== *)
theory Application
  imports AppOptions RuntimeClients Service EdpCollector NodeResource PvcResource VscResource RedisResource Kubeconfig Concurrency
begin

text \<open>
  \<^verbatim>\<open>src/cmd/main.go\<close>: the program put
  together. The four resource scanners share one type of scans, the collector runs over them, and the
  workers of the process call the collector and the kubeconfig provider. What the set-up asks of its
  libraries (telemetry, environment variables, the in-cluster configuration, files) is a parameter.
\<close>

section \<open>The collector over the four resources\<close>

datatype 'q cluster_scan =
    NodeResult NodeScan
  | PvcResult "'q Pvc list"
  | RedisResult RedisScan
  | VscResult "Vsc list"

text \<open>What the scanners and the conversions call outside the repository.\<close>

record ('meta, 'core, 'vs, 'dyn, 'q, 'u) resource_env =
  re_listMeta :: "'meta \<Rightarrow> GroupVersionResource \<Rightarrow> go_error + node_labels list"
  re_listPVCs :: "'core \<Rightarrow> string \<Rightarrow> go_error + 'q Pvc list"
  re_listVSCs :: "'vs \<Rightarrow> go_error + Vsc list"
  re_listDyn :: "'dyn \<Rightarrow> GroupVersionResource \<Rightarrow> string \<Rightarrow> go_error + 'u"
  re_isNotFound :: "go_error \<Rightarrow> bool"
  re_marshalJSON :: "'u \<Rightarrow> go_error + string"
  re_unmarshal :: "string \<Rightarrow> go_error + string list"
  re_milliValue :: "'q \<Rightarrow> int64"
  re_parseQuantity :: "string \<Rightarrow> go_error + 'q"
  re_ord :: "(string, int64) gomap \<Rightarrow> (string, int64) gomap"

text \<open>The dynamic dispatch of \<open>EDP\<close> on a scan.\<close>

fun cluster_EDP :: "('meta, 'core, 'vs, 'dyn, 'q, 'u) resource_env \<Rightarrow> 'q cluster_scan edp_conv" where
  "cluster_EDP re (NodeResult s) = node_EDP (re_ord re) s"
| "cluster_EDP re (PvcResult s) = pvc_EDP (re_milliValue re) (re_parseQuantity re) s"
| "cluster_EDP re (RedisResult s) = redis_EDP s"
| "cluster_EDP re (VscResult s) = vsc_EDP s"

text \<open>A scan as the interface \<open>ScanConverter\<close> sees it.\<close>

fun cluster_UM :: "'q cluster_scan \<Rightarrow> int64 \<Rightarrow> UMMeasurement \<times> go_error option" where
  "cluster_UM (NodeResult s) = node_UM s"
| "cluster_UM (PvcResult s) = pvc_UM s"
| "cluster_UM (RedisResult s) = redis_UM s"
| "cluster_UM (VscResult s) = vsc_UM s"

definition cluster_ScanConverter :: "('meta, 'core, 'vs, 'dyn, 'q, 'u) resource_env \<Rightarrow> 'q cluster_scan \<Rightarrow> ScanConverter" where
  "cluster_ScanConverter re s = \<lparr>scv_UM = \<lparr>umc_UM = cluster_UM s\<rparr>, scv_EDP = \<lparr>edpc_EDP = cluster_EDP re s\<rparr>\<rparr>"

definition as_scan :: "('a \<Rightarrow> 's) \<Rightarrow> ('cl, 'a) Scanner \<Rightarrow> ('cl, 's) Scanner" where
  "as_scan f sc = \<lparr>sc_ID = sc_ID sc, sc_Scan = \<lambda>rt cl. map_sum (\<lambda>e. e) f (sc_Scan sc rt cl)\<rparr>"

text \<open>The scanners in the order in which \<open>main\<close> hands them to \<open>NewCollector\<close>.\<close>

definition main_scanners ::
  "('meta, 'core, 'vs, 'dyn, 'q, 'u) resource_env \<Rightarrow> PublicCloudSpecs
   \<Rightarrow> (('meta, 'core, 'vs, 'dyn) Interface, 'q cluster_scan) Scanner list" where
  "main_scanners re publicCloudSpecs =
     [as_scan NodeResult (node_scanner (re_listMeta re) publicCloudSpecs),
      as_scan PvcResult (pvc_scanner (re_listPVCs re)),
      as_scan RedisResult (redis_scanner (re_isNotFound re) (re_marshalJSON re) (re_unmarshal re) (re_listDyn re)
        publicCloudSpecs),
      as_scan VscResult (vsc_scanner (re_listVSCs re))]"

definition NewCollector :: "edp_Client \<Rightarrow> ('cl, 's) Scanner list \<Rightarrow> ('cl, 's) EdpCollector" where
  "NewCollector edpClient scanners = \<lparr>ec_EDPClient = edpClient, ec_scanners = scanners\<rparr>"

definition TrimSuffix :: "string \<Rightarrow> string \<Rightarrow> string" where
  "TrimSuffix s suffix =
     (if length suffix \<le> length s \<and> drop (length s - length suffix) s = suffix
      then take (length s - length suffix) s else s)"

definition edpCredentialsFile :: string where
  "edpCredentialsFile = ''/edp-credentials/token''"

definition kubeconfigProviderName :: string where
  "kubeconfigProviderName = ''kubeconfig''"

definition getEDPToken :: "(string \<Rightarrow> go_error + string) \<Rightarrow> go_error + string" where
  "getEDPToken readFile =
     (case readFile edpCredentialsFile of
        Inl err \<Rightarrow> Inl err
      | Inr token \<Rightarrow> Inr (TrimSuffix token [CHR 0x0A]))"

text \<open>
  \<^verbatim>\<open>src/pkg/otel/otel.go\<close>: a trace provider that batches to an exporter. \<open>exporter\<close> is what the exporter of the
  library answers. \<open>SetupSDK\<close> makes the provider the global one and returns its \<open>Shutdown\<close>; both are the
  provider here.
\<close>

datatype 'e TracerProvider = WithBatcher 'e

definition newTraceProvider :: "go_error + 'e \<Rightarrow> go_error + 'e TracerProvider" where
  "newTraceProvider exporter =
     (case exporter of
        Inl err \<Rightarrow> Inl (errorf_w ''failed to create trace exporter: '' err [])
      | Inr traceExporter \<Rightarrow> Inr (WithBatcher traceExporter))"

definition SetupSDK :: "go_error + 'e \<Rightarrow> go_error + 'e TracerProvider" where
  "SetupSDK exporter =
     (case newTraceProvider exporter of Inl err \<Rightarrow> Inl err | Inr tracerProvider \<Rightarrow> Inr tracerProvider)"

lemma SetupSDK_Inr: "(\<exists>p. SetupSDK exporter = Inr p) \<longleftrightarrow> \<not> isl exporter"
  by (cases exporter) (simp_all add: SetupSDK_def newTraceProvider_def)

text \<open>\<^verbatim>\<open>src/env/config.go\<close>: the configuration of the environment variables.\<close>

record Config =
  cfg_PublicCloudSpecsPath :: string

text \<open>
  What the set-up of \<open>main\<close> asks of libraries: the telemetry SDK, the three configurations read from the
  environment, the in-cluster configuration, and the client made from it, which is modelled by its
  access to secrets.
\<close>

type_synonym secrets = "string \<Rightarrow> string \<Rightarrow> go_error + (string, string) gomap"

record ('k, 'e) boot_env =
  bo_otlptrace_New :: "go_error + 'e"
  bo_envConfig :: "go_error + Config"
  bo_InClusterConfig :: "go_error + 'k"
  bo_NewForConfig :: "'k \<Rightarrow> go_error + secrets"
  bo_kebConfig :: "go_error + KebConfig"
  bo_edpConfig :: "go_error + EdpConfig"
  bo_readFile :: "string \<Rightarrow> go_error + string"
  bo_jsonError :: "json_error \<Rightarrow> go_error"
  bo_unmarshalFilter :: "string \<Rightarrow> go_error + accounts"
  bo_validate :: "string \<Rightarrow> go_error option"

text \<open>What \<open>main\<close> has started when it is set up: the process and its HTTP servers.\<close>

record ('coll, 'prov, 'log, 'c, 'q, 'e) application =
  app_process :: "('coll, 'prov, 'log, 'c, 'q) Process"
  app_secrets :: secrets
  app_tracerProvider :: "'e TracerProvider"
  app_transportMetrics :: RegisterOpts
  app_debugSvc :: "Server option"
  app_kmcSvr :: Server

text \<open>The profiler is served on the loopback address only.\<close>

definition enableDebugging :: "int64 \<Rightarrow> Logger \<Rightarrow> Server" where
  "enableDebugging debugPort logger =
     \<lparr>sv_Addr = ''127.0.0.1:'' @ show_int (sint debugPort),
      sv_Router = [(''/debug/pprof/'', Pprof ''Index''), (''/debug/pprof/cmdline'', Pprof ''Cmdline''),
        (''/debug/pprof/profile'', Pprof ''Profile''), (''/debug/pprof/symbol'', Pprof ''Symbol''),
        (''/debug/pprof/trace'', Pprof ''Trace''), (''/debug/pprof/block'', PprofHandler ''block''),
        (''/debug/pprof/goroutine'', PprofHandler ''goroutine''), (''/debug/pprof/heap'', PprofHandler ''heap''),
        (''/debug/pprof/threadcreate'', PprofHandler ''threadcreate'')],
      sv_Logger = logger\<rparr>"

definition metricsPath :: string where "metricsPath = ''/metrics''"
definition healthzPath :: string where "healthzPath = ''/healthz''"

definition main_server :: "int64 \<Rightarrow> Logger \<Rightarrow> Server" where
  "main_server listenAddr logger =
     \<lparr>sv_Addr = '':'' @ show_int (sint listenAddr), sv_Router = [(healthzPath, Healthz), (metricsPath, Promhttp)],
      sv_Logger = logger\<rparr>"

text \<open>\<open>Inl\<close> has the message with which the program ends.\<close>

definition main_setup ::
  "('c, 'q cluster_scan cache_item) cache_ops \<Rightarrow> 'wq queue_ops \<Rightarrow> 't ttl_ops
   \<Rightarrow> ('meta, 'core, 'vs, 'dyn, 'q, 'u) resource_env \<Rightarrow> ('k, 'e) boot_env \<Rightarrow> zap_level Options
   \<Rightarrow> string + ((('meta, 'core, 'vs, 'dyn) Interface, 'q cluster_scan) EdpCollector, 't KubeconfigProvider, Logger, 'c, 'wq, 'e) application" where
  "main_setup C Q T re boot opts =
     (let logger = NewLogger initialOutputFormat (opt_LogLevel opts)
      in case SetupSDK (bo_otlptrace_New boot) of
        Inl err \<Rightarrow> Inl ''Set up OTel SDK''
      | Inr tracerProvider \<Rightarrow>
     (case bo_envConfig boot of
        Inl err \<Rightarrow> Inl ''Load env config''
      | Inr cfg \<Rightarrow>
     (case LoadPublicCloudSpecs (bo_readFile boot) (bo_jsonError boot) (cfg_PublicCloudSpecsPath cfg) of
        Inl err \<Rightarrow> Inl ''Load public cloud spec''
      | Inr publicCloudSpecs \<Rightarrow>
     (case bo_InClusterConfig boot of
        Inl err \<Rightarrow> Inl ''Load InCluster Config''
      | Inr k8sConfig \<Rightarrow>
     (case bo_NewForConfig boot k8sConfig of
        Inl err \<Rightarrow> Inl ''Setup secrets client''
      | Inr secretCacheClient \<Rightarrow>
     (case bo_kebConfig boot of
        Inl err \<Rightarrow> Inl ''Load KEB config''
      | Inr kebConfig \<Rightarrow>
     (case bo_edpConfig boot of
        Inl err \<Rightarrow> Inl ''Load EDP config''
      | Inr edpConfig \<Rightarrow>
     (case getEDPToken (bo_readFile boot) of
        Inl err \<Rightarrow> Inl ''Load EDP token''
      | Inr token \<Rightarrow>
         (let kebClient = keb_NewClient kebConfig logger;
              edpClient = edp_NewClient (edpConfig\<lparr>edp_Token := token\<rparr>) logger;
              edpCollector = NewCollector edpClient (main_scanners re publicCloudSpecs);
              kubeconfigProvider = kubeconfig_New T (opt_KubeconfigCacheTTL opts) kubeconfigProviderName
          in case process_New C Q (bo_readFile boot) (bo_unmarshalFilter boot) (bo_validate boot)
                    (Some kebClient) (Some edpClient) (Some edpCollector) (Some kubeconfigProvider)
                    (Some publicCloudSpecs) (opt_ScrapeInterval opts) (opt_WorkerPoolSize opts) (Some logger)
                    (opt_FilterRuntimeFile opts) of
               Inl err \<Rightarrow> Inl ''Create KMC process''
             | Inr kmcProcess \<Rightarrow>
                 Inr \<lparr>app_process = kmcProcess, app_secrets = secretCacheClient,
                      app_tracerProvider = tracerProvider, app_transportMetrics = RegisterTLSCacheMetrics,
                      app_debugSvc = (if 0 < sint (opt_DebugPort opts)
                                      then Some (enableDebugging (opt_DebugPort opts) logger) else None),
                      app_kmcSvr = main_server (opt_ListenAddr opts) logger\<rparr>)))))))))"

section \<open>The collector of the program\<close>

lemma main_scanner_ids: "map sc_ID (main_scanners re specs) = [''node'', ''pvc'', ''redis'', ''vsc'']"
  by (simp add: main_scanners_def as_scan_def node_scanner_def pvc_scanner_def redis_scanner_def vsc_scanner_def)

lemma volumes_sum_simps [simp]:
  "volumes_sum [] = zeroVolumes"
  "volumes_sum (m # ms) = plus_volumes (edp_ProvisionedVolumes m) (volumes_sum ms)"
  by (simp_all add: volumes_sum_def zeroVolumes_def plus_volumes_def)

text \<open>Only nodes have machine types and only the other three resources have volumes.\<close>

lemma node_EDP_volumes: "edp_ProvisionedVolumes (fst (node_EDP ord s)) = zeroVolumes"
proof -
  have "edp_ProvisionedVolumes (fst (foldl (node_step s) (e, errs, m) ns)) = edp_ProvisionedVolumes e" for e errs m ns
    by (induction ns arbitrary: e errs m) (auto simp: node_step_def Let_def split: option.split)
  then show ?thesis by (simp add: node_EDP_def Let_def case_prod_beta zeroEDP_def)
qed

lemma add_volume_VMTypes [simp]: "VMTypes (add_volume a b e) = VMTypes e"
  by (simp add: add_volume_def Let_def)

lemma pvc_EDP_VMTypes: "VMTypes (fst (pvc_EDP mv pq s)) = []"
proof -
  have "VMTypes (foldl (pvc_step mv pq) e ps) = VMTypes e" for e ps
    by (induction ps arbitrary: e) (auto simp: pvc_step_def Let_def)
  then show ?thesis by (simp add: pvc_EDP_def zeroEDP_def)
qed

lemma redis_EDP_VMTypes: "VMTypes (fst (redis_EDP s)) = []"
proof -
  have "VMTypes (fst (foldl (redis_step sp) (e, errs) ts)) = VMTypes e" for sp e errs ts
    by (induction ts arbitrary: e errs) (auto simp: redis_step_def split: option.split)
  then show ?thesis by (simp add: redis_EDP_def Let_def case_prod_beta zeroEDP_def)
qed

lemma vsc_EDP_VMTypes: "VMTypes (fst (vsc_EDP s)) = []"
proof -
  have "VMTypes (fst (foldl vsc_step (e, errs) vs)) = VMTypes e" for e errs vs
    by (induction vs arbitrary: e errs) (auto simp: vsc_step_def Let_def split: option.split)
  then show ?thesis by (simp add: vsc_EDP_def Let_def case_prod_beta zeroEDP_def)
qed

lemma fresh_billed:
  assumes "distinct (map sc_ID (ec_scanners c))" and "go_range (env_ord env)"
    and "\<forall>s \<in> set (ec_scanners c). \<exists>x. sc_Scan s rt cl = Inr x \<and> converts (env_conv env) x"
  shows "mset (billed_scans env c rt cl prev) =
    mset (map (\<lambda>s. (sc_ID s, projr (sc_Scan s rt cl))) (ec_scanners c))"
proof -
  have cur: "assigned sc_ID (best_scan prev rt cl) ss = map (\<lambda>s. (sc_ID s, projr (sc_Scan s rt cl))) ss"
    if "\<forall>s \<in> set ss. \<exists>x. sc_Scan s rt cl = Inr x \<and> converts (env_conv env) x" for ss
    using that by (induction ss) (auto simp: best_scan_def)
  have kept: "assigned fst (kept_scan (env_conv env) prev) es = es" if "\<forall>e \<in> set es. converts (env_conv env) (snd e)" for es
    using that by (induction es) (auto simp: kept_scan_def)
  let ?cur = "map (\<lambda>s. (sc_ID s, projr (sc_Scan s rt cl))) (ec_scanners c)"
  have "\<forall>e \<in> set (env_ord env ?cur). converts (env_conv env) (snd e)"
    using assms(3) by (auto simp: go_range.set_ord [OF assms(2)])
  from kept [OF this] show ?thesis
    unfolding billed_scans_def cur [OF assms(3)] by (simp only: go_range.mset_ord [OF assms(2)])
qed

text \<open>
  C5: a cycle of the program that reports no error has billed the cluster completely: all four
  resources were scanned, and the event's volumes are the sum of the volumes of the persistent volume
  claims, the Redis instances and the volume snapshots, and its machine types are those of the nodes,
  in whatever order the maps are traversed. The number of attempts to send is taken to be positive.
\<close>

theorem successful_cycle_bills_all:
  assumes "go_range (env_ord env)" and "retrier (env_retry env)" and "0 < unat (edp_EventRetry (ecl_Config client))"
    and "env_conv env = cluster_EDP re"
    and "CollectAndSend env (NewCollector client (main_scanners re specs)) rt cl prev = (scans, None, effs)"
  shows "\<exists>nodes pvcs redis vscs.
     node_Scan (re_listMeta re) specs rt cl = Inr nodes \<and> pvc_Scan (re_listPVCs re) rt cl = Inr pvcs \<and>
     redis_Scan (re_isNotFound re) (re_marshalJSON re) (re_unmarshal re) (re_listDyn re) specs rt cl = Inr redis \<and>
     vsc_Scan (re_listVSCs re) rt cl = Inr vscs \<and>
     edp_ProvisionedVolumes (pl_Compute (billing_event env rt scans)) =
       plus_volumes (edp_ProvisionedVolumes (fst (pvc_EDP (re_milliValue re) (re_parseQuantity re) pvcs)))
         (plus_volumes (edp_ProvisionedVolumes (fst (redis_EDP redis))) (edp_ProvisionedVolumes (fst (vsc_EDP vscs)))) \<and>
     mset (VMTypes (pl_Compute (billing_event env rt scans))) = mset (VMTypes (fst (node_EDP (re_ord re) nodes)))"
proof -
  let ?c = "NewCollector client (main_scanners re specs)"
  have d: "distinct (map sc_ID (ec_scanners ?c))" by (simp add: NewCollector_def main_scanner_ids)
  have r: "0 < unat (edp_EventRetry (ecl_Config (ec_EDPClient ?c)))" using assms(3) by (simp add: NewCollector_def)
  have scans: "scans = billed_scans env ?c rt cl prev"
    using assms(5) unfolding CollectAndSend_eq [OF d assms(1)] by (auto simp: Let_def split: if_splits)
  have ok: "\<forall>s \<in> set (main_scanners re specs). \<exists>x. sc_Scan s rt cl = Inr x \<and> converts (cluster_EDP re) x"
    using CollectAndSend_None(1) [OF d assms(1) assms(2) r, of rt cl prev] assms(4,5) by (simp add: NewCollector_def)
  then obtain nodes pvcs redis vscs where fresh: "node_Scan (re_listMeta re) specs rt cl = Inr nodes"
    "pvc_Scan (re_listPVCs re) rt cl = Inr pvcs"
    "redis_Scan (re_isNotFound re) (re_marshalJSON re) (re_unmarshal re) (re_listDyn re) specs rt cl = Inr redis"
    "vsc_Scan (re_listVSCs re) rt cl = Inr vscs"
    by (auto simp: main_scanners_def as_scan_def node_scanner_def pvc_scanner_def redis_scanner_def
        vsc_scanner_def map_sum_def split: sum.splits)
  have "mset scans = mset [(''node'', NodeResult nodes), (''pvc'', PvcResult pvcs), (''redis'', RedisResult redis),
      (''vsc'', VscResult vscs)]"
    using fresh_billed [OF d assms(1), of rt cl prev] ok fresh assms(4)
    by (simp add: scans NewCollector_def) (simp add: main_scanners_def as_scan_def node_scanner_def pvc_scanner_def
        redis_scanner_def vsc_scanner_def)
  then have ms: "mset (map (\<lambda>e. fst (env_conv env (snd e))) scans) =
      mset [fst (node_EDP (re_ord re) nodes), fst (pvc_EDP (re_milliValue re) (re_parseQuantity re) pvcs),
            fst (redis_EDP redis), fst (vsc_EDP vscs)]"
    using assms(4) by simp
  have "mset (concat (map VMTypes xs)) = mset (concat (map VMTypes ys))" if "mset xs = mset ys" for xs ys
    using that by (metis mset_concat mset_map sum_mset_sum_list)
  from this [OF ms] volumes_sum_perm [OF ms] fresh show ?thesis
    by (simp add: billing_event_def newPayload_def aggregate_parts node_EDP_volumes pvc_EDP_VMTypes
        redis_EDP_VMTypes vsc_EDP_VMTypes)
qed

type_synonym unit_clients = "(unit, unit, unit, unit, unit) InterfaceCloser"
type_synonym unit_interface = "(unit, unit, unit, unit) Interface"
type_synonym unit_resources = "(unit, unit, unit, unit, nat, unit) resource_env"

definition sampleInterface :: unit_interface where
  "sampleInterface = \<lparr>if_Metadata = (), if_K8s = (), if_VolumeSnapshot = (), if_Dynamic = ()\<rparr>"

definition sampleResources :: unit_resources where
  "sampleResources = \<lparr>re_listMeta = \<lambda>_ _. Inr (node_items sample_nodes), re_listPVCs = \<lambda>_ _. Inr [],
     re_listVSCs = \<lambda>_. Inr [], re_listDyn = \<lambda>_ _ _. Inl (ErrorString ''no kind''), re_isNotFound = \<lambda>_. True,
     re_marshalJSON = \<lambda>_. Inr [], re_unmarshal = \<lambda>_. Inr [], re_milliValue = \<lambda>_. 0,
     re_parseQuantity = \<lambda>_. Inl (ErrorString ''q''), re_ord = \<lambda>m. m\<rparr>"

definition sampleAppEnv :: "nat cluster_scan edp_env" where
  "sampleAppEnv = \<lparr>env_retry = retry_ref, env_newRequest = \<lambda>_ _. None,
     env_httpDo = \<lambda>_ _ _. (HttpResponse 201 (Inr []), 0), env_marshal = \<lambda>_. Inr ''event'', env_now = sampleTime,
     env_conv = cluster_EDP sampleResources, env_ord = rev\<rparr>"

lemma sample_nodes_convert: "snd (node_EDP ord sample_nodes) = None"
proof -
  have items: "node_items sample_nodes = [[(nodeInstanceTypeLabel, ''M5'')], [(nodeInstanceTypeLabel, ''m5'')]]"
    by (simp add: sample_nodes_def)
  show ?thesis
    by (rule node_EDP_parts [of sample_nodes ord]) (simp only: snd_conv items filter.simps sample_features, simp)
qed

lemma sample_converts:
  "\<forall>s \<in> set (main_scanners sampleResources sample_specs).
     \<exists>x. sc_Scan s sampleInfo sampleInterface = Inr x \<and> converts (cluster_EDP sampleResources) x"
proof -
  have n: "node_Scan (re_listMeta sampleResources) sample_specs sampleInfo sampleInterface = Inr sample_nodes"
    by (simp add: node_Scan_def sampleResources_def sampleInfo_def sample_nodes_def)
  have p: "pvc_Scan (re_listPVCs sampleResources) sampleInfo sampleInterface = Inr []"
    "vsc_Scan (re_listVSCs sampleResources) sampleInfo sampleInterface = Inr []"
    by (simp_all add: pvc_Scan_def vsc_Scan_def sampleResources_def)
  have r: "redis_Scan (re_isNotFound sampleResources) (re_marshalJSON sampleResources) (re_unmarshal sampleResources)
      (re_listDyn sampleResources) sample_specs sampleInfo sampleInterface
      = Inr \<lparr>redis_specs = sample_specs, redis_aws = [], redis_azure = [], redis_gcp = []\<rparr>"
    by (simp add: redis_Scan_def listRedisInstances_def errs_of_def items_of_def sampleResources_def)
  show ?thesis
    by (simp add: main_scanners_def as_scan_def node_scanner_def pvc_scanner_def redis_scanner_def vsc_scanner_def
        n p r converts_def sample_nodes_convert)
      (simp add: pvc_EDP_def redis_EDP_def vsc_EDP_def listTiers_def)
qed

lemma sample_app_runs:
  "\<exists>scans effs. CollectAndSend sampleAppEnv (NewCollector (edp_NewClient sampleEdpConfig sampleLogger) (main_scanners sampleResources sample_specs))
     sampleInfo sampleInterface [] = (scans, None, effs)"
proof -
  let ?c = "NewCollector (edp_NewClient sampleEdpConfig sampleLogger) (main_scanners sampleResources sample_specs)"
  have "delivered sampleAppEnv sampleEdpConfig pl sub" for pl sub
    unfolding delivered_def
    by (rule exI [of _ "''event''"], rule exI, rule exI [of _ "0::nat"])
      (simp add: sampleAppEnv_def sampleEdpConfig_def edp_NewRequest_def)
  moreover have "distinct (map sc_ID (ec_scanners ?c))" by (simp add: NewCollector_def main_scanner_ids)
  moreover have "ec_scanners ?c \<noteq> []" by (simp add: NewCollector_def main_scanners_def)
  moreover have "ecl_Config (ec_EDPClient ?c) = sampleEdpConfig" "ec_scanners ?c = main_scanners sampleResources sample_specs"
    by (simp_all add: NewCollector_def)
  moreover have "go_range (env_ord sampleAppEnv)" "retrier (env_retry sampleAppEnv)"
    "env_conv sampleAppEnv = cluster_EDP sampleResources"
    by (simp_all add: sampleAppEnv_def range_rev.go_range_axioms ref_retry.retrier_axioms)
  moreover have "0 < unat (edp_EventRetry sampleEdpConfig)" by (simp add: sampleEdpConfig_def)
  ultimately show ?thesis
    using CollectAndSend_None(2) [of ?c sampleAppEnv sampleInfo sampleInterface "[]"] sample_converts
    by (cases "CollectAndSend sampleAppEnv ?c sampleInfo sampleInterface []") simp
qed

theorem successful_cycle_bills_all_witness:
  "\<exists>scans. mset (VMTypes (pl_Compute (billing_event sampleAppEnv sampleInfo scans))) =
     mset (VMTypes (fst (node_EDP (\<lambda>m. m) sample_nodes)))"
proof -
  obtain scans effs where run: "CollectAndSend sampleAppEnv (NewCollector (edp_NewClient sampleEdpConfig sampleLogger) (main_scanners sampleResources sample_specs))
      sampleInfo sampleInterface [] = (scans, None, effs)" using sample_app_runs by blast
  have pre: "go_range (env_ord sampleAppEnv)" "retrier (env_retry sampleAppEnv)"
    "0 < unat (edp_EventRetry (ecl_Config (edp_NewClient sampleEdpConfig sampleLogger)))" "env_conv sampleAppEnv = cluster_EDP sampleResources"
    by (simp_all add: sampleAppEnv_def range_rev.go_range_axioms ref_retry.retrier_axioms sampleEdpConfig_def)
  have n: "node_Scan (re_listMeta sampleResources) sample_specs sampleInfo sampleInterface = Inr sample_nodes"
    by (simp add: node_Scan_def sampleResources_def sampleInfo_def sample_nodes_def)
  have o: "re_ord sampleResources = (\<lambda>m. m)"
    by (simp add: sampleResources_def)
  from successful_cycle_bills_all [OF pre run] n o show ?thesis by auto
qed

section \<open>The program\<close>

text \<open>What the workers of the program call.\<close>

definition main_work_env ::
  "'t ttl_ops \<Rightarrow> secrets \<Rightarrow> (int64 \<Rightarrow> int64)
   \<Rightarrow> (string \<Rightarrow> go_error + 'cfg) \<Rightarrow> ('cfg, 'meta, 'core, 'vs, 'dyn, 'e) ClientFactory \<Rightarrow> 's edp_env
   \<Rightarrow> ('t KubeconfigProvider, 'cfg, ('meta, 'core, 'vs, 'dyn, 'e) InterfaceCloser,
       (('meta, 'core, 'vs, 'dyn) Interface, 's) EdpCollector, 's) work_env" where
  "main_work_env T secretsGet rand restConfig factory env =
     \<lparr>we_kubeconfig = kubeconfig_Get T secretsGet rand, we_restConfig = restConfig,
      we_newClients = cf_NewClients factory,
      we_collect = \<lambda>coll rt cl prev. cs_CollectAndSend (edp_CollectorSender env coll) rt (ic_Interface cl) prev\<rparr>"

text \<open>
  The worlds the workers may meet, a new one at each step: any answers of the control plane, any draws
  of random numbers, any clients (and with them any answers of the clusters, which the scanners get as
  a function of the clients), any answers of EDP; scans are converted by the code of the resources, with
  any order of map traversal and any behaviour of the quantity library.
\<close>

definition main_worlds ::
  "'t ttl_ops \<Rightarrow> ('t KubeconfigProvider, 'cfg, ('meta, 'core, 'vs, 'dyn, 'http) InterfaceCloser,
     (('meta, 'core, 'vs, 'dyn) Interface, 'q cluster_scan) EdpCollector, 'q cluster_scan) work_env set" where
  "main_worlds T =
     {main_work_env T secretsGet rand restConfig (ClientsFactory_ClientFactory libs (\<lambda>http. http) NewClientsFactory) env
      | secretsGet rand restConfig libs env.
        \<exists>re :: ('meta, 'core, 'vs, 'dyn, 'q, unit) resource_env. env_conv env = cluster_EDP re}"

text \<open>Whether a scan can be converted does not depend on the libraries.\<close>

lemma node_EDP_errors_of_ord: "snd (node_EDP ord s) = snd (node_EDP ord' s)"
  by (simp add: node_EDP_def Let_def case_prod_beta)

lemma cluster_EDP_errors: "snd (cluster_EDP re x) = snd (cluster_EDP re' x)"
  by (cases x) (simp_all add: pvc_EDP_def node_EDP_errors_of_ord [of "re_ord re" _ "re_ord re'"])

lemma converts_cluster: "converts (cluster_EDP re) x \<Longrightarrow> converts (cluster_EDP re') x"
  by (simp add: converts_def cluster_EDP_errors [of re' x re])

lemma main_worlds_scans:
  assumes "we \<in> main_worlds T" and "we_collect we coll info cl prev = (scans, None, effs)" and "e \<in> set scans"
  shows "converts (cluster_EDP re) (snd e)"
proof -
  obtain env where "\<forall>x. converts (env_conv env) x \<longrightarrow> converts (cluster_EDP re) x"
    "we_collect we coll info cl prev = CollectAndSend env coll info (ic_Interface cl) prev"
    using assms(1) by (clarsimp simp: main_worlds_def main_work_env_def) (metis converts_cluster)
  then show ?thesis using CollectAndSend_converts assms(2,3) by metis
qed

lemma main_provider_safe:
  assumes "ttlcache T alive" and "getJitterTTL rand ttl \<noteq> None"
  shows "provider_safe (main_work_env T secretsGet rand restConfig factory env) (\<lambda>k. kp_ttl k = ttl)"
proof -
  have "case kubeconfig_Get T secretsGet rand k i of None \<Rightarrow> False | Some (_, k', _) \<Rightarrow> kp_ttl k' = ttl"
    if "kp_ttl k = ttl" for k i
    using that assms(2) ttlcache.get_hit [OF assms(1), of "tc_DeleteExpired T (kp_cache k)" i _ "loaderFunc T secretsGet rand ttl"]
      ttlcache.get_miss [OF assms(1)]
    by (cases "alive (tc_DeleteExpired T (kp_cache k)) i")
      (fastforce simp: kubeconfig_Get_def loaderFunc_def Let_def split: option.split sum.split)+
  then show ?thesis by (simp add: provider_safe_def main_work_env_def)
qed

lemma main_setup_Inr:
  assumes "main_setup C Q T re boot opts = Inr app"
  shows "p_Cache (app_process app) = ca_new C" "p_Queue (app_process app) = qo_new Q"
    "kp_ttl (p_KubeconfigProvider (app_process app)) = opt_KubeconfigCacheTTL opts"
  using assms
  by (auto simp: main_setup_def process_New_Inr kubeconfig_New_def Let_def split: sum.splits option.splits)

lemma started_sum:
  "(\<exists>a. (case x of Inl e \<Rightarrow> Inl m | Inr y \<Rightarrow> g y) = Inr a) \<longleftrightarrow> (\<exists>y. x = Inr y \<and> (\<exists>a. g y = Inr a))"
  by (cases x) auto

text \<open>
  C35: the program starts exactly if every step of its set-up succeeds: telemetry, the environment, the
  cloud specification, the cluster's configuration and client, the configurations of the broker and of
  the platform, the token and, if one is named, the filter file.
\<close>

theorem main_starts_iff:
  "(\<exists>app. main_setup C Q T re boot opts = Inr app) \<longleftrightarrow>
     \<not> isl (bo_otlptrace_New boot) \<and>
     (\<exists>cfg specs. bo_envConfig boot = Inr cfg \<and>
        LoadPublicCloudSpecs (bo_readFile boot) (bo_jsonError boot) (cfg_PublicCloudSpecsPath cfg) = Inr specs) \<and>
     (\<exists>k secrets. bo_InClusterConfig boot = Inr k \<and> bo_NewForConfig boot k = Inr secrets) \<and>
     (\<exists>kebConfig. bo_kebConfig boot = Inr kebConfig) \<and> (\<exists>edpConfig. bo_edpConfig boot = Inr edpConfig) \<and>
     (\<exists>token. bo_readFile boot ''/edp-credentials/token'' = Inr token) \<and>
     (opt_FilterRuntimeFile opts = '''' \<or>
        (\<exists>content accounts. bo_readFile boot (opt_FilterRuntimeFile opts) = Inr content \<and>
           parseRuntimesToBeFiltered (bo_unmarshalFilter boot) (bo_validate boot) content = Inr accounts))"
  (is "?L \<longleftrightarrow> ?R")
proof -
  have new: "(\<exists>p. process_New C Q (bo_readFile boot) (bo_unmarshalFilter boot) (bo_validate boot)
                (Some a) (Some b) (Some c) (Some d) (Some e) i w (Some l) f = Inr p) \<longleftrightarrow>
      (f = '''' \<or> (\<exists>content accounts. bo_readFile boot f = Inr content \<and>
         parseRuntimesToBeFiltered (bo_unmarshalFilter boot) (bo_validate boot) content = Inr accounts))"
    for a b c d e i w l f
    by (auto simp: process_New_def NewQueue_def readFilterFile_def Let_def split: sum.splits)
  have token: "(\<exists>t. getEDPToken (bo_readFile boot) = Inr t) \<longleftrightarrow> (\<exists>t. bo_readFile boot ''/edp-credentials/token'' = Inr t)"
    by (simp add: getEDPToken_def edpCredentialsFile_def split: sum.split)
  show ?thesis
    by (simp add: main_setup_def token Let_def started_sum SetupSDK_Inr new
        started_sum [where g = "\<lambda>y. Inr (f y)" for f]) auto
qed

text \<open>
  C1: the program as \<open>main\<close> puts it together, started with any options for which the jitter of the
  kubeconfig cache is defined, is safe under every interleaving and whatever the broker, the clusters,
  the control plane and EDP answer at each step: no worker crashes, no cached
  subaccount drops out of the queue, and every stored scan can be converted to a measurement, so that
  it can stand in when a later scan fails.
\<close>

theorem main_safe:
  assumes "process_libs C Q tick pending processing qinv" and "ttlcache T alive"
    and "main_setup C Q T re boot opts = Inr app"
    and "\<forall>rand. getJitterTTL rand (opt_KubeconfigCacheTTL opts) \<noteq> None"
    and "reachable C Q tick UNIV (main_worlds T) (app_process app) S"
  shows "Crashed \<notin> set (sys_workers S) \<and>
    (\<forall>s. ca_Get C (p_Cache (sys_proc S)) s \<noteq> None \<longrightarrow>
       s \<in> pending (p_Queue (sys_proc S)) \<or> Some s \<in> owed_by ` set (sys_workers S) \<or>
       owed_by_poller (sys_poller S) = Some s) \<and>
    (\<forall>s r e. ca_Get C (p_Cache (sys_proc S)) s = Some (RecordItem r) \<longrightarrow> e \<in> set (rec_ScanMap r) \<longrightarrow>
       converts (cluster_EDP re') (snd e))"
proof -
  note p = main_setup_Inr [OF assms(3)]
  have new: "\<forall>s. ca_Get C (p_Cache (app_process app)) s = None"
    using gocache.get_new [OF process_libs.axioms(1) [OF assms(1)]] p(1) by simp
  have q: "qinv (p_Queue (app_process app))"
    using delaying_queue.new(1) [OF process_libs.axioms(2) [OF assms(1)]] p(2) by simp
  have safe: "\<forall>we \<in> main_worlds T. provider_safe we (\<lambda>k. kp_ttl k = opt_KubeconfigCacheTTL opts)"
    using main_provider_safe [OF assms(2) spec [OF assms(4)]] by (auto simp: main_worlds_def)
  have inv: "sys_inv C pending processing qinv (\<lambda>k. kp_ttl k = opt_KubeconfigCacheTTL opts) S"
    by (rule process_libs.reachable_inv [OF assms(1) assms(5) new q safe p(3)])
  have "scans_ok (\<lambda>m. \<forall>e \<in> set m. converts (cluster_EDP re') (snd e)) C S"
    by (rule process_libs.reachable_scans [OF assms(1) assms(5) new]) (auto intro: main_worlds_scans [where e = "(i, x)" for i x, simplified])
  with inv show ?thesis
    by (auto simp: sys_inv_def data_wf_def covered_def cached_def scans_ok_def list_all_iff worker_wf_def)
qed

definition sampleOptions :: "zap_level Options" where
  "sampleOptions = \<lparr>opt_KEBPollWaitDuration = 0, opt_KEBReqTimeout = 0, opt_KEBRuntimeURL = None,
     opt_ScrapeInterval = 5, opt_WorkerPoolSize = 1, opt_DebugPort = 0, opt_ListenAddr = 8080,
     opt_LogLevel = 0, opt_KubeconfigCacheTTL = 5, opt_FilterRuntimeFile = ''''\<rparr>"

definition sampleBoot :: "(unit, unit) boot_env" where
  "sampleBoot = \<lparr>bo_otlptrace_New = Inr (), bo_envConfig = Inr \<lparr>cfg_PublicCloudSpecsPath = ''specs''\<rparr>, bo_InClusterConfig = Inr (),
     bo_NewForConfig = (\<lambda>_. Inr (\<lambda>_ _. Inr [])), bo_kebConfig = Inr sampleKeb, bo_edpConfig = Inr sampleEdpConfig,
     bo_readFile = (\<lambda>_. Inr sampleSpecsFile), bo_jsonError = (\<lambda>_. ErrorString ''json''),
     bo_unmarshalFilter = (\<lambda>_. Inr \<lparr>SkippedGlobalAccounts = []\<rparr>), bo_validate = (\<lambda>_. None)\<rparr>"

definition sampleMain ::
  "string + ((unit_interface, nat cluster_scan) EdpCollector, ref_ttl KubeconfigProvider, Logger,
             (string, nat cluster_scan cache_item) gomap, ref_queue, unit) application" where
  "sampleMain = main_setup alist_cache ref_queue_ops ref_ttl_ops sampleResources sampleBoot sampleOptions"

lemma sampleMain_Inr: "\<exists>app. sampleMain = Inr app \<and> skipRuntime (app_process app) = (\<lambda>_. False)"
proof -
  obtain specs where "LoadPublicCloudSpecs (\<lambda>_. Inr sampleSpecsFile) (\<lambda>_. ErrorString ''json'') ''specs'' = Inr specs"
    using LoadPublicCloudSpecs_loaded [of "''specs''" "\<lambda>_. Inr sampleSpecsFile" sampleSpecsFile sampleSpecsJson "\<lambda>_. ErrorString ''json''"]
      sampleSpecsFile_json sampleSpecsJson_ok by auto
  then show ?thesis
    by (simp add: sampleMain_def sampleBoot_def main_setup_def SetupSDK_def newTraceProvider_def getEDPToken_def Let_def process_New_def NewQueue_def sampleOptions_def)
      (simp add: skipRuntime_def fun_eq_iff)
qed

lemma sample_polled:
  assumes "skipRuntime p = (\<lambda>_. False)"
  shows "ca_Get alist_cache (p_Cache (fst (populateCacheAndQueue alist_cache ref_queue_ops samplePollEnv p samplePage))) ''s'' \<noteq> None"
  using ref_libs.get_populate [of samplePollEnv p samplePage "''s''"] sample_tracked sample_reports assms
  by (simp add: samplePage_def track_item_def split: option.split cache_item.split)

text \<open>The program after its first poll: the sample subaccount is cached, and stays covered.\<close>

theorem main_safe_witness:
  "\<exists>app. sampleMain = Inr app \<and>
     (let p' = fst (populateCacheAndQueue alist_cache ref_queue_ops samplePollEnv (app_process app) samplePage)
      in ca_Get alist_cache (p_Cache p') ''s'' \<noteq> None \<and> ''s'' \<in> rq_pending (p_Queue p'))"
proof -
  obtain app where p: "sampleMain = Inr app" and skip: "skipRuntime (app_process app) = (\<lambda>_. False)"
    using sampleMain_Inr by blast
  let ?start = "app_process app"
  let ?p = "fst (populateCacheAndQueue alist_cache ref_queue_ops samplePollEnv ?start samplePage)"
  let ?W = "main_worlds ref_ttl_ops :: (ref_ttl KubeconfigProvider, unit, unit_clients,
    (unit_interface, nat cluster_scan) EdpCollector, nat cluster_scan) work_env set"
  let ?S = "(system_start ?start)\<lparr>sys_proc := ?p\<rparr>"
  have run: "reachable alist_cache ref_queue_ops rq_tick UNIV ?W ?start ?S"
    using lift_poller_run [of samplePollEnv UNIV alist_cache ref_queue_ops "system_start ?start" ?p Resting rq_tick ?W]
      populate_run [of alist_cache ref_queue_ops samplePollEnv ?start samplePage] by (simp add: system_start_def)
  have jitter: "\<forall>rand. getJitterTTL rand (opt_KubeconfigCacheTTL sampleOptions) \<noteq> None"
    by (simp add: getJitterTTL_def sampleOptions_def Minute_def)
  have "ca_Get alist_cache (p_Cache ?p) ''s'' \<noteq> None" using skip by (rule sample_polled)
  with main_safe [OF ref_libs.process_libs_axioms ref_ttl.ttlcache_axioms p [unfolded sampleMain_def] jitter run]
  have "''s'' \<in> rq_pending (p_Queue ?p)"
    by (auto simp: system_start_def)
  then show ?thesis using p \<open>ca_Get alist_cache (p_Cache ?p) ''s'' \<noteq> None\<close> unfolding Let_def by blast
qed

text \<open>
  C40: unless the flag for it is given, the kubeconfig cache has a time to live of 30 minutes, for
  which the jitter is defined, whatever number is drawn: entries live between 30 and 39 minutes.
\<close>

theorem default_ttl_safe:
  assumes "ParseArgs setLevel fl = Some opts" and "fl_kubeconfig_cache_ttl fl = None"
    and "\<forall>n. 0 < sint n \<longrightarrow> 0 \<le> sint (rand n) \<and> sint (rand n) < sint n"
  shows "\<exists>d. getJitterTTL rand (opt_KubeconfigCacheTTL opts) = Some d \<and> 30 * Minute \<le> sint d \<and> sint d < 39 * Minute"
proof -
  have "opt_KubeconfigCacheTTL opts = word_of_int (30 * Minute)"
    using assms(1,2)
    by (auto simp: ParseArgs_def flag_value_def DefaultKubeconfigCacheTTL_def Minute_def Let_def split: sum.splits)
  moreover have "sint (word_of_int (30 * Minute) :: int64) = 30 * Minute"
    by (rule sint_of_int_64) (simp_all add: Minute_def)
  ultimately have ttl: "sint (opt_KubeconfigCacheTTL opts) = 30 * Minute" by simp
  show ?thesis using jitter_whole_minutes [OF _ _ ttl assms(3)] ttl by (auto simp: Minute_def)
qed

definition noFlags :: flags where
  "noFlags = \<lparr>fl_scrape_interval = None, fl_worker_pool_size = None, fl_log_level = None, fl_listen_addr = None,
     fl_debug_port = None, fl_filter_runtime_file = None, fl_kubeconfig_cache_ttl = None\<rparr>"

theorem default_ttl_safe_witness:
  "\<exists>opts d. ParseArgs (\<lambda>_. Inr ()) noFlags = Some opts \<and>
     getJitterTTL (\<lambda>n. 0) (opt_KubeconfigCacheTTL opts) = Some d \<and> sint d < 39 * Minute"
proof -
  obtain opts :: "unit Options" where o: "ParseArgs (\<lambda>_. Inr ()) noFlags = Some opts"
    by (simp add: ParseArgs_def Let_def)
  from default_ttl_safe [OF o, of "\<lambda>n. 0"] show ?thesis using o by (auto simp: noFlags_def)
qed

end
