(* ===== verification/MetricSafety.thy ===== *)
theory MetricSafety
  imports Application
begin

text \<open>
  No call the program makes on its metrics can panic: every call of a poll and of a worker's round
  names a vector of the right kind and passes one value for each of its labels, or matches on labels
  the vector has.
\<close>

section \<open>Effects\<close>

text \<open>All metric calls among some effects satisfy a predicate.\<close>

fun effect_sat :: "(metric_call \<Rightarrow> bool) \<Rightarrow> effect \<Rightarrow> bool" where
  "effect_sat P (Metric c) = P c"
| "effect_sat P (HttpSend w b) = True"
| "effect_sat P CloseConnections = True"

abbreviation effects_sat :: "(metric_call \<Rightarrow> bool) \<Rightarrow> effect list \<Rightarrow> bool" where
  "effects_sat P effs \<equiv> list_all (effect_sat P) effs"

abbreviation effects_ok :: "effect list \<Rightarrow> bool" where
  "effects_ok effs \<equiv> effects_sat well_labelled effs"

lemma effects_sat_Metric [simp]: "effects_sat P (map Metric calls) = list_all P calls"
  by (induction calls) simp_all

lemma effects_sat_concat: "effects_sat P (concat xss) = list_all (effects_sat P) xss"
  by (induction xss) simp_all

text \<open>What a collection cycle for a runtime calls.\<close>

definition collect_calls :: "(metric_call \<Rightarrow> bool) \<Rightarrow> Info \<Rightarrow> bool" where
  "collect_calls P rt \<longleftrightarrow> (\<forall>b i. P (RecordScan b i rt)) \<and> (\<forall>b i be. P (RecordScanConversion b i be rt)) \<and>
     (\<forall>d st u. P (recordEDPLatency d st u))"

lemma collect_calls_ok: "collect_calls well_labelled rt"
  by (simp add: collect_calls_def)

section \<open>The collection cycle\<close>

lemma executeScans_step_sat:
  assumes "collect_calls P rt" and "list_all P (snd (snd st))"
  shows "list_all P (snd (snd (executeScans_step prev rt cl st s)))"
  using assms by (cases st) (simp add: executeScans_step_def collect_calls_def Let_def split: sum.split option.split)

lemma executeScans_sat: "collect_calls P rt \<Longrightarrow> list_all P (snd (snd (executeScans ss prev rt cl)))"
  using foldl_keeps [of "\<lambda>st. list_all P (snd (snd st))" "([], [], [])" "executeScans_step prev rt cl" ss]
  by (simp add: executeScans_def executeScans_step_sat case_prod_beta Let_def)

lemma convert_step_sat:
  assumes "collect_calls P rt" and "list_all P (snd (snd (snd st)))"
  shows "list_all P (snd (snd (snd (convert_step conv prev rt st e))))"
  using assms by (cases st; cases e) (simp add: convert_step_def collect_calls_def Let_def split: prod.split option.split)

lemma convertScans_sat:
  "collect_calls P rt \<Longrightarrow> list_all P (snd (snd (snd (convertScansToEDPMeasurements ord conv cur prev rt))))"
  using foldl_keeps [of "\<lambda>st. list_all P (snd (snd (snd st)))" "([], [], [], [])" "convert_step conv prev rt" "ord cur"]
  by (simp add: convertScansToEDPMeasurements_def convert_step_sat case_prod_beta Let_def)

lemma edp_Send_sat: "\<forall>d st u. P (recordEDPLatency d st u) \<Longrightarrow> effects_sat P (snd (edp_Send retryDo c httpDo req body))"
  by (auto simp: edp_Send_def edp_attempt_def effects_sat_concat list_all_iff Let_def
      split: prod.splits http_result.splits)

lemma sendPayload_sat: "\<forall>d st u. P (recordEDPLatency d st u) \<Longrightarrow> effects_sat P (snd (sendPayload env c pl sub))"
  using edp_Send_sat [of P "env_retry env" c "env_httpDo env"]
  by (auto simp: sendPayload_def split: sum.splits prod.splits) (metis snd_conv)+

lemma CollectAndSend_sat: "collect_calls P rt \<Longrightarrow> effects_sat P (snd (snd (CollectAndSend env c rt cl prev)))"
  using executeScans_sat [of P rt "ec_scanners c" prev cl]
    convertScans_sat [of P rt "env_ord env" "env_conv env" "fst (executeScans (ec_scanners c) prev rt cl)" prev]
    sendPayload_sat [of P env "ecl_Config (ec_EDPClient c)"]
  by (simp add: CollectAndSend_def collect_calls_def case_prod_beta Let_def)

section \<open>A round of a worker\<close>

lemma kubeconfig_Get_ok:
  "kubeconfig_Get T secretsGet rand k i = Some (r, k', calls) \<Longrightarrow> list_all well_labelled calls"
  by (auto simp: kubeconfig_Get_def recordMetrics_def Let_def split: option.splits prod.splits)

lemma process_ok:
  "effects_ok (snd (snd (processSubAccountID C Q (main_work_env T secretsGet rand restConfig libs env) p s)))"
  using CollectAndSend_sat [OF collect_calls_ok, of env "p_EDPCollector p"]
  by (simp add: processSubAccountID_def main_work_env_def handleError_def with_effects_def Let_def case_prod_beta
      kubeconfig_Get_ok split: option.split cache_item.split sum.split prod.split)

lemma execute_round_ok:
  assumes "execute_round C Q (main_work_env T secretsGet rand restConfig libs env) p = Some (out, p', effs)"
  shows "effects_ok effs"
proof -
  from assms obtain s q where "qo_Get Q (p_Queue p) = Some (s, q)"
    by (auto simp: execute_round_def split: option.splits)
  then show ?thesis
    using assms process_ok [of C Q T secretsGet rand restConfig libs env "p\<lparr>p_Queue := q\<rparr>" s]
    by (auto simp: execute_round_def Let_def split: outcome.splits prod.splits)
qed

section \<open>Polls\<close>

lemma populate_step_ok:
  "list_all well_labelled (snd (snd st)) \<Longrightarrow>
     list_all well_labelled (snd (snd (populate_step C Q env st r)))"
  by (cases st)
    (simp add: populate_step_def recordFetched_def Let_def split: option.split cache_item.split sum.split)

lemma cleanup_step_ok:
  "list_all well_labelled (snd st) \<Longrightarrow> list_all well_labelled (snd (cleanup_step C env v st e))"
  by (cases st; cases e) (simp add: cleanup_step_def Let_def)

lemma populate_ok: "list_all well_labelled (snd (populateCacheAndQueue C Q env p page))"
proof -
  let ?st = "foldl (populate_step C Q env) (p, [], [ResetVec kebFetchedClusters]) (pg_Data page)"
  have "list_all well_labelled (snd (snd ?st))"
    by (rule foldl_keeps [where P = "\<lambda>st. list_all well_labelled (snd (snd st))"]) (simp_all add: populate_step_ok)
  then show ?thesis
    using foldl_keeps [of "\<lambda>st. list_all well_labelled (snd st)" "(fst ?st, snd (snd ?st))"
        "cleanup_step C env (fst (snd ?st))"]
    by (simp add: populateCacheAndQueue_def cleanup_step_ok case_prod_beta Let_def)
qed

lemma keb_attempt_sat:
  "\<forall>d st u. P (recordKEBLatency d st u) \<Longrightarrow> effects_sat P (snd (keb_attempt c httpDo unmarshal req i))"
  by (simp add: keb_attempt_def Let_def split: prod.split http_result.split)

lemma getRuntimesPerPage_sat:
  "\<forall>d st u. P (recordKEBLatency d st u) \<Longrightarrow> effects_sat P (snd (snd (getRuntimesPerPage retryDo c httpDo unmarshal req n)))"
  by (simp add: getRuntimesPerPage_def case_prod_beta Let_def effects_sat_concat list_all_iff [of "effects_sat P"]
      keb_attempt_sat)

lemma keb_loop_sat:
  assumes "keb_loop getPage req n seen fdata effs = Some y"
  shows "\<forall>req n. effects_sat P (snd (snd (getPage req n))) \<Longrightarrow> effects_sat P effs \<Longrightarrow> effects_sat P (snd y)"
  using assms
proof (induction getPage req n seen fdata effs y rule: keb_loop_induct)
  case (step loop getPage req n seen fdata effs y)
  obtain r req' e where get: "getPage req n = (r, req', e)" by (metis prod_cases3)
  have effs: "effects_sat P (effs @ e)" using step(3,4) get by (metis list_all_append snd_conv)
  show ?case
  proof (cases r)
    case (Inr page)
    show ?thesis
    proof (cases "int64_ge (seen + pg_Count page) (pg_TotalCount page)")
      case False
      then have "loop getPage req' (n + 1) (seen + pg_Count page) (fdata @ pg_Data page) (effs @ e) = Some y"
        using step(2) get Inr by (simp add: Let_def)
      then show ?thesis using step(1) [OF _ step(3) effs] by blast
    qed (use step(2) get Inr effs in \<open>auto simp: Let_def\<close>)
  qed (use step(2) get effs in auto)
qed

lemma GetAllRuntimes_sat:
  "GetAllRuntimes retryDo c httpDo unmarshal req = Some (r, effs) \<Longrightarrow> \<forall>d st u. P (recordKEBLatency d st u) \<Longrightarrow> effects_sat P effs"
  unfolding GetAllRuntimes_def by (drule keb_loop_sat [where P = P]) (simp_all add: getRuntimesPerPage_sat)

lemma poll_round_ok: "effects_ok (snd fetched) \<Longrightarrow> effects_ok (snd (poll_round C Q env p fetched))"
  using populate_ok [of C Q env p] by (cases fetched) (simp add: poll_round_def case_prod_beta Let_def split: sum.split)

lemma poll_rounds_ok:
  "poll_rounds C Q env retryDo unmarshal kebReq p worlds = Some (p', effs) \<Longrightarrow> effects_ok effs"
proof (induction worlds arbitrary: p p' effs)
  case (Cons httpDo rest)
  obtain fetched where f: "GetAllRuntimes retryDo (kcl_Config (p_KEBClient p)) httpDo unmarshal kebReq = Some fetched"
    using Cons.prems by (auto split: option.splits)
  obtain p1 effs1 where r: "poll_round C Q env p fetched = (p1, effs1)" by fastforce
  obtain p2 effs2 where rest: "poll_rounds C Q env retryDo unmarshal kebReq p1 rest = Some (p2, effs2)" "effs = effs1 @ effs2"
    using Cons.prems f r by (auto split: option.splits)
  have "effects_ok (snd fetched)" using f GetAllRuntimes_sat [where P = well_labelled] by (cases fetched) fastforce
  then have "effects_ok effs1" using poll_round_ok [of fetched C Q env p] r by simp
  then show ?case using rest Cons.IH by simp
qed simp

text \<open>
  C17: no metric call of the program can panic, whatever the broker, the platform, the clusters and the
  libraries answer: in every effect of a worker's round and of any number of polls each vector gets a
  value for each of its labels, and each call exists for the kind of the vector. (The library also refuses label
  values that are not UTF-8; the values here come from decoded JSON or are constants of the program.)
\<close>

theorem metric_calls_safe:
  "(case execute_round C Q (main_work_env T secretsGet rand restConfig libs env) p of
      None \<Rightarrow> True | Some (out, p', effs) \<Rightarrow> effects_ok effs) \<and>
   (case pollKEBForRuntimes C Q penv retryDo unmarshal parseRequestURI p worlds of
      None \<Rightarrow> True | Some (p', effs) \<Rightarrow> effects_ok effs)"
  using execute_round_ok poll_rounds_ok
  by (auto simp: pollKEBForRuntimes_def split: option.split sum.split)

end
