(* ===== verification/Registry.thy ===== *)
theory Registry
  imports MetricSafety
begin

text \<open>
  What the metrics endpoint shows. The contract of the Prometheus vectors as a locale, and with it what
  the calls of the program add up to: after a poll the counters of fetched clusters are those of the
  reported runtimes, and the series of clusters follow the record cache.
\<close>

section \<open>The vectors\<close>

text \<open>The series a call creates when it is not there yet.\<close>

fun touched :: "metric_call \<Rightarrow> (metric \<times> string list) option" where
  "touched (Inc m vs) = Some (m, vs)"
| "touched (SetGauge m vs _) = Some (m, vs)"
| "touched (SetToCurrentTime m vs) = Some (m, vs)"
| "touched (Observe m vs _) = Some (m, vs)"
| "touched (ResetVec m) = None"
| "touched (DeletePartialMatch m ml) = None"

text \<open>
  A call on a vector creates the series of its label values, \<open>Inc\<close> counts one up from zero, \<open>Reset\<close> drops
  all series of a vector and \<open>DeletePartialMatch\<close> those that carry the given labels.
\<close>

locale prom_registry =
  fixes perform :: "metric_call \<Rightarrow> 'r \<Rightarrow> 'r" and shown :: "'r \<Rightarrow> metric \<Rightarrow> string list \<Rightarrow> bool"
    and counted :: "'r \<Rightarrow> metric \<Rightarrow> string list \<Rightarrow> nat" and fresh :: 'r
  assumes shown_fresh: "\<not> shown fresh m vs"
    and shown_length: "shown r m vs \<Longrightarrow> length vs = length (metric_labels m)"
    and shown_touch: "well_labelled c \<Longrightarrow> touched c = Some (m, vs) \<Longrightarrow>
      shown (perform c r) m' vs' \<longleftrightarrow> m' = m \<and> vs' = vs \<or> shown r m' vs'"
    and shown_reset: "shown (perform (ResetVec m) r) m' vs' \<longleftrightarrow> m' \<noteq> m \<and> shown r m' vs'"
    and shown_delete: "well_labelled (DeletePartialMatch m ml) \<Longrightarrow>
      shown (perform (DeletePartialMatch m ml) r) m' vs' \<longleftrightarrow> shown r m' vs' \<and> \<not> (m' = m \<and> partial_match ml (series m vs'))"
    and counted_hidden: "\<not> shown r m vs \<Longrightarrow> counted r m vs = 0"
    and counted_inc: "well_labelled (Inc m vs) \<Longrightarrow>
      counted (perform (Inc m vs) r) m' vs' = counted r m' vs' + (if m' = m \<and> vs' = vs then 1 else 0)"
    and counted_touch: "well_labelled c \<Longrightarrow> touched c = Some (m, vs) \<Longrightarrow> m' \<noteq> m \<Longrightarrow>
      counted (perform c r) m' vs' = counted r m' vs'"
    and counted_delete: "well_labelled (DeletePartialMatch m ml) \<Longrightarrow> m' \<noteq> m \<Longrightarrow>
      counted (perform (DeletePartialMatch m ml) r) m' vs' = counted r m' vs'"

text \<open>A reference implementation: for each vector a map from label values to the count.\<close>

type_synonym ref_registry = "metric \<Rightarrow> string list \<Rightarrow> nat option"

definition rr_shown :: "ref_registry \<Rightarrow> metric \<Rightarrow> string list \<Rightarrow> bool" where
  "rr_shown r m vs \<longleftrightarrow> length vs = length (metric_labels m) \<and> r m vs \<noteq> None"

definition rr_counted :: "ref_registry \<Rightarrow> metric \<Rightarrow> string list \<Rightarrow> nat" where
  "rr_counted r m vs = (if rr_shown r m vs then case r m vs of None \<Rightarrow> 0 | Some n \<Rightarrow> n else 0)"

fun rr_perform :: "metric_call \<Rightarrow> ref_registry \<Rightarrow> ref_registry" where
  "rr_perform (Inc m vs) r = r(m := (r m)(vs \<mapsto> rr_counted r m vs + 1))"
| "rr_perform (SetGauge m vs _) r = r(m := (r m)(vs \<mapsto> 0))"
| "rr_perform (SetToCurrentTime m vs) r = r(m := (r m)(vs \<mapsto> 0))"
| "rr_perform (Observe m vs _) r = r(m := (r m)(vs \<mapsto> 0))"
| "rr_perform (ResetVec m) r = r(m := Map.empty)"
| "rr_perform (DeletePartialMatch m ml) r = r(m := \<lambda>vs. if partial_match ml (series m vs) then None else r m vs)"

definition rr_fresh :: ref_registry where
  "rr_fresh = (\<lambda>_ _. None)"

lemma rr_touch:
  assumes "well_labelled c" and "touched c = Some (m, vs)"
  shows "rr_shown (rr_perform c r) m' vs' \<longleftrightarrow> m' = m \<and> vs' = vs \<or> rr_shown r m' vs'"
    and "m' \<noteq> m \<Longrightarrow> rr_counted (rr_perform c r) m' vs' = rr_counted r m' vs'"
  using assms by (cases c; auto simp: rr_shown_def rr_counted_def)+

interpretation ref_registry: prom_registry rr_perform rr_shown rr_counted rr_fresh
proof
  show "rr_counted (rr_perform (Inc m vs) r) m' vs' = rr_counted r m' vs' + (if m' = m \<and> vs' = vs then 1 else 0)"
    if "well_labelled (Inc m vs)" for m vs r m' vs'
    using that by (auto simp: rr_shown_def rr_counted_def)
qed (use rr_touch in \<open>auto simp: rr_shown_def rr_counted_def rr_fresh_def\<close>)

section \<open>The vectors of a cluster\<close>

definition cluster_metrics :: "metric set" where
  "cluster_metrics = {subAccountProcessed, subAccountProcessedTimeStamp, TotalScans, TotalScansConverted}"

text \<open>The label values that name the cluster: the last five.\<close>

definition cluster_of :: "string list \<Rightarrow> string list" where
  "cluster_of vs = drop (length vs - 5) vs"

lemma cluster_match:
  assumes "m \<in> cluster_metrics" and "length vs = length (metric_labels m)"
  shows "partial_match (matchLabels r) (series m vs) \<longleftrightarrow> cluster_of vs = record_ident r"
proof -
  let ?ls = "[shootNameLabel, instanceIdLabel, runtimeIdLabel, subAccountLabel, globalAccountLabel]"
  obtain pre where labels: "metric_labels m = pre @ ?ls" "set pre \<subseteq> {successLabel, resourceNameLabel, backendNameLabel}"
    using assms(1) by (auto simp: cluster_metrics_def)
  have vs: "vs = take (length pre) vs @ cluster_of vs" "length (take (length pre) vs) = length pre"
    using assms(2) by (simp_all add: labels(1) cluster_of_def)
  have five: "length (cluster_of vs) = 5" using assms(2) by (simp add: labels(1) cluster_of_def)
  obtain v1 v2 v3 v4 v5 where v: "cluster_of vs = [v1, v2, v3, v4, v5]"
    using five by (auto simp: numeral_eq_Suc length_Suc_conv)
  have "series m vs = zip pre (take (length pre) vs) @ zip ?ls (cluster_of vs)"
    unfolding series_def labels(1) using vs(2) by (subst vs(1), subst zip_append) simp_all
  moreover have "fst ` set (zip pre (take (length pre) vs)) \<subseteq> {successLabel, resourceNameLabel, backendNameLabel}"
    using labels(2) by (auto dest: set_zip_leftD)
  ultimately show ?thesis using partial_match_labels [of "zip pre (take (length pre) vs)" r v1 v2 v3 v4 v5] v by simp
qed

context prom_registry
begin

lemma shown_deleteMetrics:
  "shown (fold perform (snd (deleteMetrics d r)) reg) m vs \<longleftrightarrow>
     shown reg m vs \<and> \<not> (m \<in> cluster_metrics \<and> cluster_of vs = record_ident r)"
proof -
  have "shown (fold perform (snd (deleteMetrics d r)) reg) m vs \<longleftrightarrow>
      shown reg m vs \<and> \<not> (m \<in> cluster_metrics \<and> partial_match (matchLabels r) (series m vs))"
    using well_labelled_delete [of d r]
    by (auto simp: deleteMetrics_def Let_def shown_delete cluster_metrics_def)
  then show ?thesis using cluster_match shown_length by blast
qed

lemma counted_deleteMetrics:
  "m \<notin> cluster_metrics \<Longrightarrow> counted (fold perform (snd (deleteMetrics d r)) reg) m vs = counted reg m vs"
  using well_labelled_delete [of d r]
  by (auto simp: deleteMetrics_def Let_def counted_delete cluster_metrics_def)

lemma keb_deletions:
  assumes "ds = [] \<or> (\<exists>old :: 's Record. ds = snd (deleteMetrics d old))"
  shows "counted (fold perform ds reg) kebFetchedClusters vs = counted reg kebFetchedClusters vs"
    and "shown (fold perform ds reg) kebFetchedClusters vs = shown reg kebFetchedClusters vs"
proof -
  have keb: "kebFetchedClusters \<notin> cluster_metrics" by (simp add: cluster_metrics_def)
  show "counted (fold perform ds reg) kebFetchedClusters vs = counted reg kebFetchedClusters vs"
    using assms counted_deleteMetrics [OF keb] by (elim disjE exE) simp_all
  show "shown (fold perform ds reg) kebFetchedClusters vs = shown reg kebFetchedClusters vs"
    using assms keb by (elim disjE exE) (simp_all only: shown_deleteMetrics fold_simps(1) simp_thms)
qed

end

section \<open>Fetched clusters\<close>

text \<open>The runtimes a poll counts, and the label values under which it does.\<close>

definition polled :: "('coll, 'prov, 'log, 'c, 'q) Process \<Rightarrow> RuntimeDTO \<Rightarrow> bool" where
  "polled p r \<longleftrightarrow> dto_SubAccountID r \<noteq> '''' \<and> \<not> skipRuntime p r"

definition fetched_labels :: "poll_env \<Rightarrow> RuntimeDTO \<Rightarrow> string list" where
  "fetched_labels env r = [FormatBool (tracked env r), dto_ShootName r, dto_InstanceID r, dto_RuntimeID r,
     dto_SubAccountID r, dto_GlobalAccountID r]"

lemma populate_step_calls:
  "\<exists>ds. (ds = [] \<or> (\<exists>old :: 's Record. ds = snd (deleteMetrics (pe_deleted env) old))) \<and>
     snd (snd (populate_step (C :: ('c, 's cache_item) cache_ops) Q env (p, v, calls) r)) =
       calls @ (if polled p r then Inc kebFetchedClusters (fetched_labels env r) # ds else [])"
  by (auto simp: populate_step_def polled_def recordFetched_def recordKEBFetchedClusters_def fetched_labels_def
      tracked_def Let_def split: option.split cache_item.split sum.split)

lemma cleanup_step_calls:
  "\<exists>ds. (ds = [] \<or> (\<exists>old :: 's Record. ds = snd (deleteMetrics (pe_deleted env) old))) \<and>
     snd (cleanup_step (C :: ('c, 's cache_item) cache_ops) env v (p, calls) e) = calls @ ds"
  by (cases e) (auto simp: cleanup_step_def Let_def)

locale metered = process_libs C Q tick pending processing qinv + prom_registry perform shown counted fresh
  for C :: "('c, 's cache_item) cache_ops" and Q :: "'q queue_ops" and tick pending processing qinv
    and perform :: "metric_call \<Rightarrow> 'r \<Rightarrow> 'r" and shown counted fresh
begin

lemma step_fetched:
  "counted (fold perform (snd (snd (populate_step C Q env (p, v, calls) r))) reg) kebFetchedClusters vs =
     counted (fold perform calls reg) kebFetchedClusters vs + (if polled p r \<and> vs = fetched_labels env r then 1 else 0) \<and>
   (shown (fold perform (snd (snd (populate_step C Q env (p, v, calls) r))) reg) kebFetchedClusters vs \<longleftrightarrow>
     shown (fold perform calls reg) kebFetchedClusters vs \<or> polled p r \<and> vs = fetched_labels env r)"
proof -
  have wl: "well_labelled (Inc kebFetchedClusters (fetched_labels env r))"
    by (simp add: fetched_labels_def)
  obtain ds where ds: "ds = [] \<or> (\<exists>old :: 's Record. ds = snd (deleteMetrics (pe_deleted env) old))"
    "snd (snd (populate_step C Q env (p, v, calls) r)) =
       calls @ (if polled p r then Inc kebFetchedClusters (fetched_labels env r) # ds else [])"
    using populate_step_calls [of env C Q p v calls r] by (elim exE conjE) (rule that)
  show ?thesis
    unfolding ds(2)
    by (cases "polled p r"; cases "vs = fetched_labels env r")
      (simp_all add: keb_deletions [OF ds(1)] counted_inc [OF wl] shown_touch [OF wl touched.simps(1)])
qed

lemma populate_fetched:
  "counted (fold perform (snd (snd (foldl (populate_step C Q env) (p, v, calls) rs))) reg) kebFetchedClusters vs =
     counted (fold perform calls reg) kebFetchedClusters vs + length (filter (\<lambda>r. polled p r \<and> vs = fetched_labels env r) rs) \<and>
   (shown (fold perform (snd (snd (foldl (populate_step C Q env) (p, v, calls) rs))) reg) kebFetchedClusters vs \<longleftrightarrow>
     shown (fold perform calls reg) kebFetchedClusters vs \<or> (\<exists>r \<in> set rs. polled p r \<and> vs = fetched_labels env r))"
proof (induction rs arbitrary: p v calls)
  case (Cons r rs)
  obtain p' v' calls' where st: "populate_step C Q env (p, v, calls) r = (p', v', calls')" by (metis prod_cases3)
  have "polled p' = polled p" using step_skip [of env p v calls r] st by (simp add: polled_def fun_eq_iff)
  then show ?case using Cons.IH [of p' v' calls'] step_fetched [of env p v calls r reg vs] st by auto
qed simp

lemma cleanup_fetched:
  "counted (fold perform (snd (foldl (cleanup_step C env v) (p, calls) es)) reg) kebFetchedClusters vs =
     counted (fold perform calls reg) kebFetchedClusters vs \<and>
   (shown (fold perform (snd (foldl (cleanup_step C env v) (p, calls) es)) reg) kebFetchedClusters vs \<longleftrightarrow>
     shown (fold perform calls reg) kebFetchedClusters vs)"
proof (induction es arbitrary: p calls)
  case (Cons e es)
  obtain p' calls' where st: "cleanup_step C env v (p, calls) e = (p', calls')" by fastforce
  obtain ds where ds: "ds = [] \<or> (\<exists>old :: 's Record. ds = snd (deleteMetrics (pe_deleted env) old))" "calls' = calls @ ds"
    using cleanup_step_calls [of env C v p calls e] st by auto
  show ?case using Cons.IH [of p' calls'] st by (simp add: ds(2) keb_deletions [OF ds(1)])
qed simp

lemma poll_fetched:
  "counted (fold perform (snd (populateCacheAndQueue C Q env p page)) reg) kebFetchedClusters vs =
     length (filter (\<lambda>r. polled p r \<and> vs = fetched_labels env r) (pg_Data page)) \<and>
   (shown (fold perform (snd (populateCacheAndQueue C Q env p page)) reg) kebFetchedClusters vs \<longleftrightarrow>
     (\<exists>r \<in> set (pg_Data page). polled p r \<and> vs = fetched_labels env r))"
proof -
  have "\<not> shown (perform (ResetVec kebFetchedClusters) reg) kebFetchedClusters vs"
    "counted (perform (ResetVec kebFetchedClusters) reg) kebFetchedClusters vs = 0"
    by (simp_all add: shown_reset counted_hidden)
  then show ?thesis
    using populate_fetched [of env p "[]" "[ResetVec kebFetchedClusters]" "pg_Data page" reg vs]
    by (simp add: populateCacheAndQueue_def cleanup_fetched case_prod_beta Let_def)
qed

end

text \<open>
  C19: after a poll the counters of the fetched clusters are exactly those of the reported runtimes: a
  series is there if and only if a runtime was reported with its label values, in a subaccount and not of
  a filtered account, and its value is the number of such runtimes. Nothing remains of earlier polls.
\<close>

theorem poll_exposes_fetched:
  assumes "process_libs C Q tick pending processing qinv" and "prom_registry perform shown counted fresh"
  shows "let (p', calls) = populateCacheAndQueue C Q env p page; reg' = fold perform calls reg
         in counted reg' kebFetchedClusters vs = length (filter (\<lambda>r. polled p r \<and> vs = fetched_labels env r) (pg_Data page)) \<and>
            (shown reg' kebFetchedClusters vs \<longleftrightarrow> (\<exists>r \<in> set (pg_Data page). polled p r \<and> vs = fetched_labels env r))"
  using metered.poll_fetched [OF metered.intro [OF assms]] by (simp add: case_prod_beta Let_def)

interpretation ref_metered: metered alist_cache ref_queue_ops rq_tick rq_pending "\<lambda>q. set (rq_processing q)" rq_inv
  rr_perform rr_shown rr_counted rr_fresh ..

theorem poll_exposes_fetched_witness:
  "let (p', calls) = populateCacheAndQueue alist_cache ref_queue_ops samplePollEnv sampleProcess samplePage
   in rr_counted (fold rr_perform calls rr_fresh) kebFetchedClusters (fetched_labels samplePollEnv sampleRuntime) = 1"
  using poll_exposes_fetched [OF ref_libs.process_libs_axioms ref_registry.prom_registry_axioms,
      of samplePollEnv sampleProcess samplePage rr_fresh "fetched_labels samplePollEnv sampleRuntime"]
  by (simp add: case_prod_beta Let_def samplePage_def polled_def sampleRuntime_def skipRuntime_def sampleProcess_def)

section \<open>Cluster series and the cache\<close>

text \<open>
  The exposed series of clusters belong to cached records. There is one exception: for a subaccount it
  finds no longer cached a worker counts a failure under the subaccount alone.
\<close>

definition accounted ::
  "('c, 's cache_item) cache_ops \<Rightarrow> ('r \<Rightarrow> metric \<Rightarrow> string list \<Rightarrow> bool) \<Rightarrow> 'c \<Rightarrow> 'r \<Rightarrow> bool" where
  "accounted C shown c reg \<longleftrightarrow>
     (\<forall>m vs. m \<in> cluster_metrics \<longrightarrow> shown reg m vs \<longrightarrow>
        (\<exists>s r. ca_Get C c s = Some (RecordItem r) \<and> cluster_of vs = record_ident r) \<or>
        m = subAccountProcessed \<and> (\<exists>s. vs = [''false'', '''', '''', '''', s, '''']))"

text \<open>A call that creates no series of a cluster but those named.\<close>

definition about :: "string list set \<Rightarrow> metric_call \<Rightarrow> bool" where
  "about I c \<longleftrightarrow> well_labelled c \<and>
     (case touched c of None \<Rightarrow> True | Some (m, vs) \<Rightarrow> m \<in> cluster_metrics \<longrightarrow> cluster_of vs \<in> I)"

lemma record_ident_scans [simp]: "record_ident (r\<lparr>rec_ScanMap := x\<rparr>) = record_ident r"
  by (simp add: record_ident_def)

lemma info_ident_runtimeInfo [simp]: "info_ident (runtimeInfo r) = record_ident r"
  by (simp add: info_ident_def record_ident_def runtimeInfo_def)

lemma about_calls [simp]:
  "about I (recordItemsInCache n)" "about I (recordEDPLatency d st u)" "about I (recordKEBLatency d st u)"
  "about I (recordSubAccountProcessed b r) \<longleftrightarrow> record_ident r \<in> I"
  "about I (recordSubAccountProcessedTimeStamp r) \<longleftrightarrow> record_ident r \<in> I"
  "about I (RecordScan b res i) \<longleftrightarrow> info_ident i \<in> I"
  "about I (RecordScanConversion b res be i) \<longleftrightarrow> info_ident i \<in> I"
  "about I (recordFetched b rt)"
  by (simp_all add: about_def metric_call_defs recordFetched_def cluster_metrics_def cluster_of_def record_ident_def info_ident_def)

context prom_registry
begin

lemma shown_about:
  assumes "about I c" and "shown (perform c reg) m vs" and "m \<in> cluster_metrics"
  shows "shown reg m vs \<or> cluster_of vs \<in> I"
proof (cases c)
  case (ResetVec m')
  then show ?thesis using assms shown_reset by simp
next
  case (DeletePartialMatch m' ml)
  then show ?thesis using assms shown_delete by (auto simp: about_def)
qed (use assms shown_touch [of c] in \<open>auto simp: about_def\<close>)

lemma shown_abouts:
  "list_all (about I) cs \<Longrightarrow> shown (fold perform cs reg) m vs \<Longrightarrow> m \<in> cluster_metrics \<Longrightarrow> shown reg m vs \<or> cluster_of vs \<in> I"
proof (induction cs arbitrary: reg)
  case (Cons c cs)
  then show ?case using shown_about [of I c reg m vs] by auto
qed simp

lemma accounted_calls:
  assumes "accounted C shown c reg" and "list_all (about I) cs"
    and "\<forall>i \<in> I. \<exists>s r. ca_Get C c s = Some (RecordItem r) \<and> i = record_ident r"
  shows "accounted C shown c (fold perform cs reg)"
  using assms(1,3) shown_abouts [OF assms(2)] unfolding accounted_def by meson

lemma accounted_mono:
  assumes "accounted C shown c reg"
    and "\<And>s r. ca_Get C c s = Some (RecordItem r) \<Longrightarrow> \<exists>s' r'. ca_Get C c' s' = Some (RecordItem r') \<and> record_ident r' = record_ident r"
  shows "accounted C shown c' reg"
  using assms unfolding accounted_def by metis

lemma accounted_change:
  assumes "accounted C shown c reg" and "\<And>r. ca_Get C c k \<noteq> Some (RecordItem r)"
    and "\<And>s. s \<noteq> k \<Longrightarrow> ca_Get C c' s = ca_Get C c s"
  shows "accounted C shown c' reg"
  using assms(2,3) by (intro accounted_mono [OF assms(1)]) metis

text \<open>A record leaves the cache together with its series.\<close>

lemma accounted_displaced:
  assumes "accounted C shown c reg" and "ca_Get C c k = Some (RecordItem r)"
    and "\<And>s. s \<noteq> k \<Longrightarrow> ca_Get C c' s = ca_Get C c s"
  shows "accounted C shown c' (fold perform (snd (deleteMetrics d r)) reg)"
  using assms unfolding accounted_def shown_deleteMetrics by (metis cache_item.inject option.inject)

end

context metered
begin

abbreviation follows :: "('coll, 'prov, 'log, 'c, 'q) Process \<Rightarrow> 'r \<Rightarrow> bool" where
  "follows p reg \<equiv> accounted C shown (p_Cache p) reg"

lemma populate_step_follows:
  assumes "follows p (fold perform calls reg)" and "populate_step C Q env (p, v, calls) r = (p', v', calls')"
  shows "follows p' (fold perform calls' reg)"
proof (cases "polled p r")
  case True
  let ?s = "dto_SubAccountID r" and ?calls = "calls @ [recordFetched (tracked env r) r]"
  have f: "follows p (fold perform ?calls reg)"
    using accounted_calls [OF assms(1), of "{}" "[recordFetched (tracked env r) r]"] by simp
  show ?thesis
  proof (cases "ca_Get C (p_Cache p) ?s")
    case None
    have "follows (p\<lparr>p_Cache := ca_Set C (p_Cache p) ?s (RecordItem (newRecord r))\<rparr>) (fold perform ?calls reg)"
      using None by (intro accounted_change [OF f, where k = ?s]) (simp_all add: get_set)
    then show ?thesis
      using assms(2) True None f
      by (auto simp: populate_step_def polled_def tracked_def Let_def add_absent split: if_splits)
  next
    case (Some item)
    show ?thesis
    proof (cases item)
      case (RecordItem old)
      then have old: "ca_Get C (p_Cache p) ?s = Some (RecordItem old)" using Some by simp
      have "accounted C shown (ca_Set C (p_Cache p) ?s (RecordItem (newRecord r)))
          (fold perform (snd (deleteMetrics (pe_deleted env) old)) (fold perform ?calls reg))"
        by (rule accounted_displaced [OF f old]) (simp add: get_set)
      moreover have "accounted C shown (ca_Delete C (p_Cache p) ?s)
          (fold perform (snd (deleteMetrics (pe_deleted env) old)) (fold perform ?calls reg))"
        by (rule accounted_displaced [OF f old]) (simp add: get_delete)
      ultimately show ?thesis
        using assms(2) True old f
        by (auto simp: populate_step_def polled_def tracked_def Let_def split: if_splits)
    next
      case OtherItem
      have "follows (p\<lparr>p_Cache := ca_Delete C (p_Cache p) ?s\<rparr>) (fold perform ?calls reg)"
        using Some OtherItem by (intro accounted_change [OF f, where k = ?s]) (simp_all add: get_delete)
      then show ?thesis
        using assms(2) True Some OtherItem f
        by (auto simp: populate_step_def polled_def tracked_def Let_def split: if_splits)
    qed
  qed
qed (use assms in \<open>auto simp: populate_step_def polled_def Let_def split: if_splits\<close>)

lemma populate_follows:
  "follows p (fold perform calls reg) \<Longrightarrow> foldl (populate_step C Q env) (p, v, calls) rs = (p', v', calls') \<Longrightarrow>
     follows p' (fold perform calls' reg)"
proof (induction rs arbitrary: p v calls)
  case (Cons r rs)
  obtain p1 v1 calls1 where st: "populate_step C Q env (p, v, calls) r = (p1, v1, calls1)" by (metis prod_cases3)
  show ?case using Cons.IH [OF populate_step_follows [OF Cons.prems(1) st]] Cons.prems(2) st by simp
qed simp

lemma cleanup_follows:
  "follows p (fold perform calls reg) \<Longrightarrow> gm_wf es \<Longrightarrow> \<forall>(k, v) \<in> set es. ca_Get C (p_Cache p) k = Some v \<Longrightarrow>
     foldl (cleanup_step C env v) (p, calls) es = (p', calls') \<Longrightarrow> follows p' (fold perform calls' reg)"
proof (induction es arbitrary: p calls)
  case (Cons e es)
  obtain k item where e: "e = (k, item)" by fastforce
  obtain p1 calls1 where st: "cleanup_step C env v (p, calls) e = (p1, calls1)" by fastforce
  have get: "ca_Get C (p_Cache p) k = Some item" using Cons.prems(3) e by simp
  have "follows p1 (fold perform calls1 reg)"
  proof (cases item)
    case (RecordItem r)
    then show ?thesis
      using st e Cons.prems(1) accounted_displaced [OF Cons.prems(1) get [unfolded RecordItem], of "ca_Delete C (p_Cache p) k" "pe_deleted env"]
      by (auto simp: cleanup_step_def get_delete Let_def split: if_splits)
  next
    case OtherItem
    have "follows (p\<lparr>p_Cache := ca_Delete C (p_Cache p) k\<rparr>) (fold perform calls reg)"
      using get OtherItem by (intro accounted_change [OF Cons.prems(1), where k = k]) (simp_all add: get_delete)
    then have "follows (p\<lparr>p_Cache := ca_Delete C (p_Cache p) k\<rparr>)
        (fold perform (snd (deleteMetrics (pe_deleted env) (zeroRecord :: 's Record))) (fold perform calls reg))"
      unfolding accounted_def shown_deleteMetrics by blast
    then show ?thesis using st e OtherItem Cons.prems(1) by (auto simp: cleanup_step_def Let_def split: if_splits)
  qed
  moreover have "ca_Get C (p_Cache p1) k' = Some v'" if "(k', v') \<in> set es" for k' v'
  proof -
    have "k' \<noteq> k" "ca_Get C (p_Cache p) k' = Some v'" using Cons.prems(2,3) e that by force+
    then show ?thesis using st e by (auto simp: cleanup_step_def get_delete Let_def split: if_splits)
  qed
  ultimately show ?case using Cons.IH Cons.prems(2,4) st by (simp add: case_prod_beta)
qed simp

lemma poll_follows:
  assumes "follows p reg" and "populateCacheAndQueue C Q env p page = (p', calls)"
  shows "follows p' (fold perform calls reg)"
proof -
  obtain p1 v calls1 where loop: "foldl (populate_step C Q env) (p, [], [ResetVec kebFetchedClusters]) (pg_Data page) = (p1, v, calls1)"
    by (metis prod_cases3)
  have "follows p (fold perform [ResetVec kebFetchedClusters] reg)"
    using accounted_calls [OF assms(1), of "{}" "[ResetVec kebFetchedClusters]"] by (simp add: about_def)
  from populate_follows [OF this loop] show ?thesis
    by (rule cleanup_follows [OF _ items_wf [of "p_Cache p1"], where v = v])
      (use assms(2) loop in \<open>auto simp: populateCacheAndQueue_def item_iff\<close>)
qed

end

section \<open>A worker's round\<close>

lemma list_all_metric_calls: "list_all P (metric_calls effs) \<longleftrightarrow> effects_sat P effs"
  by (induction effs rule: metric_calls.induct) simp_all

lemma kubeconfig_Get_about: "kubeconfig_Get T secretsGet rand k i = Some (r, k', calls) \<Longrightarrow> list_all (about I) calls"
  by (auto simp: kubeconfig_Get_def recordMetrics_def Let_def about_def cluster_metrics_def split: option.splits prod.splits)

text \<open>The work on a record creates no series of another cluster.\<close>

definition works_own :: "('prov, 'rc, 'cl, 'coll, 's) work_env \<Rightarrow> bool" where
  "works_own we \<longleftrightarrow> (\<forall>coll prov r. case scan_cluster we coll prov r of
     WorkPanic \<Rightarrow> True
   | WorkFailed prov' effs \<Rightarrow> effects_sat (about {record_ident r}) effs
   | WorkDone prov' scans effs \<Rightarrow> effects_sat (about {record_ident r}) effs)"

lemma works_ownD:
  assumes "works_own we"
  shows "scan_cluster we coll prov r = WorkFailed prov' effs \<Longrightarrow> effects_sat (about {record_ident r}) effs"
    and "scan_cluster we coll prov r = WorkDone prov' scans effs \<Longrightarrow> effects_sat (about {record_ident r}) effs"
  using assms [unfolded works_own_def, rule_format, of r coll prov] by simp_all

lemma main_works_own:
  assumes "we \<in> main_worlds T"
  shows "works_own we"
proof -
  from assms obtain secretsGet rand restConfig libs env where we: "we = main_work_env T secretsGet rand restConfig libs env"
    by (auto simp: main_worlds_def)
  have "case scan_cluster we coll prov r of WorkPanic \<Rightarrow> True
      | WorkFailed prov' effs \<Rightarrow> effects_sat (about {record_ident r}) effs
      | WorkDone prov' scans effs \<Rightarrow> effects_sat (about {record_ident r}) effs" for coll prov r
  proof -
    have "collect_calls (about {record_ident r}) (runtimeInfo r)" by (simp add: collect_calls_def)
    from CollectAndSend_sat [OF this, of env coll _ "rec_ScanMap r"]
    have "effects_sat (about {record_ident r}) e" if "CollectAndSend env coll (runtimeInfo r) cl (rec_ScanMap r) = (x, y, e)" for cl x y e
      using that by (metis snd_conv)
    then show ?thesis
      by (auto simp: scan_cluster_def we main_work_env_def kubeconfig_Get_about split: option.split prod.split)
  qed
  then show ?thesis unfolding works_own_def by blast
qed

context metered
begin

lemma work_follows:
  assumes "follows p reg" and "cache_wf C (p_Cache p)"
    and we: "works_own we"
    and run: "processSubAccountID C Q we p s = (out, p', effs)"
  shows "follows p' (fold perform (metric_calls effs) reg) \<and> cache_wf C (p_Cache p')"
proof (cases "ca_Get C (p_Cache p) s")
  case None
  let ?c = "recordSubAccountProcessed False ((zeroRecord :: 's Record)\<lparr>rec_SubAccountID := s\<rparr>)"
  have c: "touched ?c = Some (subAccountProcessed, [''false'', '''', '''', '''', s, ''''])"
    by (simp add: recordSubAccountProcessed_def zeroRecord_def FormatBool_def)
  have "follows p (perform ?c reg)"
    using assms(1) shown_touch [OF _ c, of reg] unfolding accounted_def by simp
  then show ?thesis using run None assms(2) by (auto simp: processSubAccountID_def)
next
  case (Some item)
  then obtain r where r: "ca_Get C (p_Cache p) s = Some (RecordItem r)" "rec_SubAccountID r = s" "s \<noteq> ''''"
    using cache_wf_record [OF assms(2)] by blast
  have calls: "follows p (fold perform (metric_calls e) reg)" if "effects_sat (about {record_ident r}) e" for e
    by (rule accounted_calls [OF assms(1)]) (use that r(1) in \<open>auto simp: list_all_metric_calls\<close>)
  show ?thesis
  proof (cases "scan_cluster we (p_EDPCollector p) (p_KubeconfigProvider p) r")
    case WorkPanic
    then show ?thesis using run assms(1,2) by (auto simp: process_record [OF r(1)])
  next
    case (WorkFailed prov e)
    then show ?thesis using run assms(2) calls [OF works_ownD(1) [OF we]] by (auto simp: process_record [OF r(1)])
  next
    case (WorkDone prov scans e)
    have "accounted C shown (ca_Set C (p_Cache p) s (RecordItem (r\<lparr>rec_ScanMap := scans\<rparr>))) (fold perform (metric_calls e) reg)"
    proof (rule accounted_mono [OF calls])
      show "effects_sat (about {record_ident r}) e" using works_ownD(2) [OF we WorkDone] .
      show "\<exists>s'' r''. ca_Get C (ca_Set C (p_Cache p) s (RecordItem (r\<lparr>rec_ScanMap := scans\<rparr>))) s'' = Some (RecordItem r'') \<and>
          record_ident r'' = record_ident r'" if "ca_Get C (p_Cache p) s' = Some (RecordItem r')" for s' r'
        using that r(1) by (cases "s' = s") (auto simp: get_set intro!: exI [of _ s'])
    qed
    moreover have "cache_wf C (ca_Set C (p_Cache p) s (RecordItem (r\<lparr>rec_ScanMap := scans\<rparr>)))"
      using assms(2) r(2,3) by (auto simp: cache_wf_def item_wf_def get_set)
    ultimately show ?thesis using run WorkDone r(2) by (auto simp: process_record [OF r(1)])
  qed
qed

lemma round_follows:
  assumes "follows p reg" and "cache_wf C (p_Cache p)" and "works_own we" and "execute_round C Q we p = Some (out, p', effs)"
  shows "follows p' (fold perform (metric_calls effs) reg) \<and> cache_wf C (p_Cache p')"
proof -
  from assms(4) obtain s q where get: "qo_Get Q (p_Queue p) = Some (s, q)"
    by (auto simp: execute_round_def split: option.splits)
  obtain out1 p1 effs1 where run: "processSubAccountID C Q we (p\<lparr>p_Queue := q\<rparr>) s = (out1, p1, effs1)"
    by (metis prod_cases3)
  have "follows p1 (fold perform (metric_calls effs1) reg) \<and> cache_wf C (p_Cache p1)"
    by (rule work_follows [OF _ _ assms(3) run]) (use assms(1,2) in simp_all)
  then show ?thesis using assms(4) get run by (cases out1) (auto simp: execute_round_def Let_def)
qed

end

section \<open>Polls and rounds in turn\<close>

text \<open>
  The program with its registry, when polls and rounds of workers do not overlap: a poll with any answer
  of the broker, a round in any of the worlds of the workers, or time going on.
\<close>

inductive metered_step ::
  "('c, 's cache_item) cache_ops \<Rightarrow> 'q queue_ops \<Rightarrow> ('q \<Rightarrow> 'q) \<Rightarrow> ('prov, 'rc, 'cl, 'coll, 's) work_env set
   \<Rightarrow> (metric_call \<Rightarrow> 'r \<Rightarrow> 'r) \<Rightarrow> ('coll, 'prov, 'log, 'c, 'q) Process \<times> 'r \<Rightarrow> ('coll, 'prov, 'log, 'c, 'q) Process \<times> 'r \<Rightarrow> bool"
  for C Q tick W perform where
  ms_poll: "GetAllRuntimes retryDo (kcl_Config (p_KEBClient p)) httpDo unmarshal kebReq = Some fetched \<Longrightarrow>
    poll_round C Q env p fetched = (p', effs) \<Longrightarrow>
    metered_step C Q tick W perform (p, reg) (p', fold perform (metric_calls effs) reg)"
| ms_work: "we \<in> W \<Longrightarrow> execute_round C Q we p = Some (out, p', effs) \<Longrightarrow>
    metered_step C Q tick W perform (p, reg) (p', fold perform (metric_calls effs) reg)"
| ms_tick: "metered_step C Q tick W perform (p, reg) (p\<lparr>p_Queue := tick (p_Queue p)\<rparr>, reg)"

context metered
begin

lemma poll_round_follows:
  assumes "follows p reg" and "cache_wf C (p_Cache p)"
    and "GetAllRuntimes retryDo keb httpDo unmarshal kebReq = Some fetched" and "poll_round C Q env p fetched = (p', effs)"
  shows "follows p' (fold perform (metric_calls effs) reg) \<and> cache_wf C (p_Cache p')"
proof -
  obtain res effs0 where f: "fetched = (res, effs0)" by fastforce
  have "list_all (about {}) (metric_calls effs0)"
    using GetAllRuntimes_sat [OF assms(3) [unfolded f], of "about {}"] by (simp add: list_all_metric_calls)
  then have start: "follows p (fold perform (metric_calls effs0) reg)" using accounted_calls [OF assms(1)] by blast
  show ?thesis
  proof (cases res)
    case (Inl err)
    then show ?thesis using assms(2,4) start f by (simp add: poll_round_def)
  next
    case (Inr page)
    obtain p1 calls where pop: "populateCacheAndQueue C Q env p page = (p1, calls)" by fastforce
    let ?n = "recordItemsInCache (f64_of_int64 (of_nat (ca_ItemCount C (p_Cache p1))))"
    have "follows p1 (fold perform (metric_calls effs0 @ calls @ [?n]) reg)"
      using accounted_calls [OF poll_follows [OF start pop], of "{}" "[?n]"] by simp
    moreover have "cache_wf C (p_Cache p1)" using populate_wf [OF assms(2), of env page] pop by simp
    ultimately show ?thesis using assms(4) f Inr pop by (auto simp: poll_round_def)
  qed
qed

lemma metered_step_follows:
  assumes "metered_step C Q tick W perform (p, reg) (p', reg')" and "\<forall>we \<in> W. works_own we"
    and "follows p reg" and "cache_wf C (p_Cache p)"
  shows "follows p' reg' \<and> cache_wf C (p_Cache p')"
  using assms(1)
proof cases
  case (ms_poll retryDo httpDo unmarshal kebReq fetched env effs)
  then show ?thesis using poll_round_follows [OF assms(3,4)] by blast
next
  case (ms_work we out effs)
  then show ?thesis using round_follows [OF assms(3,4)] assms(2) by blast
qed (use assms(3,4) in simp_all)

end

text \<open>
  C15: what is shown of clusters follows the cache. After any sequence of polls and rounds of workers that
  do not overlap, every exposed series of the processing counters, the timestamps, the scan counters and
  the conversion counters names the cluster of a record that is in the cache, whatever the broker, the
  platform and the clusters answer; the series of clusters that left the cache are gone. The only other
  series are failures counted under a subaccount alone, for subaccounts that a worker found gone.
\<close>

theorem metrics_follow_cache:
  assumes "process_libs C Q tick pending processing qinv" and "prom_registry perform shown counted fresh"
    and "\<forall>s. ca_Get C (p_Cache p) s = None"
    and "(metered_step C Q tick (main_worlds T) perform)\<^sup>*\<^sup>* (p, fresh) (p', reg)"
    and "m \<in> cluster_metrics" and "shown reg m vs"
  shows "(\<exists>s r. ca_Get C (p_Cache p') s = Some (RecordItem r) \<and> cluster_of vs = record_ident r) \<or>
         m = subAccountProcessed \<and> (\<exists>s. vs = [''false'', '''', '''', '''', s, ''''])"
proof -
  have "accounted C shown (p_Cache p') reg \<and> cache_wf C (p_Cache p')"
    using assms(4)
  proof (induction rule: rtranclp_induct2)
    case refl
    then show ?case
      using assms(3) prom_registry.shown_fresh [OF assms(2)] by (auto simp: accounted_def cache_wf_def item_wf_def)
  next
    case (step p1 reg1 p2 reg2)
    then show ?case using metered.metered_step_follows [OF metered.intro [OF assms(1,2)]] main_works_own by blast
  qed
  then show ?thesis using assms(5,6) unfolding accounted_def by blast
qed

theorem metrics_follow_cache_witness:
  "\<exists>app reg p'. sampleMain = Inr app \<and>
     (let p = (app_process app)\<lparr>p_Queue := qo_Add ref_queue_ops (p_Queue (app_process app)) ''s''\<rparr>;
          W = main_worlds ref_ttl_ops :: (ref_ttl KubeconfigProvider, unit, unit_clients,
                (unit_interface, nat cluster_scan) EdpCollector, nat cluster_scan) work_env set
      in (metered_step alist_cache ref_queue_ops rq_tick W rr_perform)\<^sup>*\<^sup>* (p, rr_fresh) (p', reg)) \<and>
     (let vs = [''false'', '''', '''', '''', ''s'', '''']
      in rr_shown reg subAccountProcessed vs \<and>
         ((\<exists>s r. ca_Get alist_cache (p_Cache p') s = Some (RecordItem r) \<and> cluster_of vs = record_ident r) \<or>
          (\<exists>s. vs = [''false'', '''', '''', '''', s, ''''])))"
proof -
  let ?W = "main_worlds ref_ttl_ops :: (ref_ttl KubeconfigProvider, unit, unit_clients,
                (unit_interface, nat cluster_scan) EdpCollector, nat cluster_scan) work_env set"
  let ?vs = "[''false'', '''', '''', '''', ''s'', '''']"
  obtain app where app: "sampleMain = Inr app" using sampleMain_Inr by blast
  note begun = main_setup_Inr [OF app [unfolded sampleMain_def]]
  let ?p = "(app_process app)\<lparr>p_Queue := qo_Add ref_queue_ops (p_Queue (app_process app)) ''s''\<rparr>"
  have none: "ca_Get alist_cache (p_Cache ?p) s = None" for s
    using begun(1) by (simp add: alist_cache_def)
  obtain we where we: "we \<in> ?W"
    unfolding main_worlds_def by (fastforce intro: exI [of _ "undefined\<lparr>env_conv := cluster_EDP undefined\<rparr>"])
  obtain q where "qo_Get ref_queue_ops (p_Queue ?p) = Some (''s'', q)"
    using begun(2) by (simp add: ref_queue_ops_def rq_Get_def rq_Add_def)
  then obtain out p' where run: "execute_round alist_cache ref_queue_ops we ?p = Some (out, p',
      [Metric (recordSubAccountProcessed False ((zeroRecord :: nat cluster_scan Record)\<lparr>rec_SubAccountID := ''s''\<rparr>))])"
    using none by (simp add: execute_round_def processSubAccountID_def)
  let ?reg = "rr_perform (Inc subAccountProcessed ?vs) rr_fresh"
  have step: "(metered_step alist_cache ref_queue_ops rq_tick ?W rr_perform)\<^sup>*\<^sup>* (?p, rr_fresh) (p', ?reg)"
    using ms_work [OF we run, of rq_tick rr_perform rr_fresh]
    by (intro r_into_rtranclp) (simp add: recordSubAccountProcessed_def zeroRecord_def FormatBool_def)
  have shown: "rr_shown ?reg subAccountProcessed ?vs" by (simp add: rr_shown_def)
  have start: "\<forall>s. ca_Get alist_cache (p_Cache ?p) s = None" using none by blast
  have m: "subAccountProcessed \<in> cluster_metrics" by (simp add: cluster_metrics_def)
  note metrics_follow_cache [OF ref_libs.process_libs_axioms ref_registry.prom_registry_axioms, OF start step m shown]
  then show ?thesis
    unfolding Let_def
    by (intro exI [of _ app] exI [of _ ?reg] exI [of _ p'] conjI app step shown) simp
qed

section \<open>Series that stay\<close>

text \<open>
  When a poll and a round do overlap, a worker may count a failure for a record that the poll has just
  displaced, after the poll has deleted its series. Nothing deletes the new series then: a poll deletes
  only series of records it finds in the cache.
\<close>

definition uncached :: "('c, 's cache_item) cache_ops \<Rightarrow> 'c \<Rightarrow> string list \<Rightarrow> bool" where
  "uncached C c i \<longleftrightarrow> (\<forall>s r. ca_Get C c s = Some (RecordItem r) \<longrightarrow> record_ident r \<noteq> i)"

lemma uncachedD: "uncached C c i \<Longrightarrow> ca_Get C c s = Some (RecordItem r) \<Longrightarrow> i \<noteq> record_ident r"
  by (auto simp: uncached_def)

context metered
begin

lemma populate_step_stays:
  assumes "uncached C (p_Cache p) (cluster_of vs)" and "record_ident (newRecord r :: 's Record) \<noteq> cluster_of vs"
    and "shown (fold perform calls reg) m vs" and "m \<noteq> kebFetchedClusters"
    and "populate_step C Q env (p, v, calls) r = (p', v', calls')"
  shows "uncached C (p_Cache p') (cluster_of vs) \<and> shown (fold perform calls' reg) m vs"
proof
  show "uncached C (p_Cache p') (cluster_of vs)"
    using step_get [of env p v calls r] assms(1,2,5)
    by (auto simp: uncached_def track_item_def split: if_splits option.splits cache_item.splits)
  have "shown (fold perform (calls @ [recordFetched b r]) reg) m vs" for b
    using shown_touch [of "recordFetched b r"] assms(3,4) by (simp add: recordFetched_def metric_call_defs)
  then show "shown (fold perform calls' reg) m vs"
    using assms(3-5)
    by (auto simp: populate_step_def shown_deleteMetrics Let_def dest: uncachedD [OF assms(1)]
        split: if_splits option.splits cache_item.splits sum.splits)
qed

end

context metered
begin

lemma populate_stays:
  "uncached C (p_Cache p) (cluster_of vs) \<Longrightarrow> \<forall>r \<in> set rs. record_ident (newRecord r :: 's Record) \<noteq> cluster_of vs \<Longrightarrow>
   shown (fold perform calls reg) m vs \<Longrightarrow> m \<noteq> kebFetchedClusters \<Longrightarrow>
   foldl (populate_step C Q env) (p, v, calls) rs = (p', v', calls') \<Longrightarrow>
     uncached C (p_Cache p') (cluster_of vs) \<and> shown (fold perform calls' reg) m vs"
proof (induction rs arbitrary: p v calls)
  case (Cons r rs)
  obtain p1 v1 calls1 where st: "populate_step C Q env (p, v, calls) r = (p1, v1, calls1)" by (metis prod_cases3)
  from Cons.prems(2) have "record_ident (newRecord r :: 's Record) \<noteq> cluster_of vs" by simp
  from populate_step_stays [OF Cons.prems(1) this Cons.prems(3,4) st] show ?case using Cons st by auto
qed simp

lemma cleanup_stays:
  "\<forall>e \<in> set es. \<forall>r. snd e = RecordItem r \<longrightarrow> record_ident r \<noteq> cluster_of vs \<Longrightarrow>
   record_ident (zeroRecord :: 's Record) \<noteq> cluster_of vs \<Longrightarrow> shown (fold perform calls reg) m vs \<Longrightarrow>
     shown (fold perform (snd (foldl (cleanup_step C env v) (p, calls) es)) reg) m vs"
proof (induction es arbitrary: p calls)
  case (Cons e es)
  obtain p1 calls1 where st: "cleanup_step C env v (p, calls) e = (p1, calls1)" by fastforce
  have "shown (fold perform calls1 reg) m vs"
    using st Cons.prems
    by (cases e) (auto simp: cleanup_step_def shown_deleteMetrics Let_def split: if_splits cache_item.splits)
  with Cons st show ?case by simp
qed simp

lemma poll_stays:
  assumes "uncached C (p_Cache p) (cluster_of vs)"
    and "\<forall>r \<in> set (pg_Data page). record_ident (newRecord r :: 's Record) \<noteq> cluster_of vs"
    and "record_ident (zeroRecord :: 's Record) \<noteq> cluster_of vs" and "shown reg m vs" and "m \<noteq> kebFetchedClusters"
  shows "shown (fold perform (snd (populateCacheAndQueue C Q env p page)) reg) m vs"
proof -
  obtain p1 v calls where loop: "foldl (populate_step C Q env) (p, [], [ResetVec kebFetchedClusters]) (pg_Data page) = (p1, v, calls)"
    by (metis prod_cases3)
  have "shown (fold perform [ResetVec kebFetchedClusters] reg) m vs" using assms(4,5) by (simp add: shown_reset)
  from populate_stays [OF assms(1,2) this assms(5) loop]
  have p1: "uncached C (p_Cache p1) (cluster_of vs)" "shown (fold perform calls reg) m vs" by simp_all
  have "\<forall>e \<in> set (ca_Items C (p_Cache p1)). \<forall>r. snd e = RecordItem r \<longrightarrow> record_ident r \<noteq> cluster_of vs"
    using p1(1) by (auto simp: item_iff uncached_def)
  from cleanup_stays [OF this assms(3) p1(2)] show ?thesis using loop by (simp add: populateCacheAndQueue_def)
qed

lemma late_failure:
  assumes "scan_cluster we coll prov r = WorkFailed prov' effs"
  shows "shown (fold perform (metric_calls effs) reg) subAccountProcessed (''false'' # record_ident r)"
proof -
  obtain pre where pre: "metric_calls effs = pre @ [recordSubAccountProcessed False r]"
    using assms by (auto simp: scan_cluster_def split: option.splits prod.splits)
  show ?thesis
    using shown_touch [of "recordSubAccountProcessed False r"]
    by (simp add: pre recordSubAccountProcessed_def record_ident_def FormatBool_def)
qed

end

text \<open>
  A failure that is counted for a record after a poll has displaced it leaves a series behind that every
  further poll keeps, as long as the cluster is not reported again.
\<close>

lemma late_failure_stays:
  fixes C :: "('c, 's cache_item) cache_ops"
  assumes "process_libs C Q tick pending processing qinv" and "prom_registry perform shown counted fresh"
    and "scan_cluster we coll prov (r :: 's Record) = WorkFailed prov' effs" and "rec_SubAccountID r \<noteq> ''''"
    and "uncached C (p_Cache p) (record_ident r)"
    and "\<forall>x \<in> set (pg_Data page). record_ident (newRecord x :: 's Record) \<noteq> record_ident r"
  shows "shown (fold perform (metric_calls effs @ snd (populateCacheAndQueue C Q env p page)) reg)
           subAccountProcessed (''false'' # record_ident r)"
proof -
  have c: "cluster_of (''false'' # record_ident r) = record_ident r" "record_ident (zeroRecord :: 's Record) \<noteq> record_ident r"
    using assms(4) by (simp_all add: cluster_of_def record_ident_def zeroRecord_def)
  note M = metered.intro [OF assms(1,2)]
  show ?thesis
    using metered.poll_stays [OF M, where vs = "''false'' # record_ident r" and p = p and page = page and m = subAccountProcessed]
      metered.late_failure [OF M assms(3)] assms(5,6) c by simp
qed

end
