(* ===== verification/EventJson.thy ===== *)
theory EventJson
  imports EdpCollector Unmarshal
begin

text \<open>
  The body of an event: \<open>json.Marshal\<close> on the payload (\<^verbatim>\<open>src/pkg/collector/edp/payload.go\<close>,
  \<^verbatim>\<open>src/pkg/resource/structures.go\<close>), by the tags of the structs. What is posted decodes to the event again.
\<close>

section \<open>The encoder\<close>

text \<open>A float that is not finite has no JSON form and makes the encoder fail.\<close>

fun float_json :: "(rat \<Rightarrow> string) \<Rightarrow> float64 \<Rightarrow> go_error + json" where
  "float_json fmt (Fin q) = Inr (JNum (fmt q))"
| "float_json fmt PosInf = Inl (ErrorString ''json: unsupported value: +Inf'')"
| "float_json fmt NegInf = Inl (ErrorString ''json: unsupported value: -Inf'')"
| "float_json fmt NaN = Inl (ErrorString ''json: unsupported value: NaN'')"

definition int_json :: "int64 \<Rightarrow> json" where
  "int_json i = JNum (show_int (sint i))"

definition vm_json :: "VMType \<Rightarrow> json" where
  "vm_json m = JObj [(''name'', JStr (vm_Name m)), (''count'', int_json (vm_Count m))]"

definition volumes_json :: "ProvisionedVolumes \<Rightarrow> json" where
  "volumes_json v = JObj [(''size_gb_total'', int_json (SizeGbTotal v)), (''count'', int_json (pvol_Count v)),
     (''size_gb_rounded'', int_json (SizeGbRounded v))]"

text \<open>
  The machine types of an event are a slice that starts as nil and that only appending changes, so it is nil
  when it is empty, and the encoder writes null for it.
\<close>

definition vms_json :: "VMType list \<Rightarrow> json" where
  "vms_json vs = (if vs = [] then JNull else JArr (map vm_json vs))"

definition measurement_json :: "(rat \<Rightarrow> string) \<Rightarrow> EDPMeasurement \<Rightarrow> go_error + json" where
  "measurement_json fmt m =
     (case float_json fmt (ProvisionedCPUs m) of
        Inl err \<Rightarrow> Inl err
      | Inr cpus \<Rightarrow>
         (case float_json fmt (ProvisionedRAMGb m) of
            Inl err \<Rightarrow> Inl err
          | Inr ram \<Rightarrow> Inr (JObj [(''vm_types'', vms_json (VMTypes m)), (''provisioned_cpus'', cpus),
              (''provisioned_ram_gb'', ram), (''provisioned_volumes'', volumes_json (edp_ProvisionedVolumes m))])))"

definition networking_json :: "networking \<Rightarrow> json" where
  "networking_json n = JObj [(''provisioned_vnets'', int_json (ProvisionedVnets n)), (''provisioned_ips'', int_json (ProvisionedIPs n))]"

text \<open>The field \<open>networking\<close> is omitted when it is nil.\<close>

definition payload_json :: "(rat \<Rightarrow> string) \<Rightarrow> payload \<Rightarrow> go_error + json" where
  "payload_json fmt pl =
     (case measurement_json fmt (pl_Compute pl) of
        Inl err \<Rightarrow> Inl err
      | Inr compute \<Rightarrow> Inr (JObj ([(''runtime_id'', JStr (pl_RuntimeID pl)), (''sub_account_id'', JStr (pl_SubAccountID pl)),
          (''shoot_name'', JStr (pl_ShootName pl)), (''timestamp'', JStr (pl_Timestamp pl)), (''compute'', compute)] @
          (case pl_Networking pl of None \<Rightarrow> [] | Some n \<Rightarrow> [(''networking'', networking_json n)]))))"

definition marshal_payload :: "(rat \<Rightarrow> string) \<Rightarrow> payload \<Rightarrow> go_error + string" where
  "marshal_payload fmt pl = map_sum id render (payload_json fmt pl)"

section \<open>Reading an event\<close>

text \<open>What \<open>json.Unmarshal\<close> makes of the body of an event, in a payload without values.\<close>

definition unm_vm :: "VMType unmarshaler" where
  "unm_vm = unm_struct ''resource.VMType''
     [(''name'', unm_field vm_Name (\<lambda>x r. r\<lparr>vm_Name := x\<rparr>) unm_string),
      (''count'', unm_field vm_Count (\<lambda>x r. r\<lparr>vm_Count := x\<rparr>) (unm_int ''int''))]"

definition unm_volumes :: "ProvisionedVolumes unmarshaler" where
  "unm_volumes = unm_struct ''resource.ProvisionedVolumes''
     [(''size_gb_total'', unm_field SizeGbTotal (\<lambda>x r. r\<lparr>SizeGbTotal := x\<rparr>) (unm_int ''int64'')),
      (''count'', unm_field pvol_Count (\<lambda>x r. r\<lparr>pvol_Count := x\<rparr>) (unm_int ''int'')),
      (''size_gb_rounded'', unm_field SizeGbRounded (\<lambda>x r. r\<lparr>SizeGbRounded := x\<rparr>) (unm_int ''int64''))]"

definition unm_measurement :: "EDPMeasurement unmarshaler" where
  "unm_measurement = unm_struct ''resource.EDPMeasurement''
     [(''vm_types'', unm_field VMTypes (\<lambda>x r. r\<lparr>VMTypes := x\<rparr>) (unm_slice ''[]resource.VMType'' \<lparr>vm_Name = [], vm_Count = 0\<rparr> unm_vm)),
      (''provisioned_cpus'', unm_field ProvisionedCPUs (\<lambda>x r. r\<lparr>ProvisionedCPUs := x\<rparr>) unm_float),
      (''provisioned_ram_gb'', unm_field ProvisionedRAMGb (\<lambda>x r. r\<lparr>ProvisionedRAMGb := x\<rparr>) unm_float),
      (''provisioned_volumes'', unm_field edp_ProvisionedVolumes (\<lambda>x r. r\<lparr>edp_ProvisionedVolumes := x\<rparr>) unm_volumes)]"

definition unm_networking :: "networking unmarshaler" where
  "unm_networking = unm_struct ''edp.networking''
     [(''provisioned_vnets'', unm_field ProvisionedVnets (\<lambda>x r. r\<lparr>ProvisionedVnets := x\<rparr>) (unm_int ''int'')),
      (''provisioned_ips'', unm_field ProvisionedIPs (\<lambda>x r. r\<lparr>ProvisionedIPs := x\<rparr>) (unm_int ''int''))]"

definition unm_payload :: "payload unmarshaler" where
  "unm_payload = unm_struct ''edp.payload''
     [(''runtime_id'', unm_field pl_RuntimeID (\<lambda>x r. r\<lparr>pl_RuntimeID := x\<rparr>) unm_string),
      (''sub_account_id'', unm_field pl_SubAccountID (\<lambda>x r. r\<lparr>pl_SubAccountID := x\<rparr>) unm_string),
      (''shoot_name'', unm_field pl_ShootName (\<lambda>x r. r\<lparr>pl_ShootName := x\<rparr>) unm_string),
      (''timestamp'', unm_field pl_Timestamp (\<lambda>x r. r\<lparr>pl_Timestamp := x\<rparr>) unm_string),
      (''compute'', unm_field pl_Compute (\<lambda>x r. r\<lparr>pl_Compute := x\<rparr>) unm_measurement),
      (''networking'', unm_field pl_Networking (\<lambda>x r. r\<lparr>pl_Networking := x\<rparr>)
         (unm_pointer \<lparr>ProvisionedVnets = 0, ProvisionedIPs = 0\<rparr> unm_networking))]"

definition zeroPayload :: payload where
  "zeroPayload = \<lparr>pl_RuntimeID = [], pl_SubAccountID = [], pl_ShootName = [], pl_Timestamp = [], pl_Compute = zeroEDP,
     pl_Networking = None\<rparr>"

definition event_of :: "string \<Rightarrow> payload option" where
  "event_of body = (case json_Unmarshal unm_payload body zeroPayload of Inl _ \<Rightarrow> None | Inr pl \<Rightarrow> Some pl)"

section \<open>The round trip\<close>

definition payload_text :: "payload \<Rightarrow> bool" where
  "payload_text pl \<longleftrightarrow> valid_utf8 (pl_RuntimeID pl) \<and> valid_utf8 (pl_SubAccountID pl) \<and> valid_utf8 (pl_ShootName pl) \<and>
     valid_utf8 (pl_Timestamp pl) \<and> (\<forall>m \<in> set (VMTypes (pl_Compute pl)). valid_utf8 (vm_Name m))"

fun float_wf :: "float64 \<Rightarrow> bool" where
  "float_wf (Fin q) = is_f64 q"
| "float_wf _ = True"

lemma unm_int_json [unmarshal_simps]: "unm_int ty (int_json i) a = Inr i"
  by (simp add: unm_int_def int_json_def)

lemma int_json_wf [simp]: "json_wf (int_json i)" "json_depth (int_json i) = 0"
  by (simp_all add: int_json_def)

lemma unm_vm_json: "unm_vm (vm_json m) a = Inr m"
  by (simp add: unm_vm_def vm_json_def unmarshal_simps)

lemma unm_vms_json: "unm_slice ty zero unm_vm (vms_json vs) a = Inr vs"
proof (cases "vs = []")
  case True
  then show ?thesis by (simp add: unm_slice_def vms_json_def)
next
  case False
  then show ?thesis unfolding vms_json_def by (simp add: unm_slice_arr unm_vm_json)
qed

lemma unm_volumes_json: "unm_volumes (volumes_json v) a = Inr v"
  by (simp add: unm_volumes_def volumes_json_def unmarshal_simps)

lemma unm_networking_json: "unm_networking (networking_json n) a = Inr n"
  by (simp add: unm_networking_def networking_json_def unmarshal_simps)

lemma networking_json_neq: "networking_json n \<noteq> JNull"
  by (simp add: networking_json_def)

lemma volumes_json_wf [simp]: "json_wf (volumes_json v)" "json_depth (volumes_json v) = 1"
  by (simp_all add: volumes_json_def)

lemma networking_json_wf [simp]: "json_wf (networking_json n)" "json_depth (networking_json n) = 1"
  by (simp_all add: networking_json_def)

lemma vms_json_wf: "\<forall>m \<in> set vs. valid_utf8 (vm_Name m) \<Longrightarrow> json_wf (vms_json vs)"
  by (simp add: vms_json_def vm_json_def)

lemma vms_json_depth: "json_depth (vms_json vs) \<le> 2"
proof -
  have "d \<le> 1 \<Longrightarrow> fold (\<lambda>v. max (json_depth v)) (map vm_json vs) d \<le> 1" for d
    by (induction vs arbitrary: d) (simp_all add: vm_json_def)
  from this [of 0] show ?thesis by (simp add: vms_json_def)
qed

text \<open>An event without machine types carries null in their place, not an empty list.\<close>

lemma no_machine_types_null:
  "VMTypes (pl_Compute (newPayload rt sub shoot ts ms)) = [] \<longleftrightarrow> (\<forall>m \<in> set ms. VMTypes m = [])"
  "vms_json [] = JNull"
  by (auto simp: newPayload_def aggregate_parts vms_json_def)

text \<open>The encoder fails exactly on the values JSON does not have.\<close>

lemma marshal_succeeds:
  "(\<exists>body. marshal_payload fmt pl = Inr body) \<longleftrightarrow>
     f64_finite (ProvisionedCPUs (pl_Compute pl)) \<and> f64_finite (ProvisionedRAMGb (pl_Compute pl))"
  by (cases "ProvisionedCPUs (pl_Compute pl)"; cases "ProvisionedRAMGb (pl_Compute pl)")
    (simp_all add: marshal_payload_def payload_json_def measurement_json_def f64_finite_def)

context float_text
begin

lemma float_json_Inr:
  assumes "float_json fmt f = Inr j" and "float_wf f"
  shows "json_wf j \<and> json_depth j = 0 \<and> unm_float j a = Inr f"
  using assms by (cases f) (auto simp: unm_float_def fmt_literal parse_fmt)

lemma measurement_Inr:
  assumes "measurement_json fmt m = Inr j" and "float_wf (ProvisionedCPUs m)" and "float_wf (ProvisionedRAMGb m)"
    and "\<forall>x \<in> set (VMTypes m). valid_utf8 (vm_Name x)"
  shows "json_wf j \<and> json_depth j \<le> 3 \<and> unm_measurement j a = Inr m"
proof -
  obtain cpus ram where f: "float_json fmt (ProvisionedCPUs m) = Inr cpus" "float_json fmt (ProvisionedRAMGb m) = Inr ram"
    and j: "j = JObj [(''vm_types'', vms_json (VMTypes m)), (''provisioned_cpus'', cpus),
              (''provisioned_ram_gb'', ram), (''provisioned_volumes'', volumes_json (edp_ProvisionedVolumes m))]"
    using assms(1) by (auto simp: measurement_json_def split: sum.split_asm)
  note fs = float_json_Inr [OF f(1) assms(2)] float_json_Inr [OF f(2) assms(3)]
  have "unm_measurement j a = Inr m"
    using fs by (simp add: j unm_measurement_def unmarshal_simps unm_vms_json unm_volumes_json)
  then show ?thesis using fs vms_json_wf [OF assms(4)] vms_json_depth [of "VMTypes m"] by (simp add: j)
qed

lemma marshal_Inr:
  assumes "marshal_payload fmt pl = Inr body" and "float_wf (ProvisionedCPUs (pl_Compute pl))"
    and "float_wf (ProvisionedRAMGb (pl_Compute pl))" and "payload_text pl"
  shows "event_of body = Some pl"
proof -
  obtain j where j: "measurement_json fmt (pl_Compute pl) = Inr j"
    using assms(1) by (cases "measurement_json fmt (pl_Compute pl)") (auto simp: marshal_payload_def payload_json_def)
  have m: "json_wf j" "json_depth j \<le> 3" "unm_measurement j a = Inr (pl_Compute pl)" for a
    using measurement_Inr [OF j assms(2,3)] assms(4) by (simp_all add: payload_text_def)
  let ?j = "JObj ([(''runtime_id'', JStr (pl_RuntimeID pl)), (''sub_account_id'', JStr (pl_SubAccountID pl)),
          (''shoot_name'', JStr (pl_ShootName pl)), (''timestamp'', JStr (pl_Timestamp pl)), (''compute'', j)] @
          (case pl_Networking pl of None \<Rightarrow> [] | Some n \<Rightarrow> [(''networking'', networking_json n)]))"
  have "body = render ?j" using assms(1) j by (simp add: marshal_payload_def payload_json_def)
  moreover have "json_wf ?j"
    using m(1) assms(4) by (cases "pl_Networking pl") (simp_all add: payload_text_def)
  moreover have "json_depth ?j \<le> maxNestingDepth"
    using m(2) by (cases "pl_Networking pl") (simp_all add: maxNestingDepth_def)
  ultimately have "decode body = Some ?j" by (simp only: decode_render)
  moreover have "unm_payload ?j zeroPayload = Inr pl"
    using m(3) by (cases "pl_Networking pl")
      (simp_all add: unm_payload_def zeroPayload_def unmarshal_simps unm_pointer_def unm_networking_json networking_json_neq)
  ultimately show ?thesis by (simp add: event_of_def json_Unmarshal_def)
qed

end

section \<open>What a cycle posts\<close>

lemma append_int_ascii: "list_all (\<lambda>c. of_char c \<le> (0x7F :: nat)) (append_int x w)"
  using show_nat_digits [of "nat \<bar>x\<bar>"] by (auto simp: append_int_def pad_zeros_def list_all_iff)

lemma timestamp_valid: "valid_utf8 (getTimestampNow t)"
  by (rule valid_all_ascii) (simp add: getTimestampNow_def append_int_ascii Let_def)

lemma f64_add_wf: "float_wf (f64_add a b)"
proof (cases "f64_add a b")
  case (Fin q)
  then obtain x where "f64_round x = Fin q" by (cases a; cases b) auto
  then show ?thesis using Fin by (simp add: is_f64_def f64_round_idem)
qed simp_all

lemma foldl_f64_wf: "float_wf a \<Longrightarrow> float_wf (foldl f64_add a xs)"
  by (induction xs arbitrary: a) (simp_all add: f64_add_wf)

lemma aggregate_wf:
  "float_wf (ProvisionedCPUs (aggregateEDPMeasurements ms)) \<and> float_wf (ProvisionedRAMGb (aggregateEDPMeasurements ms))"
proof -
  have "float_wf (Fin 0)" using f64_round_int [of 0] by (simp add: is_f64_def)
  then show ?thesis by (simp add: aggregate_parts foldl_f64_wf)
qed

text \<open>
  C4: what is posted is what is billed. The body of every request of a collection cycle is JSON that decodes
  to the event aggregated from the billed scans, number by number and name by name, whatever characters the
  names have and however the floats are printed, so long as reading them gives them back.
\<close>

theorem posted_event_decodes:
  assumes "float_text fmt" and "env_marshal env = marshal_payload fmt"
    and "distinct (map sc_ID (ec_scanners c))" and "go_range (env_ord env)"
    and "CollectAndSend env c rt cl prev = (scans, err, effs)" and "(req, body) \<in> set (posts effs)"
    and "valid_utf8 (ri_RuntimeID rt)" and "valid_utf8 (ri_SubAccountID rt)" and "valid_utf8 (ri_ShootName rt)"
    and "\<forall>e \<in> set scans. \<forall>m \<in> set (VMTypes (fst (env_conv env (snd e)))). valid_utf8 (vm_Name m)"
  shows "event_of body = Some (billing_event env rt scans)"
proof -
  let ?pl = "billing_event env rt scans"
  have "scans = billed_scans env c rt cl prev" and post: "(req, body) \<in> set (posts (snd (sendPayload env (ecl_Config (ec_EDPClient c)) ?pl (ri_SubAccountID rt))))"
    using assms(5,6) unfolding CollectAndSend_eq [OF assms(3,4)] by (auto simp: Let_def split: if_splits)
  then have body: "marshal_payload fmt ?pl = Inr body" using posts_sendPayload [OF post] assms(2) by simp
  have "payload_text ?pl"
    using assms(7-10) by (auto simp: payload_text_def billing_event_def newPayload_def timestamp_valid aggregate_parts)
  then show ?thesis
    using float_text.marshal_Inr [OF assms(1) body] aggregate_wf by (simp add: billing_event_def newPayload_def)
qed

definition sampleCollector :: "(unit, nat) EdpCollector" where
  "sampleCollector = \<lparr>ec_EDPClient = edp_NewClient sampleEdpConfig sampleLogger, ec_scanners = [\<lparr>sc_ID = ''node'', sc_Scan = \<lambda>rt cl. Inr 7\<rparr>]\<rparr>"

lemma sendPayload_effects:
  "env_marshal env pl = Inr body \<Longrightarrow> edp_NewRequest (env_newRequest env) c sub = Inr req \<Longrightarrow>
     snd (sendPayload env c pl sub) = snd (edp_Send (env_retry env) c (env_httpDo env) req body)"
  by (simp add: sendPayload_def split: prod.split sum.split)

lemma aggregate_zero: "aggregateEDPMeasurements (map (\<lambda>_. zeroEDP) xs) = zeroEDP"
proof -
  have "aggregate_step zeroEDP zeroEDP = zeroEDP"
    using f64_round_int [of 0] by (simp add: aggregate_step_def zeroEDP_def zeroVolumes_def)
  then show ?thesis unfolding aggregateEDPMeasurements_def by (induction xs) simp_all
qed

theorem posted_event_decodes_witness:
  "let env = sampleEnv\<lparr>env_marshal := marshal_payload ref_fmt\<rparr>;
       (scans, err, effs) = CollectAndSend env sampleCollector sampleInfo () []
   in \<exists>req body. (req, body) \<in> set (posts effs) \<and> event_of body = Some (billing_event env sampleInfo scans)"
proof -
  let ?env = "sampleEnv\<lparr>env_marshal := marshal_payload ref_fmt\<rparr>"
  obtain scans err effs where run: "CollectAndSend ?env sampleCollector sampleInfo () [] = (scans, err, effs)"
    by (metis prod_cases3)
  let ?pl = "billing_event ?env sampleInfo scans"
  have d: "distinct (map sc_ID (ec_scanners sampleCollector))" by (simp add: sampleCollector_def)
  have ord: "go_range (env_ord ?env)" using range_id.go_range_axioms by (simp add: sampleEnv_def)
  have "map_of (billed_scans ?env sampleCollector sampleInfo () []) ''node'' = Some 7"
    using map_of_billed [OF d ord, of "\<lparr>sc_ID = ''node'', sc_Scan = \<lambda>rt cl. Inr 7\<rparr>" sampleInfo "()" "[]"]
    by (simp add: sampleCollector_def best_scan_def kept_scan_def converts_def sampleEnv_def)
  then have "billed_scans ?env sampleCollector sampleInfo () [] \<noteq> []" by auto
  then have posts: "posts effs = posts (snd (sendPayload ?env sampleEdpConfig ?pl ''s''))"
    using run unfolding CollectAndSend_eq [OF d ord] by (auto simp: Let_def sampleCollector_def sampleInfo_def)
  have "pl_Compute ?pl = zeroEDP" by (simp add: billing_event_def newPayload_def sampleEnv_def aggregate_zero)
  then obtain body where "marshal_payload ref_fmt ?pl = Inr body"
    using marshal_succeeds [of ref_fmt ?pl] by (auto simp: zeroEDP_def f64_finite_def)
  moreover obtain req where "edp_NewRequest (env_newRequest ?env) sampleEdpConfig ''s'' = Inr req"
    by (simp add: edp_NewRequest_def sampleEnv_def)
  ultimately have "posts effs = replicate (snd (retry_ref 3 (\<lambda>i. fst (edp_attempt sampleEdpConfig (env_httpDo ?env) req body i)))) (req, body)"
    unfolding posts by (simp add: sendPayload_effects edp_Send_posts) (simp add: sampleEnv_def sampleEdpConfig_def)
  then have "(req, body) \<in> set (posts effs)" using ref_retry.attempts_pos [of 3] by (simp add: set_replicate_conv_if)
  moreover have "event_of body = Some ?pl"
    by (rule posted_event_decodes [OF ref_float.float_text_axioms _ d ord run calculation])
      (simp_all add: sampleInfo_def sampleEnv_def zeroEDP_def utf8_len_def)
  ultimately show ?thesis using run by auto
qed

end
