(* ===== verification/UnifiedMetering.thy ===== *)
theory UnifiedMetering
  imports Resource
begin

text \<open>
  \<^verbatim>\<open>src/pkg/collector/unifiedmetering\<close>: the collector for the second billing backend, which \<open>main\<close> does not
  use yet. It runs the scanners, keeps the previous scan of a scanner that fails, and sends an empty
  record. A scan in its map may be nil: the lookup of a previous scan that does not exist gives nil.
\<close>

section \<open>Model\<close>

record ('cl, 's, 'lg) UmCollector =
  um_scanners :: "('cl, 's) Scanner list"
  um_logger :: "'lg option"

type_synonym 's um_scans = "(ScannerID, 's option) gomap"

definition um_NewCollector :: "('cl, 's) Scanner list \<Rightarrow> ('cl, 's, 'lg) UmCollector" where
  "um_NewCollector scanners = \<lparr>um_scanners = scanners, um_logger = None\<rparr>"

datatype UmRecord = UmRecord

definition um_NewRecord :: "'t \<Rightarrow> 't \<Rightarrow> 's option list \<Rightarrow> UmRecord" where
  "um_NewRecord from to scans = UmRecord"

definition um_sendRecord :: "UmRecord \<Rightarrow> go_error option" where
  "um_sendRecord r = None"

text \<open>
  \<open>logError\<close> is the method \<open>Error\<close> of the logger, a pointer; it answers whether the call returns.
\<close>

definition um_step ::
  "('lg option \<Rightarrow> go_error \<Rightarrow> bool) \<Rightarrow> 'lg option \<Rightarrow> 's um_scans \<Rightarrow> Info \<Rightarrow> 'cl
   \<Rightarrow> 's um_scans option \<Rightarrow> ('cl, 's) Scanner \<Rightarrow> 's um_scans option" where
  "um_step logError logger previousScans runtime clients st s =
     (case st of None \<Rightarrow> None
      | Some scans \<Rightarrow>
         (case sc_Scan s runtime clients of
            Inr scan \<Rightarrow> Some (AList.update (sc_ID s) (Some scan) scans)
          | Inl err \<Rightarrow>
              if logError logger err
              then Some (AList.update (sc_ID s)
                     (case map_of previousScans (sc_ID s) of None \<Rightarrow> None | Some scan \<Rightarrow> scan) scans)
              else None))"

text \<open>\<open>None\<close> is a panic.\<close>

definition um_CollectAndSend ::
  "('lg option \<Rightarrow> go_error \<Rightarrow> bool) \<Rightarrow> ('s um_scans \<Rightarrow> 's um_scans) \<Rightarrow> 't \<Rightarrow> ('cl, 's, 'lg) UmCollector
   \<Rightarrow> Info \<Rightarrow> 'cl \<Rightarrow> 's um_scans \<Rightarrow> ('s um_scans \<times> go_error option) option" where
  "um_CollectAndSend logError ord now c runtime clients previousScans =
     (case foldl (um_step logError (um_logger c) previousScans runtime clients) (Some []) (um_scanners c) of
        None \<Rightarrow> None
      | Some scans \<Rightarrow>
          (let record' = um_NewRecord now now (map snd (ord scans))
           in Some (scans, um_sendRecord record')))"

section \<open>Correctness\<close>

text \<open>What is kept for a scanner: its fresh scan, or the previous one, which may be nil.\<close>

definition um_kept :: "'s um_scans \<Rightarrow> Info \<Rightarrow> 'cl \<Rightarrow> ('cl, 's) Scanner \<Rightarrow> 's option" where
  "um_kept prev rt cl s =
     (case sc_Scan s rt cl of Inr scan \<Rightarrow> Some scan
      | Inl _ \<Rightarrow> (case map_of prev (sc_ID s) of None \<Rightarrow> None | Some scan \<Rightarrow> scan))"

definition um_logs :: "('lg option \<Rightarrow> go_error \<Rightarrow> bool) \<Rightarrow> 'lg option \<Rightarrow> Info \<Rightarrow> 'cl \<Rightarrow> ('cl, 's) Scanner \<Rightarrow> bool" where
  "um_logs logError lg rt cl s \<longleftrightarrow> (case sc_Scan s rt cl of Inr _ \<Rightarrow> True | Inl err \<Rightarrow> logError lg err)"

lemma um_step_None: "foldl (um_step logError lg prev rt cl) None ss = None"
  by (induction ss) (simp_all add: um_step_def)

lemma um_step_Some:
  "um_step logError lg prev rt cl (Some m) s =
     (if um_logs logError lg rt cl s then Some (AList.update (sc_ID s) (um_kept prev rt cl s) m) else None)"
  by (simp add: um_step_def um_logs_def um_kept_def split: sum.split)

lemma um_loop:
  "foldl (um_step logError lg prev rt cl) (Some m) ss =
     (if list_all (um_logs logError lg rt cl) ss
      then Some (foldl (\<lambda>m s. AList.update (sc_ID s) (um_kept prev rt cl s) m) m ss) else None)"
  by (induction ss arbitrary: m) (simp_all add: um_step_Some um_step_None)

text \<open>
  The unified metering collector has an entry for every scanner, with its fresh scan or, if
  it failed, the previous one, and reports no error; but a collector made by its constructor has no
  logger, and panics as soon as one scanner fails, if calling a method of a nil logger panics.
\<close>

theorem um_CollectAndSend_result:
  assumes "distinct (map sc_ID ss)" and "\<And>err. \<not> logError None err"
  shows "um_CollectAndSend logError ord now (um_NewCollector ss) rt cl prev =
           (if list_ex (\<lambda>s. isl (sc_Scan s rt cl)) ss then None
            else Some (map (\<lambda>s. (sc_ID s, um_kept prev rt cl s)) ss, None))"
proof -
  have fresh: "foldl (\<lambda>m s. AList.update (sc_ID s) (um_kept prev rt cl s) m) [] ss =
      map (\<lambda>s. (sc_ID s, um_kept prev rt cl s)) ss"
    using foldl_update_fresh [of sc_ID ss "[]" "\<lambda>s. Some (um_kept prev rt cl s)"] assms(1)
    by (simp add: assigned_Some)
  have "list_all (um_logs logError None rt cl) ss \<longleftrightarrow> \<not> list_ex (\<lambda>s. isl (sc_Scan s rt cl)) ss"
    using assms(2) by (auto simp: list_all_iff list_ex_iff um_logs_def isl_def split: sum.splits)
  then show ?thesis
    by (simp add: fresh um_CollectAndSend_def um_NewCollector_def um_loop um_sendRecord_def)
qed

definition um_sample :: "(unit, nat) Scanner list" where
  "um_sample = [\<lparr>sc_ID = ''node'', sc_Scan = \<lambda>_ _. Inr 1\<rparr>, \<lparr>sc_ID = ''pvc'', sc_Scan = \<lambda>_ _. Inr 2\<rparr>]"

definition um_info :: Info where
  "um_info = \<lparr>ri_InstanceID = ''i'', ri_RuntimeID = ''r'', ri_SubAccountID = ''s'', ri_GlobalAccountID = ''g'',
     ri_ShootName = ''c'', ri_ProviderType = ''aws''\<rparr>"

theorem um_CollectAndSend_result_witness:
  "um_CollectAndSend (\<lambda>lg :: unit option. \<lambda>_. lg \<noteq> None) (\<lambda>m. m) () (um_NewCollector um_sample) um_info () [] =
     Some ([(''node'', Some 1), (''pvc'', Some 2)], None)"
  by (subst um_CollectAndSend_result) (simp_all add: um_sample_def um_kept_def)

end
