(* ===== verification/Stubs.thy ===== *)
theory Stubs
  imports Application
begin

text \<open>
  The test doubles of the repository: \<^verbatim>\<open>src/pkg/runtime/stubs\<close>, \<^verbatim>\<open>src/pkg/collector/edp/stubs\<close> and
  \<^verbatim>\<open>src/pkg/process/stubs\<close>. They are values behind the interfaces of the program, so the theorems about the
  components apply to them; what the unit tests expect of the components over their doubles is stated for
  all values of the doubles.
\<close>

section \<open>Clients\<close>

record ('meta, 'core, 'vs, 'dyn) stub_Clients =
  MetadataInterface :: 'meta
  KubernetesInterface :: 'core
  VolumeSnapshotInterface :: 'vs
  DynamicInterface :: 'dyn

definition stub_CloseConnections :: "('meta, 'core, 'vs, 'dyn) stub_Clients \<Rightarrow> unit" where
  "stub_CloseConnections r = ()"

definition stub_Metadata :: "('meta, 'core, 'vs, 'dyn) stub_Clients \<Rightarrow> 'meta" where
  "stub_Metadata r = MetadataInterface r"

definition stub_K8s :: "('meta, 'core, 'vs, 'dyn) stub_Clients \<Rightarrow> 'core" where
  "stub_K8s r = KubernetesInterface r"

definition stub_VolumeSnapshot :: "('meta, 'core, 'vs, 'dyn) stub_Clients \<Rightarrow> 'vs" where
  "stub_VolumeSnapshot r = VolumeSnapshotInterface r"

definition stub_Dynamic :: "('meta, 'core, 'vs, 'dyn) stub_Clients \<Rightarrow> 'dyn" where
  "stub_Dynamic r = DynamicInterface r"

definition stub_InterfaceCloser ::
  "('meta, 'core, 'vs, 'dyn) stub_Clients \<Rightarrow> ('meta, 'core, 'vs, 'dyn, unit) InterfaceCloser" where
  "stub_InterfaceCloser r =
     \<lparr>ic_Interface = \<lparr>if_Metadata = stub_Metadata r, if_K8s = stub_K8s r, if_VolumeSnapshot = stub_VolumeSnapshot r,
        if_Dynamic = stub_Dynamic r\<rparr>,
      ic_ConnectionCloser = \<lparr>cc_CloseConnections = stub_CloseConnections r\<rparr>\<rparr>"

record ('meta, 'core, 'vs, 'dyn) stub_ClientFactory =
  scf_Clients :: "('meta, 'core, 'vs, 'dyn) stub_Clients"

definition stub_NewClients ::
  "('meta, 'core, 'vs, 'dyn) stub_ClientFactory \<Rightarrow> 'cfg \<Rightarrow> go_error + ('meta, 'core, 'vs, 'dyn, unit) InterfaceCloser" where
  "stub_NewClients r config = Inr (stub_InterfaceCloser (scf_Clients r))"

section \<open>Scans and scanners of the collector's tests\<close>

record stub_Scan =
  ss_EDPMeasurement :: EDPMeasurement
  ss_EDPError :: "go_error option"

definition stub_NewScan :: "EDPMeasurement \<Rightarrow> go_error option \<Rightarrow> stub_Scan" where
  "stub_NewScan m err = \<lparr>ss_EDPMeasurement = m, ss_EDPError = err\<rparr>"

definition stub_UM :: "stub_Scan \<Rightarrow> int64 \<Rightarrow> UMMeasurement \<times> go_error option" where
  "stub_UM s duration = (UMMeasurement, None)"

definition stub_EDP :: "stub_Scan edp_conv" where
  "stub_EDP s = (ss_EDPMeasurement s, ss_EDPError s)"

record stub_Scanner =
  sn_scanConverter :: stub_Scan
  sn_scanError :: "go_error option"
  sn_scannerID :: ScannerID

definition stub_NewScanner :: "stub_Scan \<Rightarrow> go_error option \<Rightarrow> ScannerID \<Rightarrow> stub_Scanner" where
  "stub_NewScanner scan err i = \<lparr>sn_scanConverter = scan, sn_scanError = err, sn_scannerID = i\<rparr>"

text \<open>The method returns its scan beside the error; the collector looks at the scan only if there is no error.\<close>

definition stub_Scanner_Scan :: "stub_Scanner \<Rightarrow> Info \<Rightarrow> 'cl \<Rightarrow> go_error + stub_Scan" where
  "stub_Scanner_Scan s runtime clients = (case sn_scanError s of None \<Rightarrow> Inr (sn_scanConverter s) | Some err \<Rightarrow> Inl err)"

definition stub_Scanner_ID :: "stub_Scanner \<Rightarrow> ScannerID" where
  "stub_Scanner_ID s = sn_scannerID s"

definition stub_scanner :: "stub_Scanner \<Rightarrow> ('cl, stub_Scan) Scanner" where
  "stub_scanner s = \<lparr>sc_ID = stub_Scanner_ID s, sc_Scan = stub_Scanner_Scan s\<rparr>"

section \<open>Collector and scans of the tests of the process\<close>

record 's stub_Collector =
  sco_newScanMap :: "'s ScanMap"
  sco_err :: "go_error option"

definition stub_NewCollector :: "'s ScanMap \<Rightarrow> go_error option \<Rightarrow> 's stub_Collector" where
  "stub_NewCollector m err = \<lparr>sco_newScanMap = m, sco_err = err\<rparr>"

definition stub_CollectAndSend ::
  "'s stub_Collector \<Rightarrow> Info \<Rightarrow> 'cl \<Rightarrow> 's ScanMap \<Rightarrow> 's ScanMap \<times> go_error option \<times> effect list" where
  "stub_CollectAndSend c runtime clients previousScans = (sco_newScanMap c, sco_err c, [])"

record stub_process_Scan =
  sps_resources :: "string list"

definition stub_process_NewScan :: "string list \<Rightarrow> stub_process_Scan" where
  "stub_process_NewScan rs = \<lparr>sps_resources = rs\<rparr>"

definition stub_process_UM :: "stub_process_Scan \<Rightarrow> int64 \<Rightarrow> UMMeasurement \<times> go_error option" where
  "stub_process_UM s duration = (UMMeasurement, None)"

definition stub_process_EDP :: "stub_process_Scan edp_conv" where
  "stub_process_EDP s = (zeroEDP, None)"

section \<open>The components over their doubles\<close>

text \<open>
  A collector over doubles that all scan and all convert, with EDP confirming: no error, the scans are those of
  the doubles, and the event carries the volumes of all of them.
\<close>

lemma stub_cycle:
  assumes "distinct (map sn_scannerID ss)" and "go_range (env_ord env)" and "env_conv env = stub_EDP"
    and "\<forall>s \<in> set ss. sn_scanError s = None \<and> ss_EDPError (sn_scanConverter s) = None"
    and "CollectAndSend env (NewCollector client (map stub_scanner ss)) rt cl prev = (scans, err, effs)"
  shows "mset scans = mset (map (\<lambda>s. (sn_scannerID s, sn_scanConverter s)) ss)"
    and "edp_ProvisionedVolumes (pl_Compute (billing_event env rt scans)) =
           volumes_sum (map (\<lambda>s. ss_EDPMeasurement (sn_scanConverter s)) ss)"
proof -
  let ?c = "NewCollector client (map stub_scanner ss)"
  have d: "distinct (map sc_ID (ec_scanners ?c))"
    using assms(1) by (simp add: NewCollector_def stub_scanner_def stub_Scanner_ID_def comp_def)
  have ok: "\<forall>s \<in> set (ec_scanners ?c). \<exists>x. sc_Scan s rt cl = Inr x \<and> converts (env_conv env) x"
    using assms(3,4) by (simp add: NewCollector_def stub_scanner_def stub_Scanner_Scan_def converts_def stub_EDP_def)
  have "scans = billed_scans env ?c rt cl prev"
    using assms(5) unfolding CollectAndSend_eq [OF d assms(2)] by (auto simp: Let_def split: if_splits)
  then have "mset scans = mset (map (\<lambda>s. (sc_ID s, projr (sc_Scan s rt cl))) (ec_scanners ?c))"
    using fresh_billed [OF d assms(2) ok] by simp
  also have "map (\<lambda>s. (sc_ID s, projr (sc_Scan s rt cl))) (ec_scanners ?c) = map (\<lambda>s. (sn_scannerID s, sn_scanConverter s)) ss"
    using assms(4) by (simp add: NewCollector_def stub_scanner_def stub_Scanner_ID_def stub_Scanner_Scan_def)
  finally show scans: "mset scans = mset (map (\<lambda>s. (sn_scannerID s, sn_scanConverter s)) ss)" .
  have "mset (map (\<lambda>e. fst (env_conv env (snd e))) scans) = mset (map (\<lambda>s. ss_EDPMeasurement (sn_scanConverter s)) ss)"
    using arg_cong [OF scans, of "image_mset (\<lambda>e. fst (env_conv env (snd e)))"] assms(3)
    by (simp add: stub_EDP_def comp_def flip: mset_map)
  then show "edp_ProvisionedVolumes (pl_Compute (billing_event env rt scans)) =
           volumes_sum (map (\<lambda>s. ss_EDPMeasurement (sn_scanConverter s)) ss)"
    using volumes_sum_perm by (simp add: billing_event_def newPayload_def aggregate_parts)
qed

text \<open>
  A worker over the double of the collector: the record takes over the scans of a collector that reports no
  error, and stays as it is, with the subaccount queued again, after a collector that reports one.
\<close>

lemma stub_worker:
  assumes "ca_Get C (p_Cache p) s = Some (RecordItem record)"
    and "we_kubeconfig we (p_KubeconfigProvider p) (rec_RuntimeID record) = Some (Inr kc, prov, [])"
    and "we_restConfig we kc = Inr rc" and "we_newClients we = stub_NewClients f"
    and "we_collect we = stub_CollectAndSend" and "processSubAccountID C Q we p s = (out, p', effs)"
  shows "if sco_err (p_EDPCollector p) = None
    then out = Finished True \<and> p_Cache p' = ca_Set C (p_Cache p) (rec_SubAccountID record)
           (RecordItem (record\<lparr>rec_ScanMap := sco_newScanMap (p_EDPCollector p)\<rparr>))
    else out = Finished False \<and> p_Cache p' = p_Cache p \<and> p_Queue p' = qo_AddAfter Q (p_Queue p) s (p_ScrapeInterval p)"
  using assms
  by (auto simp: process_record [OF assms(1)] scan_cluster_def stub_NewClients_def stub_CollectAndSend_def split: option.splits)

end
