(* ===== verification/Spec2Isabelle.thy ===== *)
theory Spec2Isabelle
  imports Fairness Races Registry EventJson Service UnifiedMetering Stubs
begin

text \<open>
  A verification development for the Kyma Metrics Collector, the Go program under \<^verbatim>\<open>src/\<close> that bills the
  clusters (runtimes) of a Kyma landscape.

  \<^bold>\<open>The program.\<close> A poller asks the Kyma environment broker (KEB) for all runtimes and keeps, for every
  subaccount with a billable runtime, a record in a cache; new subaccounts are put into a delaying work
  queue. Workers take a subaccount from the queue, load its record, get the kubeconfig of its cluster
  from a caching provider, scan the cluster for nodes, volume claims, Redis instances and volume
  snapshots, convert the scans to measurements, aggregate them into one event and post it to the event
  platform (EDP). A scan that fails, or that cannot be converted, is replaced by the previous one of the
  record. After success the record is stored with the new scans; in either case the subaccount is queued
  again after the scrape interval, until a poll has removed its record. Poller and workers are goroutines
  that share the cache, the queue and the provider.

  \<^bold>\<open>The theories\<close>, in the order in which they build on one another:

  \<^item> \<open>Prelude\<close>: Go's \<open>int64\<close> as 64-bit words, errors with wrapping and joining, printing of numbers, maps as
    association lists with an open order of \<open>range\<close> (locale \<open>go_range\<close>).
  \<^item> \<open>Float64\<close>: IEEE binary64 on rationals, with the rounding, conversions and \<open>time.Duration\<close> methods the
    code uses. Exactness and monotonicity lemmas.
  \<^item> \<open>Json\<close>: compact JSON as the standard encoder writes it, UTF-8 and escapes included; the decoder, which accepts
    what Go's accepts: space, the grammar of numbers, surrogate pairs, invalid UTF-8, bounded nesting; the round trip.
  \<^item> \<open>Unmarshal\<close>: \<open>json.Unmarshal\<close> into typed data, one decoder per Go type, combined field by field as the tags
    say; numbers as \<open>strconv\<close> reads them. Locale \<open>float_text\<close>: a printed float is read back.
  \<^item> \<open>Logging\<close> (\<^verbatim>\<open>pkg/logger\<close>): the keys, the format and the configuration of the logger.
  \<^item> \<open>CloudSpecs\<close> (\<^verbatim>\<open>pkg/config\<close>): features of machine types and tiers; \<open>LoadPublicCloudSpecs\<close> with the decoding of
    its file: when it succeeds, and that the lookups then return what the file says.
  \<^item> \<open>RuntimeModel\<close>, \<open>RuntimeClients\<close> (\<^verbatim>\<open>pkg/runtime\<close>, \<^verbatim>\<open>pkg/otel/span_attributes.go\<close>): the identity of a
    cluster, the cache record, the clients of a cluster and their factory. A Go interface is a record of its
    methods (also in \<open>Resource\<close> and \<open>EdpCollector\<close>), and the rest of the program works on these records.
  \<^item> \<open>Metrics\<close> (\<^verbatim>\<open>metrics.go\<close> of every package): declarations of all vectors and the calls that record and
    delete series; a call is a value, so that the order of calls is part of what an operation returns.
  \<^item> \<open>Resource\<close>, \<open>NodeResource\<close>, \<open>PvcResource\<close>, \<open>VscResource\<close>, \<open>RedisResource\<close> (\<^verbatim>\<open>pkg/resource\<close>): \<open>Scan\<close> of each
    resource and its conversion \<open>EDP\<close>, loop bodies as \<open>_step\<close> functions. What is billed is shown to be the
    sum over the objects, exactly in floating point within stated bounds.
  \<^item> \<open>Retry\<close>: the contract of the retry library (locale \<open>retrier\<close>).
  \<^item> \<open>Query\<close>: queries of URLs as \<open>net/url\<close> encodes them, and their reading; what is encoded is read.
  \<^item> \<open>EdpClient\<close>, \<open>EdpCollector\<close> (\<^verbatim>\<open>pkg/collector/edp\<close>): request, sending, payload, aggregation, and the cycle
    \<open>CollectAndSend\<close>: what is billed and returned, when it succeeds, independence of map order.
  \<^item> \<open>EventJson\<close>: the JSON of an event by the tags of its structs; every body posted decodes to the billed event.
  \<^item> \<open>UnifiedMetering\<close> (\<^verbatim>\<open>pkg/collector/unifiedmetering\<close>): the second collector, which \<open>main\<close> does not use.
  \<^item> \<open>KebClient\<close> (\<^verbatim>\<open>pkg/keb\<close>): requests, a page with retries, and \<open>GetAllRuntimes\<close>: the page number reaches
    the broker; complete, all or nothing, returning after a bounded number of requests when the pages make
    progress, and diverging when they do not.
  \<^item> \<open>ClusterTracking\<close> (\<^verbatim>\<open>pkg/process/cluster_tracking.go\<close>): the latest operation decides (locale \<open>slice_sort\<close>).
  \<^item> \<open>CacheQueue\<close>: contracts of the record cache (locale \<open>gocache\<close>) and of the queue (locales \<open>delaying_queue\<close>,
    \<open>fair_queue\<close> and \<open>timed_queue\<close>), with reference implementations.
  \<^item> \<open>ProcessState\<close>, \<open>KebProcessing\<close>, \<open>QueueProcessing\<close> (\<^verbatim>\<open>pkg/process\<close>): the struct and \<open>New\<close> with the filter file;
    a poll, \<open>populateCacheAndQueue\<close>, refined to an abstract poll of one subaccount; the work of a worker,
    \<open>processSubAccountID\<close> and a round of \<open>execute\<close>, on every branch, panics included, and which branch is taken.
  \<^item> \<open>Kubeconfig\<close> (\<^verbatim>\<open>pkg/runtime/kubeconfigprovider\<close>): \<open>Get\<close> over a TTL cache (locales \<open>ttlcache\<close> and, with
    deadlines and options, \<open>timed_cache\<close>), secrets, jitter; what \<open>Get\<close> returns at any time in the life of a provider,
    and how old it can be.
  \<^item> \<open>Concurrency\<close>: poller and workers as step relations whose steps are the single operations on shared
    objects, in worlds that may answer differently at each step; an invariant of all reachable states; the
    sequential functions are runs of the steps.
  \<^item> \<open>Liveness\<close>: every cached subaccount can always be brought to a worker.
  \<^item> \<open>Fairness\<close>: infinite runs under a weakly fair scheduler, each goroutine and the clock being an actor; every
    state continues to a fair run; in a fair run every cached subaccount is worked on again and again. The proofs
    follow one subaccount through the queue and the workers, each stretch with the actor that is bound to help.
  \<^item> \<open>Races\<close>: two interleavings whose outcome may surprise.
  \<^item> \<open>AppOptions\<close>, \<open>Service\<close>, \<open>Application\<close> (\<^verbatim>\<open>options\<close>, \<^verbatim>\<open>pkg/service\<close>, \<^verbatim>\<open>cmd/main.go\<close>): options, HTTP servers, telemetry
    (\<^verbatim>\<open>pkg/otel\<close>) and the set-up that puts the components together; the safety of the program as it is assembled.
  \<^item> \<open>Stubs\<close> (\<^verbatim>\<open>stubs\<close> of the packages): the test doubles as values of the interfaces, and what the program does
    with them.
  \<^item> \<open>MetricSafety\<close>: no metric call of the program panics.
  \<^item> \<open>Registry\<close>: what the metrics endpoint shows. The contract of the Prometheus vectors (locale \<open>prom_registry\<close>);
    the counters of a poll are those of the reported runtimes; the series of clusters follow the cache, as long as
    polls and rounds of workers do not overlap, and which series stay behind when they do.
  \<^item> This theory: the liveness of the program as it is assembled.

  \<^bold>\<open>State, errors and effects.\<close> A struct is a record whose fields carry a short prefix; the shared \<open>Process\<close> is
  passed through the operations and returned. A function that returns an error returns a sum with the
  error on the left, or an optional error beside the value where Go returns both. A panic is \<open>None\<close> of an
  option, or the outcome \<open>Panicked\<close> or \<open>Crashed\<close>. Metric calls, requests sent and connections closed are
  returned as a list in the order of the calls. Log lines are not modelled, the loggers that
  write them are; spans only by their attributes.

  \<^bold>\<open>Code outside the repository\<close> is a parameter: the Kubernetes clients, HTTP, the decoders of the YAML
  filter file, of the broker's answers and of unstructured Kubernetes objects, the printing of floats, the texts of
  decoding errors, the classification of errors by client-go, quantities, the random number generator, files,
  telemetry. Where a theorem needs a law of such
  code it is the assumption of a locale, which states what the documentation of the library says:
  \<open>go_range\<close> (a \<open>range\<close> loop visits every entry once), \<open>retrier\<close>, \<open>slice_sort\<close>, \<open>gocache\<close>, \<open>delaying_queue\<close>,
  \<open>fair_queue\<close> (first in, first out), \<open>timed_queue\<close> (a delay ends), \<open>ttlcache\<close>, \<open>timed_cache\<close> (entries have deadlines), \<open>prom_registry\<close>, \<open>float_text\<close>;
  \<open>process_libs\<close>, \<open>fair_libs\<close>, \<open>timed_libs\<close> and \<open>metered\<close> combine those of cache, queue and registry. Every locale is
  interpreted on an executable implementation, which the witnesses compute with.

  \<^bold>\<open>Bounds.\<close> Integers wrap around at 64 bits; results about sums carry the bound under which they do not. Sizes
  are exact in floating point up to \<open>2 ^ 53\<close>. The loop over KEB's pages is a partial function: that it does not
  return is the value \<open>None\<close>, and that it returns is a theorem. All other loops are structural. The only fuel is
  that of the JSON decoder, the length of its input; \<open>read_enough\<close> shows that more never changes the result.

  \<^bold>\<open>What the properties show.\<close> Safety of the assembled program under every interleaving (no crash, no cached
  subaccount lost, at most one worker per subaccount, stored scans convertible); liveness under a fair
  scheduler; billing is complete and exact when a cycle succeeds, falls back as intended otherwise, and
  what is posted decodes to what is billed; a poll leaves exactly the records the reported runtimes call for;
  paging is complete; requests, metrics, options and the set-up behave as the code means them to, on the error
  branches too.

  \<^bold>\<open>Not modelled\<close>: the text of log lines, and what zap, OpenTelemetry and the HTTP handlers of libraries do; the
  help texts and buckets of metrics; the delay between retries; the wait group of \<open>Process.Start\<close>, whose counter is
  never raised; the fixtures of the tests and the imports that pin build tools. Real time appears only as durations
  handed to the queue and the metrics and as the clock of the TTL cache. Unlimited retries (\<open>EDP_RETRY\<close> or
  \<open>KEB_RETRY_COUNT\<close> 0) have no law: a call that retries for ever is not a value of the model; for the
  safety of the program it is a worker or a poller that takes no further step, for liveness it is excluded.
  \<open>strings.ToLower\<close> is modelled on ASCII, in which machine types (label values of Kubernetes) and the
  names of the providers are written.
\<close>

section \<open>The program under a fair scheduler\<close>

lemma main_worlds_nonempty: "main_worlds T \<noteq> {}"
  unfolding main_worlds_def by (fastforce intro: exI [of _ "undefined\<lparr>env_conv := cluster_EDP undefined\<rparr>"])

lemma main_pool: "main_setup C Q T re boot opts = Inr app \<Longrightarrow> p_WorkersPoolSize (app_process app) = opt_WorkerPoolSize opts"
  by (auto simp: main_setup_def process_New_Inr Let_def split: sum.splits)

text \<open>
  C2: liveness of the program. The program as \<open>main\<close> puts it together, with at least one worker and a
  defined jitter, never stops billing: in every run in which the scheduler passes no goroutine over for
  ever and time goes on, whatever the outside world answers at each step, for every subaccount and from
  every moment on there is a moment at which it is not cached, because a poll has removed it, or at which a
  worker performs the step that scans its cluster and sends its event. That step, with all its network calls, is
  taken to end, as it does for a positive \<open>EDP_RETRY\<close>; with 0 the retry library sets no limit, and a worker whose
  event is never accepted does not come back from it.
\<close>

theorem program_live:
  assumes "timed_libs C Q tick pending processing qinv ready due" and "ttlcache T alive"
    and "main_setup C Q T re boot opts = Inr app"
    and "\<forall>rand. getJitterTTL rand (opt_KubeconfigCacheTTL opts) \<noteq> None" and "0 < sint (opt_WorkerPoolSize opts)"
    and "fair_from C Q tick UNIV (main_worlds T) (system_start (app_process app)) run acts"
  shows "\<exists>m \<ge> n. ca_Get C (p_Cache (sys_proc (run m))) s = None \<or>
           (\<exists>i r. acts m = Worker i \<and> sys_workers (run m) ! i = Working s r)"
proof -
  have libs: "process_libs C Q tick pending processing qinv"
    using fair_libs.axioms(1) [OF timed_libs.axioms(1) [OF assms(1)]] .
  note p = main_setup_Inr [OF assms(3)] and new = delaying_queue.new [OF process_libs.axioms(2) [OF libs]]
  show ?thesis
    by (rule timed_libs.fair_works [OF assms(1,6), where okp = "\<lambda>k. kp_ttl k = opt_KubeconfigCacheTTL opts"])
      (use gocache.get_new [OF process_libs.axioms(1) [OF libs]] p new main_provider_safe [OF assms(2) spec [OF assms(4)]]
        assms(5) main_pool [OF assms(3)] main_worlds_nonempty [of T] in \<open>auto simp: main_worlds_def\<close>)
qed

theorem program_live_witness:
  "\<exists>app run acts k. sampleMain = Inr app \<and>
     (let W = main_worlds ref_ttl_ops :: (ref_ttl KubeconfigProvider, unit, unit_clients,
            (unit_interface, nat cluster_scan) EdpCollector, nat cluster_scan) work_env set
      in fair_from alist_cache ref_queue_ops rq_tick UNIV W (system_start (app_process app)) run acts) \<and>
     ca_Get alist_cache (p_Cache (sys_proc (run k))) ''s'' \<noteq> None \<and>
     (\<exists>m \<ge> k. ca_Get alist_cache (p_Cache (sys_proc (run m))) ''s'' = None \<or>
        (\<exists>i r. acts m = Worker i \<and> sys_workers (run m) ! i = Working ''s'' r))"
proof -
  let ?W = "main_worlds ref_ttl_ops :: (ref_ttl KubeconfigProvider, unit, unit_clients,
    (unit_interface, nat cluster_scan) EdpCollector, nat cluster_scan) work_env set"
  obtain app where p: "sampleMain = Inr app" and skip: "skipRuntime (app_process app) = (\<lambda>_. False)"
    using sampleMain_Inr by blast
  let ?start = "app_process app"
  let ?p = "fst (populateCacheAndQueue alist_cache ref_queue_ops samplePollEnv ?start samplePage)"
  have "reachable alist_cache ref_queue_ops rq_tick UNIV ?W ?start ((system_start ?start)\<lparr>sys_proc := ?p\<rparr>)"
    using lift_poller_run [of samplePollEnv UNIV alist_cache ref_queue_ops "system_start ?start" ?p Resting rq_tick ?W]
      populate_run [of alist_cache ref_queue_ops samplePollEnv ?start samplePage] by (simp add: system_start_def)
  then obtain run acts k where run: "fair_from alist_cache ref_queue_ops rq_tick UNIV ?W (system_start ?start) run acts"
    and k: "run k = (system_start ?start)\<lparr>sys_proc := ?p\<rparr>"
    using fair_through by blast
  have jitter: "\<forall>rand. getJitterTTL rand (opt_KubeconfigCacheTTL sampleOptions) \<noteq> None"
    and pool: "0 < sint (opt_WorkerPoolSize sampleOptions)"
    by (simp_all add: getJitterTTL_def sampleOptions_def Minute_def)
  note live = program_live [OF ref_timed_libs.timed_libs_axioms ref_ttl.ttlcache_axioms p [unfolded sampleMain_def] jitter pool run,
      of k "''s''"]
  have cached: "ca_Get alist_cache (p_Cache (sys_proc (run k))) ''s'' \<noteq> None" using sample_polled [OF skip] k by simp
  show ?thesis
    unfolding Let_def by (intro exI [of _ app] exI [of _ run] exI [of _ acts] exI [of _ k] conjI p run cached live)
qed

end
